(* ===== verification/Prelude.thy ===== *)
theory Prelude
  imports Main "HOL-Library.Char_ord" "HOL-Library.List_Lexorder"
begin

text \<open>
  Shared vocabulary of the development: Go's error values, Go's maps (nil or not), a
  monad for Go functions (explicit state, an error result, a panic), the loops the code
  uses, Hoare triples over that monad, and a locale for the relations that every step of
  a function keeps.  The collections \<open>go_run\<close> (execution) and \<open>wp\<close> (triple rules) carry
  the proofs of the component theories.
\<close>

named_theorems go_run "equations that execute a Go function on a state"
named_theorems wp "introduction rules for triples"

section \<open>Error values\<close>

text \<open>
  An API server error carries the reason that \<open>apierrors.IsNotFound\<close> and
  \<open>apierrors.IsAlreadyExists\<close> test.  \<open>Wrapf p e\<close> is \<open>fmt.Errorf\<close> with a text \<open>p\<close> and
  \<open>%w\<close> for \<open>e\<close>; the two tests look through such wrappers (\<open>errors.As\<close>).
\<close>

datatype reason = NotFound | AlreadyExists | OtherReason string

datatype goerr =
    StatusErr reason string
  | Errorf string
  | Wrapf string goerr
  | CtxErr string

fun is_not_found :: "goerr \<Rightarrow> bool" where
  "is_not_found (StatusErr r m) = (r = NotFound)"
| "is_not_found (Wrapf p e) = is_not_found e"
| "is_not_found (Errorf m) = False"
| "is_not_found (CtxErr m) = False"

fun is_already_exists :: "goerr \<Rightarrow> bool" where
  "is_already_exists (StatusErr r m) = (r = AlreadyExists)"
| "is_already_exists (Wrapf p e) = is_already_exists e"
| "is_already_exists (Errorf m) = False"
| "is_already_exists (CtxErr m) = False"

fun err_text :: "goerr \<Rightarrow> string" where
  "err_text (StatusErr r m) = m"
| "err_text (Errorf m) = m"
| "err_text (Wrapf p e) = p @ '': '' @ err_text e"
| "err_text (CtxErr m) = m"

section \<open>Outcomes and the Go monad\<close>

text \<open>
  A Go function works on a state \<open>'s\<close> and ends with a value, an error (the usual
  \<open>return err\<close>, which callers propagate) or a panic (which they cannot intercept).
  The state survives in all three cases: what was written before an error stays written.
\<close>

datatype 'a out = Ok 'a | Err goerr | Panic string

type_synonym ('s, 'a) go = "'s \<Rightarrow> 'a out \<times> 's"

definition gret :: "'a \<Rightarrow> ('s, 'a) go" where
  "gret x = (\<lambda>s. (Ok x, s))"

definition gthrow :: "goerr \<Rightarrow> ('s, 'a) go" where
  "gthrow e = (\<lambda>s. (Err e, s))"

definition gpanic :: "string \<Rightarrow> ('s, 'a) go" where
  "gpanic p = (\<lambda>s. (Panic p, s))"

definition gbind :: "('s, 'a) go \<Rightarrow> ('a \<Rightarrow> ('s, 'b) go) \<Rightarrow> ('s, 'b) go" where
  "gbind m f = (\<lambda>s. case m s of
      (Ok x, t) \<Rightarrow> f x t
    | (Err e, t) \<Rightarrow> (Err e, t)
    | (Panic p, t) \<Rightarrow> (Panic p, t))"

definition attempt :: "('s, 'a) go \<Rightarrow> ('s, goerr + 'a) go" where
  "attempt m = (\<lambda>s. case m s of
      (Ok x, t) \<Rightarrow> (Ok (Inr x), t)
    | (Err e, t) \<Rightarrow> (Ok (Inl e), t)
    | (Panic p, t) \<Rightarrow> (Panic p, t))"

definition lift_out :: "'a out \<Rightarrow> ('s, 'a) go" where
  "lift_out r = (\<lambda>s. (r, s))"

definition lift_sum :: "goerr + 'a \<Rightarrow> ('s, 'a) go" where
  "lift_sum r = (case r of Inl e \<Rightarrow> gthrow e | Inr x \<Rightarrow> gret x)"

definition gets :: "('s \<Rightarrow> 'a) \<Rightarrow> ('s, 'a) go" where
  "gets f = (\<lambda>s. (Ok (f s), s))"

definition modify :: "('s \<Rightarrow> 's) \<Rightarrow> ('s, unit) go" where
  "modify f = (\<lambda>s. (Ok (), f s))"

definition gwhen :: "bool \<Rightarrow> ('s, unit) go \<Rightarrow> ('s, unit) go" where
  "gwhen b m = (if b then m else gret ())"

text \<open>\<open>if err := m; err != nil { return fmt.Errorf("p: %w", err) }\<close>.\<close>

definition wrap_err :: "string \<Rightarrow> ('s, 'a) go \<Rightarrow> ('s, 'a) go" where
  "wrap_err p m = gbind (attempt m) (\<lambda>res. case res of Inl e \<Rightarrow> gthrow (Wrapf p e) | Inr x \<Rightarrow> gret x)"

text \<open>Sequencing of pure computations that may panic.\<close>

definition obind :: "'a out \<Rightarrow> ('a \<Rightarrow> 'b out) \<Rightarrow> 'b out" where
  "obind r f = (case r of Ok x \<Rightarrow> f x | Err e \<Rightarrow> Err e | Panic p \<Rightarrow> Panic p)"

lemma obind_simps [simp]:
  "obind (Ok x) f = f x"
  "obind (Err e) f = Err e"
  "obind (Panic p) f = Panic p"
  by (simp_all add: obind_def)

text \<open>An assignment through an index, which must be in range.\<close>

definition update_at :: "nat \<Rightarrow> ('a \<Rightarrow> 'a) \<Rightarrow> 'a list \<Rightarrow> 'a list out" where
  "update_at i f xs = (if i < length xs then Ok (xs[i := f (xs ! i)]) else Panic ''index out of range'')"

text \<open>A \<open>range\<close> loop whose body carries local variables, and one that carries none.\<close>

fun fold_go :: "('x \<Rightarrow> 'v \<Rightarrow> ('s, 'v) go) \<Rightarrow> 'x list \<Rightarrow> 'v \<Rightarrow> ('s, 'v) go" where
  "fold_go body [] v = gret v"
| "fold_go body (x # xs) v = gbind (body x v) (fold_go body xs)"

fun for_each :: "('x \<Rightarrow> ('s, unit) go) \<Rightarrow> 'x list \<Rightarrow> ('s, unit) go" where
  "for_each body [] = gret ()"
| "for_each body (x # xs) = gbind (body x) (\<lambda>_. for_each body xs)"

lemma gret_apply [go_run]: "gret x s = (Ok x, s)"
  by (simp add: gret_def)

lemma gthrow_apply [go_run]: "gthrow e s = (Err e, s)"
  by (simp add: gthrow_def)

lemma gpanic_apply [go_run]: "gpanic p s = (Panic p, s)"
  by (simp add: gpanic_def)

lemma gets_apply [go_run]: "gets f s = (Ok (f s), s)"
  by (simp add: gets_def)

lemma modify_apply [go_run]: "modify f s = (Ok (), f s)"
  by (simp add: modify_def)

lemma lift_out_apply [go_run]: "lift_out r s = (r, s)"
  by (simp add: lift_out_def)

lemma lift_sum_simps [simp, go_run]:
  "lift_sum (Inl e) = gthrow e"
  "lift_sum (Inr x) = gret x"
  by (simp_all add: lift_sum_def)

lemma gbind_apply [go_run]:
  "gbind m f s = (case m s of
      (Ok x, t) \<Rightarrow> f x t | (Err e, t) \<Rightarrow> (Err e, t) | (Panic p, t) \<Rightarrow> (Panic p, t))"
  by (simp add: gbind_def)

lemma attempt_apply [go_run]:
  "attempt m s = (case m s of
      (Ok x, t) \<Rightarrow> (Ok (Inr x), t) | (Err e, t) \<Rightarrow> (Ok (Inl e), t) | (Panic p, t) \<Rightarrow> (Panic p, t))"
  by (simp add: attempt_def)

lemma gwhen_simps [simp, go_run]: "gwhen True m = m" "gwhen False m = gret ()"
  by (simp_all add: gwhen_def)

lemma gbind_gret [simp]: "gbind (gret x) f = f x"
  by (rule ext) (simp add: gbind_apply gret_apply gthrow_apply)

lemma gbind_gthrow [simp]: "gbind (gthrow e) f = gthrow e"
  by (rule ext) (simp add: gbind_apply gret_apply gthrow_apply)

lemma gbind_assoc: "gbind (gbind m f) g = gbind m (\<lambda>x. gbind (f x) g)"
  by (rule ext) (simp add: gbind_apply split: out.splits prod.splits)

lemma gbind_OkE:
  assumes "gbind m f s = (Ok x, t)"
  obtains y u where "m s = (Ok y, u)" and "f y u = (Ok x, t)"
  using assms by (auto simp: gbind_apply split: prod.splits out.splits)

lemma for_each_append: "for_each body (xs @ ys) = gbind (for_each body xs) (\<lambda>_. for_each body ys)"
  by (induction xs) (simp_all add: gbind_assoc)

section \<open>Triples\<close>

text \<open>
  \<open>triple P m Q E\<close>: started where \<open>P\<close> holds, \<open>m\<close> does not panic, a value \<open>x\<close> ends in a
  state with \<open>Q x\<close> and an error \<open>e\<close> in one with \<open>E e\<close>.
\<close>

definition triple ::
  "('s \<Rightarrow> bool) \<Rightarrow> ('s, 'a) go \<Rightarrow> ('a \<Rightarrow> 's \<Rightarrow> bool) \<Rightarrow> (goerr \<Rightarrow> 's \<Rightarrow> bool) \<Rightarrow> bool" where
  "triple P m Q E \<longleftrightarrow>
     (\<forall>s. P s \<longrightarrow> (case m s of (Ok x, t) \<Rightarrow> Q x t | (Err e, t) \<Rightarrow> E e t | (Panic p, t) \<Rightarrow> False))"

lemma tripleI:
  assumes "\<And>s. P s \<Longrightarrow> (case m s of (Ok x, t) \<Rightarrow> Q x t | (Err e, t) \<Rightarrow> E e t | (Panic p, t) \<Rightarrow> False)"
  shows "triple P m Q E"
  using assms by (simp add: triple_def)

lemma triple_okD: "triple P m Q E \<Longrightarrow> P s \<Longrightarrow> m s = (Ok x, t) \<Longrightarrow> Q x t"
  by (auto simp: triple_def split: prod.splits)

lemma triple_errD: "triple P m Q E \<Longrightarrow> P s \<Longrightarrow> m s = (Err e, t) \<Longrightarrow> E e t"
  by (auto simp: triple_def split: prod.splits)

lemma triple_no_panic: "triple P m Q E \<Longrightarrow> P s \<Longrightarrow> m s \<noteq> (Panic p, t)"
  by (auto simp: triple_def split: prod.splits)

lemma triple_weaken:
  assumes "triple P m Q E" and "\<And>s. P' s \<Longrightarrow> P s"
    and "\<And>x s. Q x s \<Longrightarrow> Q' x s" and "\<And>e s. E e s \<Longrightarrow> E' e s"
  shows "triple P' m Q' E'"
  using assms by (fastforce simp: triple_def split: prod.splits out.splits)

lemma triple_pre: "triple P m Q E \<Longrightarrow> (\<And>s. P' s \<Longrightarrow> P s) \<Longrightarrow> triple P' m Q E"
  by (rule triple_weaken)

lemma triple_post:
  "triple P m Q E \<Longrightarrow> (\<And>x s. Q x s \<Longrightarrow> Q' x s) \<Longrightarrow> (\<And>e s. E e s \<Longrightarrow> E' e s) \<Longrightarrow> triple P m Q' E'"
  by (rule triple_weaken)

lemma triple_conj:
  assumes "triple P m Q E" and "triple P' m Q' E'"
  shows "triple (\<lambda>s. P s \<and> P' s) m (\<lambda>x s. Q x s \<and> Q' x s) (\<lambda>e s. E e s \<and> E' e s)"
  using assms by (fastforce simp: triple_def split: prod.splits out.splits)

lemma triple_assume: "(B \<Longrightarrow> triple P m Q E) \<Longrightarrow> triple (\<lambda>s. B \<and> P s) m Q E"
  by (auto simp: triple_def)

lemma triple_given: "(B \<Longrightarrow> triple (\<lambda>_. True) m Q E) \<Longrightarrow> triple (\<lambda>_. B) m Q E"
  by (auto simp: triple_def)

text \<open>A value of the starting state may be named.\<close>

lemma triple_param: "(\<And>g. triple (\<lambda>s. P s \<and> G s = g) m Q E) \<Longrightarrow> triple P m Q E"
  by (simp add: triple_def)

lemma triple_gret [wp]: "(\<And>s. P s \<Longrightarrow> Q x s) \<Longrightarrow> triple P (gret x) Q E"
  by (simp add: triple_def gret_apply)

lemma triple_gthrow [wp]: "(\<And>s. P s \<Longrightarrow> E e s) \<Longrightarrow> triple P (gthrow e) Q E"
  by (simp add: triple_def gthrow_apply)

lemma triple_gets [wp]: "(\<And>s. P s \<Longrightarrow> Q (f s) s) \<Longrightarrow> triple P (gets f) Q E"
  by (simp add: triple_def gets_apply)

lemma triple_gets_sp: "triple P (gets f) (\<lambda>x s. P s \<and> x = f s) E"
  by (simp add: triple_def gets_apply)

lemma triple_gets_value:
  "(\<And>s. P s \<Longrightarrow> f s = c) \<Longrightarrow> triple P (g c) Q E \<Longrightarrow> triple P (gbind (gets f) g) Q E"
  by (simp add: triple_def gbind_apply gets_apply)

lemma triple_true: "triple P m Q E \<Longrightarrow> triple P m Q (\<lambda>_ _. True)"
  by (erule triple_weaken) simp_all

lemma triple_modify [wp]: "(\<And>s. P s \<Longrightarrow> Q () (f s)) \<Longrightarrow> triple P (modify f) Q E"
  by (simp add: triple_def modify_apply)

lemma triple_gbind:
  assumes "triple P m R E" and "\<And>x. triple (R x) (f x) Q E"
  shows "triple P (gbind m f) Q E"
  using assms by (fastforce simp: triple_def gbind_apply split: prod.splits out.splits)

lemma triple_seq:
  "triple P m R E' \<Longrightarrow> (\<And>e s. E' e s \<Longrightarrow> E e s) \<Longrightarrow> (\<And>x. triple (R x) (f x) Q E) \<Longrightarrow>
    triple P (gbind m f) Q E"
  by (rule triple_gbind [OF triple_post [where Q' = R]]) assumption+

lemma triple_attempt:
  "triple P m (\<lambda>x. Q (Inr x)) (\<lambda>e. Q (Inl e)) \<Longrightarrow> triple P (attempt m) Q E"
  by (fastforce simp: triple_def attempt_apply split: prod.splits out.splits)

lemma triple_wrap_err:
  "triple P m Q (\<lambda>e. E (Wrapf p e)) \<Longrightarrow> triple P (wrap_err p m) Q E"
  by (fastforce simp: triple_def wrap_err_def attempt_apply gbind_apply gret_apply gthrow_apply
      split: prod.splits out.splits)

lemma triple_lift_out: "(\<And>s. P s \<Longrightarrow> case r of Ok x \<Rightarrow> Q x s | Err e \<Rightarrow> E e s | Panic p \<Rightarrow> False) \<Longrightarrow>
    triple P (lift_out r) Q E"
  by (auto simp: triple_def lift_out_apply split: out.splits)

lemma triple_if:
  "(b \<Longrightarrow> triple P m Q E) \<Longrightarrow> (\<not> b \<Longrightarrow> triple P n Q E) \<Longrightarrow> triple P (if b then m else n) Q E"
  by simp

lemma triple_fold:
  assumes "\<And>ys x zs v. xs = ys @ x # zs \<Longrightarrow> triple (I ys v) (body x v) (I (ys @ [x])) E"
  shows "triple (I [] v) (fold_go body xs v) (I xs) E"
proof -
  have "triple (I us v) (fold_go body ws v) (I xs) E" if "xs = us @ ws" for us ws v
    using that
  proof (induction ws arbitrary: us v)
    case (Cons w ws)
    have "triple (I us v) (body w v) (I (us @ [w])) E"
      using Cons.prems by (intro assms) simp
    moreover have "triple (I (us @ [w]) v') (fold_go body ws v') (I xs) E" for v'
      using Cons.prems by (intro Cons.IH) simp
    ultimately show ?case by (simp add: triple_gbind)
  qed (simp add: triple_gret)
  from this [of "[]" xs] show ?thesis by simp
qed

lemma triple_for_each:
  assumes "\<And>ys x zs. xs = ys @ x # zs \<Longrightarrow> triple (I ys) (body x) (\<lambda>_. I (ys @ [x])) E"
  shows "triple (I []) (for_each body xs) (\<lambda>_. I xs) E"
proof -
  have "triple (I us) (for_each body ws) (\<lambda>_. I xs) E" if "xs = us @ ws" for us ws
    using that
  proof (induction ws arbitrary: us)
    case (Cons w ws)
    have "triple (I us) (body w) (\<lambda>_. I (us @ [w])) E"
      using Cons.prems by (intro assms) simp
    moreover have "triple (I (us @ [w])) (for_each body ws) (\<lambda>_. I xs) E"
      using Cons.prems by (intro Cons.IH) simp
    ultimately show ?case by (auto intro: triple_gbind)
  qed (simp add: triple_gret)
  from this [of "[]" xs] show ?thesis by simp
qed

section \<open>Functions that never panic\<close>

definition calm :: "('s, 'a) go \<Rightarrow> bool" where
  "calm m \<longleftrightarrow> (\<forall>s p t. m s \<noteq> (Panic p, t))"

lemma calm_basic:
  "calm (gret x)" "calm (gthrow e)" "calm (gets f)" "calm (modify g)" "calm (lift_sum r)"
  by (simp_all add: calm_def gret_apply gthrow_apply gets_apply modify_apply lift_sum_def split: sum.split)

lemma calm_lift_out: "(\<And>p. r \<noteq> Panic p) \<Longrightarrow> calm (lift_out r)"
  by (simp add: calm_def lift_out_apply)

lemma calm_gbind: "calm m \<Longrightarrow> (\<And>x. calm (f x)) \<Longrightarrow> calm (gbind m f)"
  unfolding calm_def gbind_apply by (auto split: prod.splits out.splits)

lemma calm_attempt: "calm m \<Longrightarrow> calm (attempt m)"
  unfolding calm_def attempt_apply by (auto split: prod.splits out.splits)

lemma calm_wrap_err: "calm m \<Longrightarrow> calm (wrap_err p m)"
  unfolding wrap_err_def by (rule calm_gbind [OF calm_attempt]) (auto intro: calm_basic split: sum.split)

lemma calm_if: "(b \<Longrightarrow> calm m) \<Longrightarrow> (\<not> b \<Longrightarrow> calm n) \<Longrightarrow> calm (if b then m else n)"
  by simp

lemma calm_gwhen: "(b \<Longrightarrow> calm m) \<Longrightarrow> calm (gwhen b m)"
  by (simp add: gwhen_def calm_basic)

lemma calm_case_sum: "(\<And>e. calm (f e)) \<Longrightarrow> (\<And>x. calm (g x)) \<Longrightarrow> calm (case r of Inl e \<Rightarrow> f e | Inr x \<Rightarrow> g x)"
  by (cases r) simp_all

lemma calm_case_option: "calm m \<Longrightarrow> (\<And>x. calm (g x)) \<Longrightarrow> calm (case r of None \<Rightarrow> m | Some x \<Rightarrow> g x)"
  by (cases r) simp_all

lemma calm_case_prod: "(\<And>x y. calm (f x y)) \<Longrightarrow> calm (case p of (x, y) \<Rightarrow> f x y)"
  by (cases p) simp

lemma calm_for_each: "(\<And>x. calm (body x)) \<Longrightarrow> calm (for_each body xs)"
  by (induction xs) (simp_all add: calm_basic calm_gbind)

lemmas calm_rules = calm_basic calm_gbind calm_attempt calm_wrap_err calm_if calm_gwhen calm_case_sum
  calm_case_option calm_case_prod calm_for_each

section \<open>Relations that every step keeps\<close>

text \<open>
  \<open>keeps R m\<close>: however \<open>m\<close> ends, the state it leaves is related by \<open>R\<close> to the one it
  started in.  For a reflexive and transitive \<open>R\<close> the relation passes through every
  construct; the locale proves that once, and each frame of the model (the object is
  untouched, only some kinds of API calls are made, ...) interprets it.
\<close>

definition keeps :: "('s \<Rightarrow> 's \<Rightarrow> bool) \<Rightarrow> ('s, 'a) go \<Rightarrow> bool" where
  "keeps R m \<longleftrightarrow> (\<forall>s. R s (snd (m s)))"

lemma keepsD: "keeps R m \<Longrightarrow> m s = (r, t) \<Longrightarrow> R s t"
  unfolding keeps_def by (metis snd_conv)

lemma keeps_weaken: "keeps R m \<Longrightarrow> (\<And>s t. R s t \<Longrightarrow> R' s t) \<Longrightarrow> keeps R' m"
  by (simp add: keeps_def)

lemma keeps_conj: "keeps R m \<Longrightarrow> keeps R' m \<Longrightarrow> keeps (\<lambda>s t. R s t \<and> R' s t) m"
  by (simp add: keeps_def)

locale frame =
  fixes R :: "'s \<Rightarrow> 's \<Rightarrow> bool"
  assumes R_refl: "R s s"
    and R_trans: "R s t \<Longrightarrow> R t u \<Longrightarrow> R s u"
begin

lemma gret: "keeps R (gret x)"
  by (simp add: keeps_def gret_apply R_refl)

lemma gthrow: "keeps R (gthrow e)"
  by (simp add: keeps_def gthrow_apply R_refl)

lemma gpanic: "keeps R (gpanic p)"
  by (simp add: keeps_def gpanic_apply R_refl)

lemma gets: "keeps R (gets f)"
  by (simp add: keeps_def gets_apply R_refl)

lemma lift_out: "keeps R (lift_out r)"
  by (simp add: keeps_def lift_out_apply R_refl)

lemma lift_sum: "keeps R (lift_sum r)"
  by (cases r) (simp_all add: gret gthrow)

lemma gbind:
  assumes "keeps R m" and "\<And>x. keeps R (f x)"
  shows "keeps R (gbind m f)"
  unfolding keeps_def
proof
  fix s
  obtain r t where m: "m s = (r, t)" by force
  then have st: "R s t" using assms(1) by (rule keepsD [rotated])
  show "R s (snd (Prelude.gbind m f s))"
  proof (cases r)
    case (Ok x)
    have "R t (snd (f x t))" using assms(2) by (simp add: keeps_def)
    with st have "R s (snd (f x t))" by (rule R_trans)
    with m Ok show ?thesis by (simp add: gbind_apply)
  qed (use m st in \<open>simp_all add: gbind_apply\<close>)
qed

lemma attempt:
  assumes "keeps R m"
  shows "keeps R (attempt m)"
  unfolding keeps_def
proof
  fix s
  obtain r t where m: "m s = (r, t)" by force
  then have "R s t" using assms by (rule keepsD [rotated])
  with m show "R s (snd (Prelude.attempt m s))"
    by (cases r) (simp_all add: attempt_apply)
qed

lemma if_: "(b \<Longrightarrow> keeps R m) \<Longrightarrow> (\<not> b \<Longrightarrow> keeps R n) \<Longrightarrow> keeps R (if b then m else n)"
  by simp

lemma gwhen: "(b \<Longrightarrow> keeps R m) \<Longrightarrow> keeps R (gwhen b m)"
  by (simp add: gwhen_def gret)

lemma case_sum: "(\<And>e. r = Inl e \<Longrightarrow> keeps R (f e)) \<Longrightarrow> (\<And>x. r = Inr x \<Longrightarrow> keeps R (g x)) \<Longrightarrow>
    keeps R (case r of Inl e \<Rightarrow> f e | Inr x \<Rightarrow> g x)"
  by (cases r) simp_all

lemma case_option: "(r = None \<Longrightarrow> keeps R m) \<Longrightarrow> (\<And>x. r = Some x \<Longrightarrow> keeps R (g x)) \<Longrightarrow>
    keeps R (case r of None \<Rightarrow> m | Some x \<Rightarrow> g x)"
  by (cases r) simp_all

lemma wrap_err: "keeps R m \<Longrightarrow> keeps R (wrap_err p m)"
  unfolding wrap_err_def by (intro gbind attempt case_sum gthrow gret)

lemma case_prod: "(\<And>x y. keeps R (f x y)) \<Longrightarrow> keeps R (case p of (x, y) \<Rightarrow> f x y)"
  by (cases p) simp

lemma fold_go: "(\<And>x v. x \<in> set xs \<Longrightarrow> keeps R (body x v)) \<Longrightarrow> keeps R (fold_go body xs v)"
  by (induction xs arbitrary: v) (simp_all add: gret gbind)

lemma for_each: "(\<And>x. x \<in> set xs \<Longrightarrow> keeps R (body x)) \<Longrightarrow> keeps R (for_each body xs)"
  by (induction xs) (simp_all add: gret gbind)

lemmas rules = gret gthrow gpanic gets lift_out lift_sum gbind attempt wrap_err if_ gwhen
  case_sum case_option case_prod fold_go for_each

end

section \<open>Maps that may be nil\<close>

text \<open>
  A Go map is nil or an association list in which the first binding of a key counts.
  Reading a nil map finds nothing; writing to one panics.
\<close>

type_synonym 'v gomap = "(string \<times> 'v) list option"

definition make_map :: "'v gomap" where
  "make_map = Some []"

definition gm_get :: "'v gomap \<Rightarrow> string \<Rightarrow> 'v option" where
  "gm_get m k = (case m of None \<Rightarrow> None | Some al \<Rightarrow> map_of al k)"

definition gm_set :: "'v gomap \<Rightarrow> string \<Rightarrow> 'v \<Rightarrow> 'v gomap out" where
  "gm_set m k v = (case m of
      None \<Rightarrow> Panic ''assignment to entry in nil map''
    | Some al \<Rightarrow> Ok (Some ((k, v) # filter (\<lambda>b. fst b \<noteq> k) al)))"

definition gm_keys :: "'v gomap \<Rightarrow> string list" where
  "gm_keys m = (case m of None \<Rightarrow> [] | Some al \<Rightarrow> remdups (map fst al))"

definition gm_equiv :: "'v gomap \<Rightarrow> 'v gomap \<Rightarrow> bool" where
  "gm_equiv m m' \<longleftrightarrow> list_all (\<lambda>k. gm_get m k = gm_get m' k) (gm_keys m @ gm_keys m')"

lemma map_of_filter_neq: "map_of (filter (\<lambda>b. fst b \<noteq> k) al) x = (if x = k then None else map_of al x)"
  by (induction al) auto

lemma gm_get_None [simp]: "gm_get None k = None"
  by (simp add: gm_get_def)

lemma gm_get_Some [simp]: "gm_get (Some al) k = map_of al k"
  by (simp add: gm_get_def)

lemma gm_get_make [simp]: "gm_get make_map k = None"
  by (simp add: make_map_def)

lemma gm_set_Some [simp]: "gm_set (Some al) k v = Ok (Some ((k, v) # filter (\<lambda>b. fst b \<noteq> k) al))"
  by (simp add: gm_set_def)

lemma gm_get_set:
  "gm_set m k v = Ok m' \<Longrightarrow> gm_get m' x = (if x = k then Some v else gm_get m x)"
  by (auto simp: gm_set_def map_of_filter_neq split: option.splits)

lemma set_gm_keys: "set (gm_keys m) = {k. gm_get m k \<noteq> None}"
proof (cases m)
  case (Some al)
  then show ?thesis
    using map_of_eq_None_iff [of al] by (auto simp: gm_keys_def simp del: not_None_eq)
qed (simp add: gm_keys_def)

lemma distinct_gm_keys [simp]: "distinct (gm_keys m)"
  by (simp add: gm_keys_def split: option.splits)

lemma gm_equiv_iff: "gm_equiv m m' \<longleftrightarrow> (\<forall>k. gm_get m k = gm_get m' k)"
proof
  assume eq: "gm_equiv m m'"
  show "\<forall>k. gm_get m k = gm_get m' k"
  proof
    fix k
    show "gm_get m k = gm_get m' k"
    proof (cases "k \<in> set (gm_keys m @ gm_keys m')")
      case True
      with eq show ?thesis by (auto simp: gm_equiv_def list_all_iff)
    next
      case False
      then show ?thesis by (simp add: set_gm_keys)
    qed
  qed
qed (simp add: gm_equiv_def list_all_iff)

lemma gm_equiv_refl [simp]: "gm_equiv m m"
  by (simp add: gm_equiv_iff)

section \<open>Strings\<close>

text \<open>
  Go strings are byte strings, ordered byte by byte.  \<open>slice_to n s\<close> is \<open>s[:n]\<close>, which
  panics when \<open>n\<close> is past the end; \<open>trim_right c s\<close> is \<open>strings.TrimRight\<close> with the
  one-character cutset \<open>c\<close>.
\<close>

definition slice_to :: "nat \<Rightarrow> string \<Rightarrow> string out" where
  "slice_to n s = (if n \<le> length s then Ok (take n s) else Panic ''slice bounds out of range'')"

definition trim_right :: "char \<Rightarrow> string \<Rightarrow> string" where
  "trim_right c s = rev (dropWhile (\<lambda>x. x = c) (rev s))"

definition has_prefix :: "string \<Rightarrow> string \<Rightarrow> bool" where
  "has_prefix s p \<longleftrightarrow> take (length p) s = p"

definition has_suffix :: "string \<Rightarrow> string \<Rightarrow> bool" where
  "has_suffix s p \<longleftrightarrow> length p \<le> length s \<and> drop (length s - length p) s = p"

definition trim_prefix :: "string \<Rightarrow> string \<Rightarrow> string" where
  "trim_prefix s p = (if has_prefix s p then drop (length p) s else s)"

lemma slice_to_Ok [simp]: "n \<le> length s \<Longrightarrow> slice_to n s = Ok (take n s)"
  by (simp add: slice_to_def)

lemma length_trim_right_le [simp]: "length (trim_right c s) \<le> length s"
  unfolding trim_right_def by (metis length_dropWhile_le length_rev)

lemma trim_right_prefix: "\<exists>n. s = trim_right c s @ replicate n c"
proof -
  have "rev s = takeWhile (\<lambda>x. x = c) (rev s) @ dropWhile (\<lambda>x. x = c) (rev s)"
    by simp
  then have "s = trim_right c s @ rev (takeWhile (\<lambda>x. x = c) (rev s))"
    unfolding trim_right_def by (metis rev_append rev_rev_ident)
  moreover have "takeWhile (\<lambda>x. x = c) (rev s) = replicate (length (takeWhile (\<lambda>x. x = c) (rev s))) c"
    by (rule replicate_length_same [symmetric]) (auto dest: set_takeWhileD)
  ultimately show ?thesis by (metis rev_replicate)
qed

lemma last_trim_right: "trim_right c s \<noteq> [] \<Longrightarrow> last (trim_right c s) \<noteq> c"
  using hd_dropWhile [of "\<lambda>x. x = c" "rev s"] by (simp add: trim_right_def last_rev)

lemma set_trim_right: "set (trim_right c s) \<subseteq> set s"
  by (auto simp: trim_right_def dest: set_dropWhileD)

lemma trim_right_nonempty: "x \<in> set s \<Longrightarrow> x \<noteq> c \<Longrightarrow> trim_right c s \<noteq> []"
  by (auto simp: trim_right_def)

lemma hd_trim_right: "trim_right c s \<noteq> [] \<Longrightarrow> hd (trim_right c s) = hd s"
  by (metis hd_append2 trim_right_prefix)

lemma has_prefix_iff: "has_prefix s p \<longleftrightarrow> (\<exists>r. s = p @ r)"
  unfolding has_prefix_def by (metis append_eq_conv_conj append_take_drop_id)

lemma trim_prefix_append [simp]: "trim_prefix (p @ r) p = r"
  by (simp add: trim_prefix_def has_prefix_iff)

lemma has_suffix_iff: "has_suffix s p \<longleftrightarrow> (\<exists>r. s = r @ p)"
proof
  assume "has_suffix s p"
  then have "s = take (length s - length p) s @ p"
    unfolding has_suffix_def by (metis append_take_drop_id)
  then show "\<exists>r. s = r @ p" ..
qed (auto simp: has_suffix_def)

end
