(* ===== verification/Goroutines.thy ===== *)
theory Goroutines
  imports Prelude
begin

text \<open>
  Functions that run as goroutines.  A \<open>proc\<close> is a Go function cut into its atomic steps
  (each step one call to the outside), so that several of them can interleave; \<open>prun\<close> runs
  one alone, and \<open>group_run\<close> is what an \<open>errgroup\<close> documents: the functions run
  concurrently in any interleaving, \<open>Wait\<close> returns when all have returned, with the first
  error that occurred.
\<close>

datatype (dead 's, 'a) proc = Fin "'a out" | Atom "'s \<Rightarrow> ('s, 'a) proc \<times> 's"

definition atom :: "('s, 'a) go \<Rightarrow> ('s, 'a) proc" where
  "atom m = Atom (\<lambda>s. case m s of (r, t) \<Rightarrow> (Fin r, t))"

definition pret :: "'a \<Rightarrow> ('s, 'a) proc" where
  "pret x = Fin (Ok x)"

definition pthrow :: "goerr \<Rightarrow> ('s, 'a) proc" where
  "pthrow e = Fin (Err e)"

primrec pbind :: "('s, 'a) proc \<Rightarrow> ('a \<Rightarrow> ('s, 'b) proc) \<Rightarrow> ('s, 'b) proc" where
  "pbind (Fin r) f = (case r of Ok x \<Rightarrow> f x | Err e \<Rightarrow> Fin (Err e) | Panic p \<Rightarrow> Fin (Panic p))"
| "pbind (Atom k) f = Atom (map_prod (\<lambda>p. pbind p f) id \<circ> k)"

definition sum_out :: "'a out \<Rightarrow> (goerr + 'a) out" where
  "sum_out r = (case r of Ok x \<Rightarrow> Ok (Inr x) | Err e \<Rightarrow> Ok (Inl e) | Panic p \<Rightarrow> Panic p)"

primrec pattempt :: "('s, 'a) proc \<Rightarrow> ('s, goerr + 'a) proc" where
  "pattempt (Fin r) = Fin (sum_out r)"
| "pattempt (Atom k) = Atom (map_prod pattempt id \<circ> k)"

definition pwhen :: "bool \<Rightarrow> ('s, unit) proc \<Rightarrow> ('s, unit) proc" where
  "pwhen b p = (if b then p else pret ())"

primrec prun :: "('s, 'a) proc \<Rightarrow> ('s, 'a) go" where
  "prun (Fin r) = (\<lambda>s. (r, s))"
| "prun (Atom k) = (\<lambda>s. case (map_prod prun id \<circ> k) s of (g, t) \<Rightarrow> g t)"

lemma prun_pret [simp]: "prun (pret x) = gret x"
  by (simp add: pret_def gret_def)

lemma prun_pthrow [simp]: "prun (pthrow e) = gthrow e"
  by (simp add: pthrow_def gthrow_def)

lemma prun_atom [simp]: "prun (atom m) = m"
  by (rule ext) (simp add: atom_def split: prod.splits)

lemma prun_pbind [simp]: "prun (pbind p f) = gbind (prun p) (\<lambda>x. prun (f x))"
proof (induction p)
  case (Fin r)
  show ?case by (rule ext) (cases r; simp add: gbind_apply)
next
  case (Atom k)
  show ?case
  proof
    fix s
    obtain p t where k: "k s = (p, t)" by force
    then have "prun (pbind p f) = gbind (prun p) (\<lambda>x. prun (f x))"
      using Atom [of "(p, t)" p] by (metis fsts.intros fst_conv rangeI)
    then show "prun (pbind (Atom k) f) s = gbind (prun (Atom k)) (\<lambda>x. prun (f x)) s"
      by (simp add: k gbind_apply)
  qed
qed

lemma prun_pattempt [simp]: "prun (pattempt p) = attempt (prun p)"
proof (induction p)
  case (Fin r)
  show ?case by (rule ext) (cases r; simp add: attempt_apply sum_out_def)
next
  case (Atom k)
  show ?case
  proof
    fix s
    obtain p t where k: "k s = (p, t)" by force
    then have "prun (pattempt p) = attempt (prun p)"
      using Atom [of "(p, t)" p] by (metis fsts.intros fst_conv rangeI)
    then show "prun (pattempt (Atom k)) s = attempt (prun (Atom k)) s"
      by (simp add: k attempt_apply)
  qed
qed

lemma prun_pwhen [simp]: "prun (pwhen b p) = gwhen b (prun p)"
  by (simp add: pwhen_def gwhen_def)

lemma prun_if [simp]: "prun (if b then p else q) = (if b then prun p else prun q)"
  by simp

section \<open>Relations kept by every atomic step\<close>

inductive pkeeps :: "('s \<Rightarrow> 's \<Rightarrow> bool) \<Rightarrow> ('s, 'a) proc \<Rightarrow> bool" for R where
  Fin: "pkeeps R (Fin r)"
| Atom: "(\<And>s p t. k s = (p, t) \<Longrightarrow> R s t \<and> pkeeps R p) \<Longrightarrow> pkeeps R (Atom k)"

inductive_cases pkeeps_AtomE: "pkeeps R (Atom k)"
inductive_simps pkeeps_Fin [simp]: "pkeeps R (Fin r)"

lemma pkeeps_AtomD: "pkeeps R (Atom k) \<Longrightarrow> k s = (p, t) \<Longrightarrow> R s t \<and> pkeeps R p"
  by (auto elim: pkeeps_AtomE)

lemma pkeeps_atom: "keeps R m \<Longrightarrow> pkeeps R (atom m)"
  unfolding atom_def by (rule pkeeps.Atom) (auto dest: keepsD split: prod.splits)

lemma pkeeps_pret: "pkeeps R (pret x)"
  by (simp add: pret_def)

lemma pkeeps_pthrow: "pkeeps R (pthrow e)"
  by (simp add: pthrow_def)

lemma pkeeps_pbind: "pkeeps R p \<Longrightarrow> (\<And>x. pkeeps R (f x)) \<Longrightarrow> pkeeps R (pbind p f)"
proof (induction rule: pkeeps.induct)
  case (Fin r)
  then show ?case by (cases r) simp_all
next
  case (Atom k)
  show ?case
    unfolding pbind.simps
    by (rule pkeeps.Atom) (use Atom in \<open>auto simp: map_prod_def split: prod.splits\<close>)
qed

lemma pkeeps_pattempt: "pkeeps R p \<Longrightarrow> pkeeps R (pattempt p)"
proof (induction rule: pkeeps.induct)
  case (Atom k)
  show ?case
    unfolding pattempt.simps
    by (rule pkeeps.Atom) (use Atom in \<open>auto simp: map_prod_def split: prod.splits\<close>)
qed simp

lemma pkeeps_pwhen: "(b \<Longrightarrow> pkeeps R p) \<Longrightarrow> pkeeps R (pwhen b p)"
  by (simp add: pwhen_def pkeeps_pret)

lemma pkeeps_if: "(b \<Longrightarrow> pkeeps R p) \<Longrightarrow> (\<not> b \<Longrightarrow> pkeeps R q) \<Longrightarrow> pkeeps R (if b then p else q)"
  by simp

lemma pkeeps_case_sum: "(\<And>e. r = Inl e \<Longrightarrow> pkeeps R (f e)) \<Longrightarrow> (\<And>x. r = Inr x \<Longrightarrow> pkeeps R (g x)) \<Longrightarrow>
    pkeeps R (case r of Inl e \<Rightarrow> f e | Inr x \<Rightarrow> g x)"
  by (cases r) simp_all

lemma pkeeps_case_option: "(r = None \<Longrightarrow> pkeeps R p) \<Longrightarrow> (\<And>x. r = Some x \<Longrightarrow> pkeeps R (g x)) \<Longrightarrow>
    pkeeps R (case r of None \<Rightarrow> p | Some x \<Rightarrow> g x)"
  by (cases r) simp_all

lemma pkeeps_case_prod: "(\<And>x y. pkeeps R (f x y)) \<Longrightarrow> pkeeps R (case p of (x, y) \<Rightarrow> f x y)"
  by (cases p) simp

lemmas pkeeps_rules = pkeeps_pret pkeeps_pthrow pkeeps_pbind pkeeps_pattempt pkeeps_pwhen
  pkeeps_if pkeeps_case_sum pkeeps_case_option pkeeps_case_prod

context frame
begin

lemma prun_keeps: "pkeeps R p \<Longrightarrow> keeps R (prun p)"
proof (induction rule: pkeeps.induct)
  case (Fin r)
  show ?case by (simp add: keeps_def R_refl)
next
  case (Atom k)
  show ?case
    unfolding keeps_def
  proof
    fix s
    obtain p t where k: "k s = (p, t)" by force
    with Atom have "R s t" and "keeps R (prun p)" by blast+
    then have "R s (snd (prun p t))" by (meson R_trans keeps_def)
    with k show "R s (snd (prun (Atom k) s))" by simp
  qed
qed

end

section \<open>Goroutines that never panic\<close>

inductive pcalm :: "('s, 'a) proc \<Rightarrow> bool" where
  Fin: "(\<And>p. r \<noteq> Panic p) \<Longrightarrow> pcalm (Fin r)"
| Atom: "(\<And>s p t. k s = (p, t) \<Longrightarrow> pcalm p) \<Longrightarrow> pcalm (Atom k)"

inductive_cases pcalm_AtomE: "pcalm (Atom k)"
inductive_cases pcalm_FinE: "pcalm (Fin r)"

lemma pcalm_basic: "pcalm (pret x)" "pcalm (pthrow e)"
  by (auto simp: pret_def pthrow_def intro: pcalm.Fin)

lemma pcalm_atom: "calm m \<Longrightarrow> pcalm (atom m)"
  unfolding atom_def calm_def by (rule pcalm.Atom) (auto intro!: pcalm.Fin split: prod.splits)

lemma pcalm_pbind: "pcalm p \<Longrightarrow> (\<And>x. pcalm (f x)) \<Longrightarrow> pcalm (pbind p f)"
proof (induction rule: pcalm.induct)
  case (Fin r)
  then show ?case by (cases r) (auto intro: pcalm.Fin)
next
  case (Atom k)
  show ?case
    unfolding pbind.simps by (rule pcalm.Atom) (use Atom in \<open>auto simp: map_prod_def split: prod.splits\<close>)
qed

lemma pcalm_pattempt: "pcalm p \<Longrightarrow> pcalm (pattempt p)"
proof (induction rule: pcalm.induct)
  case (Fin r)
  then show ?case by (cases r) (auto simp: sum_out_def intro: pcalm.Fin)
next
  case (Atom k)
  show ?case
    unfolding pattempt.simps by (rule pcalm.Atom) (use Atom in \<open>auto simp: map_prod_def split: prod.splits\<close>)
qed

lemma pcalm_pwhen: "(b \<Longrightarrow> pcalm p) \<Longrightarrow> pcalm (pwhen b p)"
  by (simp add: pwhen_def pcalm_basic)

lemma pcalm_if: "(b \<Longrightarrow> pcalm p) \<Longrightarrow> (\<not> b \<Longrightarrow> pcalm q) \<Longrightarrow> pcalm (if b then p else q)"
  by simp

lemma pcalm_case_sum: "(\<And>e. r = Inl e \<Longrightarrow> pcalm (f e)) \<Longrightarrow> (\<And>x. r = Inr x \<Longrightarrow> pcalm (g x)) \<Longrightarrow>
    pcalm (case r of Inl e \<Rightarrow> f e | Inr x \<Rightarrow> g x)"
  by (cases r) simp_all

lemma pcalm_case_option: "pcalm p \<Longrightarrow> (\<And>x. pcalm (g x)) \<Longrightarrow> pcalm (case r of None \<Rightarrow> p | Some x \<Rightarrow> g x)"
  by (cases r) simp_all

lemma pcalm_case_prod: "(\<And>x y. pcalm (f x y)) \<Longrightarrow> pcalm (case p of (x, y) \<Rightarrow> f x y)"
  by (cases p) simp

lemmas pcalm_rules = pcalm_basic pcalm_pbind pcalm_pattempt pcalm_pwhen pcalm_if pcalm_case_sum
  pcalm_case_option pcalm_case_prod

lemma calm_prun: "pcalm p \<Longrightarrow> calm (prun p)"
proof (induction rule: pcalm.induct)
  case (Fin r)
  then show ?case by (simp add: calm_def)
next
  case (Atom k)
  show ?case
    unfolding calm_def
  proof (intro allI)
    fix s p t
    obtain q u where k: "k s = (q, u)" by force
    with Atom have "calm (prun q)" by blast
    with k show "prun (Atom k) s \<noteq> (Panic p, t)" by (simp add: calm_def)
  qed
qed

section \<open>errgroup\<close>

text \<open>
  \<open>group_run ps first s r t\<close>: with the goroutines \<open>ps\<close> still to finish and \<open>first\<close> the
  first error so far, the group started in \<open>s\<close> ends with \<open>r\<close> in \<open>t\<close>.  A goroutine returns
  its result slot and its error; a panic of one ends the group.  The group starts with the
  errors of those that have nothing to do, \<open>foldl note_error None ps\<close>.
\<close>

definition note_error :: "goerr option \<Rightarrow> ('s, 'a \<times> goerr option) proc \<Rightarrow> goerr option" where
  "note_error first p = (case (first, p) of
      (None, Fin (Ok (x, Some e))) \<Rightarrow> Some e
    | (None, Fin (Err e)) \<Rightarrow> Some e
    | _ \<Rightarrow> first)"

text \<open>A function that returns an error may have left its slot as it was.\<close>

definition fills :: "('a \<times> goerr option) out \<Rightarrow> 'a \<Rightarrow> bool" where
  "fills r x \<longleftrightarrow> (case r of Ok (y, d) \<Rightarrow> x = y | Err e \<Rightarrow> True | Panic m \<Rightarrow> False)"

inductive group_run ::
  "('s, 'a \<times> goerr option) proc list \<Rightarrow> goerr option \<Rightarrow> 's \<Rightarrow> ('a list \<times> goerr option) out \<Rightarrow> 's \<Rightarrow> bool"
where
  step: "i < length ps \<Longrightarrow> ps ! i = Atom k \<Longrightarrow> k s = (p, t) \<Longrightarrow>
    group_run (ps[i := p]) (note_error first p) t r u \<Longrightarrow> group_run ps first s r u"
| finish: "ps = map Fin rs \<Longrightarrow> list_all2 fills rs xs \<Longrightarrow> group_run ps first s (Ok (xs, first)) s"
| crash: "Fin (Panic m) \<in> set ps \<Longrightarrow> group_run ps first s (Panic m) s"

context frame
begin

lemma group_run_keeps: "group_run ps first s r t \<Longrightarrow> (\<forall>p \<in> set ps. pkeeps R p) \<Longrightarrow> R s t"
proof (induction rule: group_run.induct)
  case (step i ps k s p t first r u)
  from step.hyps(1,2) step.prems have "pkeeps R (Atom k)" by (metis nth_mem)
  with step.hyps(3) have st: "R s t" and p: "pkeeps R p" by (auto dest: pkeeps_AtomD)
  from step.prems p have "\<forall>q \<in> set (ps[i := p]). pkeeps R q"
    using set_update_subset_insert by fastforce
  with step.IH have "R t u" by blast
  with st show ?case by (rule R_trans)
qed (simp_all add: R_refl)

end

lemma group_run_length:
  "group_run ps first s r t \<Longrightarrow> r = Ok (xs, e) \<Longrightarrow> length xs = length ps"
  by (induction arbitrary: xs e rule: group_run.induct) (auto dest: list_all2_lengthD)

lemma group_run_calm:
  "group_run ps first s r t \<Longrightarrow> (\<forall>p \<in> set ps. pcalm p) \<Longrightarrow> r \<noteq> Panic m"
proof (induction rule: group_run.induct)
  case (step i ps k s p t first r u)
  from step.hyps(1,2) step.prems have "pcalm (Atom k)" by (metis nth_mem)
  with step.hyps(3) have "pcalm p" by (auto elim: pcalm_AtomE)
  with step.prems have "\<forall>q \<in> set (ps[i := p]). pcalm q"
    using set_update_subset_insert by fastforce
  with step.IH show ?case by blast
qed (auto elim: pcalm_FinE)

section \<open>What a goroutine can end with\<close>

text \<open>\<open>pends Q p\<close>: however the steps of \<open>p\<close> are answered, it ends with a result in \<open>Q\<close>.\<close>

inductive pends :: "('a out \<Rightarrow> bool) \<Rightarrow> ('s, 'a) proc \<Rightarrow> bool" for Q where
  Fin: "Q r \<Longrightarrow> pends Q (Fin r)"
| Atom: "(\<And>s p t. k s = (p, t) \<Longrightarrow> pends Q p) \<Longrightarrow> pends Q (Atom k)"

inductive_cases pends_AtomE: "pends Q (Atom k)"
inductive_simps pends_Fin [simp]: "pends Q (Fin r)"

lemma pends_pret: "Q (Ok x) \<Longrightarrow> pends Q (pret x)"
  by (simp add: pret_def)

lemma pends_mono: "pends Q p \<Longrightarrow> (\<And>r. Q r \<Longrightarrow> R r) \<Longrightarrow> pends R p"
  by (induction rule: pends.induct) (auto intro: pends.intros)

lemma pcalm_pends: "pcalm p \<Longrightarrow> pends (\<lambda>r. \<forall>m. r \<noteq> Panic m) p"
  by (induction rule: pcalm.induct) (auto intro: pends.intros)

lemma pends_pbind:
  assumes "pends R p" and "\<And>x. R (Ok x) \<Longrightarrow> pends Q (f x)" and "\<And>e. R (Err e) \<Longrightarrow> Q (Err e)"
    and "\<And>m. R (Panic m) \<Longrightarrow> Q (Panic m)"
  shows "pends Q (pbind p f)"
  using assms(1)
proof (induction rule: pends.induct)
  case (Fin r)
  then show ?case using assms(2-4) by (cases r) auto
next
  case (Atom k)
  show ?case
    unfolding pbind.simps by (rule pends.Atom) (use Atom in \<open>auto simp: map_prod_def split: prod.splits\<close>)
qed

lemma pends_pattempt: "pends (\<lambda>r. Q (sum_out r)) p \<Longrightarrow> pends Q (pattempt p)"
proof (induction rule: pends.induct)
  case (Atom k)
  show ?case
    unfolding pattempt.simps by (rule pends.Atom) (use Atom in \<open>auto simp: map_prod_def split: prod.splits\<close>)
qed simp

text \<open>A caught call that cannot panic ends with a value, of which nothing is known.\<close>

lemma pends_caught:
  assumes "pcalm p" and "\<And>x. pends Q (f x)"
  shows "pends Q (pbind (pattempt p) f)"
  by (rule pends_pbind [OF pends_pattempt [OF pends_mono [OF pcalm_pends [OF assms(1)],
        where R = "\<lambda>r. case sum_out r of Ok _ \<Rightarrow> True | _ \<Rightarrow> False"]]])
    (auto simp: assms(2) sum_out_def split: out.splits)

lemma pends_prun: "pends Q p \<Longrightarrow> Q (fst (prun p s))"
proof (induction arbitrary: s rule: pends.induct)
  case (Atom k)
  obtain p t where "k s = (p, t)" by force
  with Atom show ?case by simp
qed simp

text \<open>No goroutine has returned an error so far.\<close>

fun failed_with :: "('s, 'a \<times> goerr option) proc \<Rightarrow> goerr option" where
  "failed_with (Fin (Ok (x, d))) = d"
| "failed_with (Fin (Err e)) = Some e"
| "failed_with p = None"

definition no_error_yet :: "('s, 'a \<times> goerr option) proc list \<Rightarrow> bool" where
  "no_error_yet ps \<longleftrightarrow> (\<forall>p \<in> set ps. failed_with p = None)"

lemma note_error_eq: "note_error first p = (if first = None then failed_with p else first)"
  by (auto simp: note_error_def split: option.split proc.split out.split prod.split)

lemma note_errors_None: "foldl note_error first ps = None \<longleftrightarrow> first = None \<and> no_error_yet ps"
  by (induction ps arbitrary: first) (auto simp: no_error_yet_def note_error_eq)

lemma no_error_step: "no_error_yet ps \<Longrightarrow> failed_with p = None \<Longrightarrow> no_error_yet (ps[i := p])"
  using set_update_subset_insert [of ps i p] by (auto simp: no_error_yet_def)

text \<open>
  What a group returns, slot by slot; without an error of the group there is none of a
  member.
\<close>

lemma group_run_results:
  "\<lbrakk>group_run ps first s r t; r = Ok (xs, e); \<And>i. i < length ps \<Longrightarrow> pends (Q i) (ps ! i);
    first = None \<longrightarrow> no_error_yet ps\<rbrakk>
   \<Longrightarrow> \<exists>rs. length rs = length ps \<and> list_all2 fills rs xs \<and> (\<forall>i < length ps. Q i (rs ! i))
     \<and> (e = None \<longrightarrow> (\<forall>i < length ps. rs ! i = Ok (xs ! i, None)))"
proof (induction arbitrary: xs e rule: group_run.induct)
  case (step i ps k s p t first r u)
  have "pends (Q j) (ps[i := p] ! j)" if "j < length (ps[i := p])" for j
    using step.prems(2) [of j] step.hyps(1-3) that by (cases "j = i") (auto elim: pends_AtomE)
  moreover have "note_error first p = None \<longrightarrow> no_error_yet (ps[i := p])"
    using step.prems(3) by (auto simp: note_error_eq intro: no_error_step)
  ultimately show ?case using step.IH [OF step.prems(1)] by simp
next
  case (finish ps rs ys first s)
  then have "Q i (rs ! i)" if "i < length ps" for i using finish.prems(2) [of i] that by simp
  moreover have "rs ! i = Ok (xs ! i, None)" if "first = None" "i < length ps" for i
  proof -
    have "failed_with (ps ! i) = None"
      using finish.prems(3) that by (auto simp: no_error_yet_def)
    moreover have "ps ! i = Fin (rs ! i)" using finish.hyps(1) that(2) by simp
    moreover have "fills (rs ! i) (xs ! i)"
      using finish.hyps finish.prems(1) that(2) by (auto dest: list_all2_nthD)
    ultimately show ?thesis by (cases "rs ! i") (auto simp: fills_def)
  qed
  ultimately show ?case using finish by (intro exI [of _ rs]) auto
qed simp

end
