(* ===== verification/Api_Types.thy ===== *)
theory Api_Types
  imports Prelude
begin

text \<open>
  The custom resource of \<open>api/v1alpha1\<close>: its spec (restore plans, targets, hook settings),
  its status (phases, per-plan and per-target status, hook status) and the constants of
  the string types.  A Go slice is a list (the code never tells a nil slice from an empty
  one), a pointer is an option, a map is a \<open>gomap\<close>.  Replica counts and hook counters
  are \<open>int32\<close> in the code, which only compares and copies them: they are \<open>int\<close> here.
\<close>

text \<open>
  Types of Kubernetes packages, of which the code reads only some fields.  \<open>opaque\<close> stands
  for a part of such an object that the code copies and never looks into.
\<close>

type_synonym opaque = string

record label_selector =
  ls_matchLabels :: "string gomap"
  ls_matchExpressions :: opaque

datatype pod_policy = PolicyUnset | OrderedReadyPodManagement | ParallelPodManagement

section \<open>Hooks (hooks_types.go)\<close>

text \<open>\<open>RestoreEvent\<close> is a string that nothing restricts to the two constants.\<close>

datatype restore_event = PreRestore | PostRestore | OtherEvent string

fun event_text :: "restore_event \<Rightarrow> string" where
  "event_text PreRestore = ''pre-restore''"
| "event_text PostRestore = ''post-restore''"
| "event_text (OtherEvent x) = x"

text \<open>\<open>Policy\<close> is a string; its zero value \<open>\<open>""\<close>\<close> is \<open>RestartPolicyUnset\<close>.\<close>

datatype policy = RestartPolicyUnset | RestartPolicyNever | RestartPolicyOnFailure

record extra_secret_ref =
  es_name :: string
  es_prefix :: string

record node_access_privilege =
  na_nodeSelector :: "label_selector option"

record hook_privileges =
  hp_podExec :: bool
  hp_nodeAccess :: "node_access_privilege option"

record hook_settings =
  hs_args :: "string list"
  hs_command :: "string list"
  hs_event :: restore_event
  hs_extraSecrets :: "extra_secret_ref list"
  hs_image :: string
  hs_mutable :: bool
  hs_privileges :: "hook_privileges option"
  hs_restartPolicy :: policy
  hs_timeout :: "int option"

section \<open>Spec (ebssnapshotrestore_types.go)\<close>

record restore_target =
  rt_name :: string
  rt_type :: string
  rt_replicas :: int
  rt_namespace :: string
  rt_skipRestoringPVCs :: "string list"
  rt_skipWaitScaleDown :: bool
  rt_skipWaitScaleUp :: bool
  rt_pvcStorageClass :: "string option"
  rt_parallelPodManagement :: bool
  rt_claimSelector :: "label_selector option"

record restore_plan =
  rp_clusters :: "restore_target list"
  rp_operators :: "restore_target list"
  rp_hooks :: "hook_settings option gomap"
  rp_snapshotRestoreTime :: string

record restore_spec =
  sp_restorePlans :: "restore_plan gomap"

section \<open>Status (status_type.go)\<close>

text \<open>\<open>RestorePhase\<close> is a string; its zero value \<open>\<open>""\<close>\<close> is \<open>PhaseUnset\<close>.\<close>

datatype restore_phase =
    PhaseUnset | PhaseCompleted | PhaseFailed | PhaseIdle | PhaseRestored | PhaseRestoring
  | PhaseScalingDown | PhaseScaledDown | PhaseRunningPreHooks | PhaseRunningPostHooks
  | PhaseScalingUp | PhaseValidated | PhaseValidating

record configmap_reference =
  cr_refName :: string
  cr_refNamespace :: string

record restore_hook_status =
  rhs_name :: string
  rhs_namespace :: string
  rhs_checksum :: string
  rhs_event :: restore_event
  rhs_failed :: int
  rhs_image :: string
  rhs_mutable :: bool
  rhs_restartPolicy :: policy
  rhs_succeeded :: int
  rhs_configMapRef :: "configmap_reference option"

record restore_snapshot_ref =
  sr_pvcName :: string
  sr_pvcStorageClass :: "string option"
  sr_snapshotUID :: string
  sr_snapshotName :: string
  sr_skipRestoringPVC :: bool

record restore_target_status =
  rts_name :: string
  rts_namespace :: string
  rts_type :: string
  rts_snapshotsRef :: "restore_snapshot_ref list"
  rts_podManagementPolicy :: pod_policy
  rts_originalReplicas :: int
  rts_currentReplicas :: int
  rts_phase :: restore_phase
  rts_error :: string

record restore_plan_status =
  rps_snapshotRestoreTime :: string
  rps_lock :: bool
  rps_countScaleUp :: int
  rps_clusters :: "restore_target_status list"
  rps_operators :: "restore_target_status list"
  rps_hooks :: "restore_hook_status list"

record restore_status =
  rs_phase :: restore_phase
  rs_activePlan :: string
  rs_restorePlans :: "restore_plan_status gomap"
  rs_lastUpdated :: "int option"

text \<open>The custom resource: the metadata the code reads, the spec and the status.\<close>

record ebs_snapshot_restore =
  esr_name :: string
  esr_namespace :: string
  esr_uid :: string
  esr_spec :: restore_spec
  esr_status :: restore_status

section \<open>Zero values\<close>

definition zero_target_status :: restore_target_status where
  "zero_target_status = \<lparr>rts_name = [], rts_namespace = [], rts_type = [], rts_snapshotsRef = [],
     rts_podManagementPolicy = PolicyUnset, rts_originalReplicas = 0, rts_currentReplicas = 0,
     rts_phase = PhaseUnset, rts_error = []\<rparr>"

definition zero_plan_status :: restore_plan_status where
  "zero_plan_status = \<lparr>rps_snapshotRestoreTime = [], rps_lock = False, rps_countScaleUp = 0,
     rps_clusters = [], rps_operators = [], rps_hooks = []\<rparr>"

definition zero_status :: restore_status where
  "zero_status = \<lparr>rs_phase = PhaseUnset, rs_activePlan = [], rs_restorePlans = None,
     rs_lastUpdated = None\<rparr>"

section \<open>Lifecycle order of the phases\<close>

text \<open>
  The phases of a whole restore, in the order in which a reconcile goes through them; the
  phases of a single target and the failure phase come after.  The order is a
  \<open>linorder\<close>, so that \<open>sorted\<close> speaks of a sequence of phases.
\<close>

fun phase_rank :: "restore_phase \<Rightarrow> nat" where
  "phase_rank PhaseUnset = 0"
| "phase_rank PhaseIdle = 1"
| "phase_rank PhaseValidating = 2"
| "phase_rank PhaseRunningPreHooks = 3"
| "phase_rank PhaseScalingDown = 4"
| "phase_rank PhaseRestoring = 5"
| "phase_rank PhaseScalingUp = 6"
| "phase_rank PhaseRunningPostHooks = 7"
| "phase_rank PhaseCompleted = 8"
| "phase_rank PhaseFailed = 9"
| "phase_rank PhaseValidated = 10"
| "phase_rank PhaseScaledDown = 11"
| "phase_rank PhaseRestored = 12"

lemma phase_rank_inject [simp]: "phase_rank p = phase_rank q \<longleftrightarrow> p = q"
  by (cases p; cases q) simp_all

instantiation restore_phase :: linorder
begin

definition less_eq_restore_phase :: "restore_phase \<Rightarrow> restore_phase \<Rightarrow> bool" where
  "less_eq_restore_phase p q \<longleftrightarrow> phase_rank p \<le> phase_rank q"

definition less_restore_phase :: "restore_phase \<Rightarrow> restore_phase \<Rightarrow> bool" where
  "less_restore_phase p q \<longleftrightarrow> phase_rank p < phase_rank q"

instance
  by standard (auto simp: less_eq_restore_phase_def less_restore_phase_def antisym)

end

lemmas phase_order = less_eq_restore_phase_def less_restore_phase_def

section \<open>Reading a status\<close>

definition plan_status :: "restore_status \<Rightarrow> string \<Rightarrow> restore_plan_status option" where
  "plan_status st k = gm_get (rs_restorePlans st) k"

abbreviation o_plan :: "ebs_snapshot_restore \<Rightarrow> string \<Rightarrow> restore_plan_status option" where
  "o_plan r k \<equiv> plan_status (esr_status r) k"

abbreviation o_phase :: "ebs_snapshot_restore \<Rightarrow> restore_phase" where
  "o_phase r \<equiv> rs_phase (esr_status r)"

definition or_zero :: "restore_plan_status option \<Rightarrow> restore_plan_status" where
  "or_zero x = (case x of None \<Rightarrow> zero_plan_status | Some p \<Rightarrow> p)"

definition was_locked :: "ebs_snapshot_restore \<Rightarrow> string \<Rightarrow> bool" where
  "was_locked r k \<longleftrightarrow> rps_lock (or_zero (o_plan r k))"

text \<open>
  What \<open>cmp.Equal\<close> compares under the code's options: everything except \<open>LastUpdated\<close>,
  with a nil and an empty map equal.
\<close>

definition status_equiv :: "restore_status \<Rightarrow> restore_status \<Rightarrow> bool" where
  "status_equiv a b \<longleftrightarrow> rs_phase a = rs_phase b \<and> rs_activePlan a = rs_activePlan b
     \<and> gm_equiv (rs_restorePlans a) (rs_restorePlans b)"

lemma status_equiv_refl [simp]: "status_equiv a a"
  by (simp add: status_equiv_def)

lemma status_equiv_trans: "status_equiv a b \<Longrightarrow> status_equiv b c \<Longrightarrow> status_equiv a c"
  by (simp add: status_equiv_def gm_equiv_iff)

lemma status_equivD:
  assumes "status_equiv a b"
  shows "rs_phase a = rs_phase b" and "rs_activePlan a = rs_activePlan b"
    and "plan_status a = plan_status b"
  using assms by (auto simp: status_equiv_def gm_equiv_iff plan_status_def)

lemma status_equivI:
  assumes "rs_phase a = rs_phase b" and "rs_activePlan a = rs_activePlan b"
    and "plan_status a = plan_status b"
  shows "status_equiv a b"
  using assms by (simp add: status_equiv_def gm_equiv_iff plan_status_def fun_eq_iff)

lemma status_equiv_iff:
  "status_equiv a b \<longleftrightarrow> rs_phase a = rs_phase b \<and> rs_activePlan a = rs_activePlan b
     \<and> plan_status a = plan_status b"
  using status_equivD status_equivI by blast

lemma plan_status_simps [simp]:
  "plan_status (st\<lparr>rs_phase := p\<rparr>) = plan_status st"
  "plan_status (st\<lparr>rs_activePlan := a\<rparr>) = plan_status st"
  "plan_status (st\<lparr>rs_lastUpdated := t\<rparr>) = plan_status st"
  "plan_status (st\<lparr>rs_restorePlans := m\<rparr>) = gm_get m"
  by (simp_all add: plan_status_def fun_eq_iff)

end
