(* ===== verification/Kube.thy ===== *)
theory Kube
  imports Goroutines Api_Types
begin

text \<open>
  The outside of the operator.  Everything that is not in the repository is a field of the
  record \<open>env\<close>: the Kubernetes API client, the polling helper, errgroup, the label
  selector and JSON libraries, SHA-256, the clock, the order in which Go ranges over a
  map.  The fields act on an opaque world; nothing is assumed of them except the named
  hypotheses at the end, each a documented behaviour.  The state of the model is the
  world, the custom resource the functions share through a pointer, the variables that
  polling closures capture, and a ghost trace of the API calls made.
\<close>

section \<open>Kubernetes objects, as far as the code reads or writes them\<close>

record owner_reference =
  or_apiVersion :: string
  or_kind :: string
  or_name :: string
  or_uid :: string
  or_controller :: "bool option"
  or_blockOwnerDeletion :: "bool option"

record object_meta =
  om_name :: string
  om_namespace :: string
  om_uid :: string
  om_resourceVersion :: string
  om_generation :: int
  om_creationTimestamp :: int
  om_finalizers :: "string list"
  om_ownerReferences :: "owner_reference list"
  om_managedFields :: "opaque list"
  om_labels :: "string gomap"
  om_annotations :: "string gomap"

definition zero_meta :: object_meta where
  "zero_meta = \<lparr>om_name = [], om_namespace = [], om_uid = [], om_resourceVersion = [],
     om_generation = 0, om_creationTimestamp = 0, om_finalizers = [], om_ownerReferences = [],
     om_managedFields = [], om_labels = None, om_annotations = None\<rparr>"

datatype update_strategy = RollingUpdate | OnDelete | OtherStrategy string

record stateful_set =
  sts_meta :: object_meta
  sts_replicas :: "int option"
  sts_podManagementPolicy :: pod_policy
  sts_updateStrategy :: update_strategy
  sts_statusReplicas :: int
  sts_readyReplicas :: int
  sts_updatedReplicas :: int
  sts_currentRevision :: string
  sts_updateRevision :: string
  sts_observedGeneration :: int
  sts_rest :: opaque

record deployment =
  dep_meta :: object_meta
  dep_replicas :: "int option"
  dep_statusReplicas :: int
  dep_readyReplicas :: int
  dep_updatedReplicas :: int
  dep_availableReplicas :: int
  dep_rest :: opaque

record data_source =
  ds_apiGroup :: "string option"
  ds_kind :: string
  ds_name :: string

record pvc =
  pvc_meta :: object_meta
  pvc_accessModes :: "string list"
  pvc_storageClassName :: "string option"
  pvc_resources :: opaque
  pvc_volumeMode :: "string option"
  pvc_dataSource :: "data_source option"
  pvc_volumeName :: string
  pvc_specRest :: opaque
  pvc_phase :: string

definition zero_pvc :: pvc where
  "zero_pvc = \<lparr>pvc_meta = zero_meta, pvc_accessModes = [], pvc_storageClassName = None,
     pvc_resources = [], pvc_volumeMode = None, pvc_dataSource = None, pvc_volumeName = [],
     pvc_specRest = [], pvc_phase = []\<rparr>"

record volume_snapshot =
  vs_name :: string
  vs_uid :: string
  vs_status :: "bool option option"

record persistent_volume =
  pv_objName :: string
  pv_claimRef :: "(string \<times> string \<times> string) option"

record config_map =
  cm_meta :: object_meta
  cm_data :: "string gomap"
  cm_immutable :: "bool option"

datatype env_var = EnvValue string string | EnvFieldRef string string

record env_from =
  ef_prefix :: string
  ef_secretName :: string

record container =
  c_name :: string
  c_image :: string
  c_command :: "string list"
  c_args :: "string list"
  c_env :: "env_var list"
  c_envFrom :: "env_from list"
  c_privileged :: "bool option"

record pod_spec =
  ps_restartPolicy :: policy
  ps_containers :: "container list"
  ps_serviceAccountName :: string
  ps_nodeName :: string
  ps_hostPID :: bool
  ps_tolerations :: "string list"

record job =
  j_kind :: string
  j_apiVersion :: string
  j_meta :: object_meta
  j_ttlSecondsAfterFinished :: "int option"
  j_backoffLimit :: "int option"
  j_templateLabels :: "string gomap"
  j_podSpec :: pod_spec
  j_active :: int
  j_succeeded :: int
  j_failed :: int

record policy_rule =
  pr_apiGroups :: "string list"
  pr_resources :: "string list"
  pr_verbs :: "string list"

record role_binding =
  rb_meta :: object_meta
  rb_subjects :: "(string \<times> string \<times> string) list"
  rb_roleRef :: "string \<times> string \<times> string"

section \<open>API calls and the state\<close>

datatype event =
    EGetCR string string
  | EPatchStatus ebs_snapshot_restore
  | EGetSTS string string
  | EPatchSTS stateful_set
  | EDeleteSTS stateful_set string
  | ECreateSTS stateful_set
  | EGetDeployment string string
  | EPatchDeployment deployment
  | EGetPVC string string
  | EListPVC string
  | ECreatePVC pvc
  | EDeletePVC pvc
  | EPatchPVC pvc
  | EListPV
  | EListVS string
  | EListNodes
  | EGetJob string string
  | ECreateJob job
  | EGetCM string string
  | ECreateCM config_map
  | EPatchCM config_map
  | ECreateSA object_meta
  | ECreateRole object_meta
  | ECreateRoleBinding role_binding
  | EPoll int int
  | ESleep int

text \<open>Calls that read, wait or sleep.\<close>

fun quiet :: "event \<Rightarrow> bool" where
  "quiet (EGetCR n ns) = True"
| "quiet (EGetSTS n ns) = True"
| "quiet (EGetDeployment n ns) = True"
| "quiet (EGetPVC n ns) = True"
| "quiet (EListPVC ns) = True"
| "quiet EListPV = True"
| "quiet (EListVS ns) = True"
| "quiet EListNodes = True"
| "quiet (EGetJob n ns) = True"
| "quiet (EGetCM n ns) = True"
| "quiet (EPoll i t) = True"
| "quiet (ESleep d) = True"
| "quiet _ = False"

record 'w st =
  world :: 'w
  trace :: "event list"
  obj :: ebs_snapshot_restore
  seen :: bool
  pv_name :: string

type_synonym selector = opaque

type_synonym gvk = "string \<times> string"

record 'w env =
  k_get_cr :: "string \<Rightarrow> string \<Rightarrow> 'w \<Rightarrow> (goerr + ebs_snapshot_restore) \<times> 'w"
  k_patch_status :: "ebs_snapshot_restore \<Rightarrow> ebs_snapshot_restore \<Rightarrow> 'w \<Rightarrow> (goerr + ebs_snapshot_restore) \<times> 'w"
  k_get_sts :: "string \<Rightarrow> string \<Rightarrow> 'w \<Rightarrow> (goerr + stateful_set) \<times> 'w"
  k_patch_sts :: "stateful_set \<Rightarrow> stateful_set \<Rightarrow> 'w \<Rightarrow> (goerr + stateful_set) \<times> 'w"
  k_delete_sts :: "stateful_set \<Rightarrow> string \<Rightarrow> 'w \<Rightarrow> (goerr + unit) \<times> 'w"
  k_create_sts :: "stateful_set \<Rightarrow> 'w \<Rightarrow> (goerr + stateful_set) \<times> 'w"
  k_get_deployment :: "string \<Rightarrow> string \<Rightarrow> 'w \<Rightarrow> (goerr + deployment) \<times> 'w"
  k_patch_deployment :: "deployment \<Rightarrow> deployment \<Rightarrow> 'w \<Rightarrow> (goerr + deployment) \<times> 'w"
  k_get_pvc :: "string \<Rightarrow> string \<Rightarrow> 'w \<Rightarrow> (goerr + pvc) \<times> 'w"
  k_list_pvc :: "string \<Rightarrow> selector \<Rightarrow> 'w \<Rightarrow> (goerr + pvc list) \<times> 'w"
  k_create_pvc :: "pvc \<Rightarrow> 'w \<Rightarrow> (goerr + pvc) \<times> 'w"
  k_delete_pvc :: "pvc \<Rightarrow> 'w \<Rightarrow> (goerr + unit) \<times> 'w"
  k_patch_pvc :: "pvc \<Rightarrow> pvc \<Rightarrow> 'w \<Rightarrow> (goerr + pvc) \<times> 'w"
  k_list_pv :: "'w \<Rightarrow> (goerr + persistent_volume list) \<times> 'w"
  k_list_vs :: "string \<Rightarrow> (string \<times> string) list \<Rightarrow> 'w \<Rightarrow> (goerr + volume_snapshot list) \<times> 'w"
  k_list_nodes :: "selector \<Rightarrow> 'w \<Rightarrow> (goerr + string list) \<times> 'w"
  k_get_job :: "string \<Rightarrow> string \<Rightarrow> 'w \<Rightarrow> (goerr + job) \<times> 'w"
  k_create_job :: "job \<Rightarrow> 'w \<Rightarrow> (goerr + job) \<times> 'w"
  k_get_cm :: "string \<Rightarrow> string \<Rightarrow> 'w \<Rightarrow> (goerr + config_map) \<times> 'w"
  k_create_cm :: "config_map \<Rightarrow> 'w \<Rightarrow> (goerr + config_map) \<times> 'w"
  k_patch_cm :: "config_map \<Rightarrow> config_map \<Rightarrow> 'w \<Rightarrow> (goerr + config_map) \<times> 'w"
  k_create_sa :: "object_meta \<Rightarrow> 'w \<Rightarrow> (goerr + unit) \<times> 'w"
  k_create_role :: "object_meta \<Rightarrow> policy_rule list \<Rightarrow> 'w \<Rightarrow> (goerr + unit) \<times> 'w"
  k_create_role_binding :: "role_binding \<Rightarrow> 'w \<Rightarrow> (goerr + unit) \<times> 'w"
  k_selector :: "label_selector option \<Rightarrow> goerr + selector"
  k_gvk_cr :: "goerr + gvk"
  k_gvk_job :: "goerr + gvk"
  k_json_marshal :: "string list \<Rightarrow> goerr + string"
  k_json_unmarshal :: "string \<Rightarrow> goerr + string list"
  k_sha256 :: "string \<Rightarrow> string"
  k_cmp_equal :: "restore_status \<Rightarrow> restore_status \<Rightarrow> bool"
  k_parse_error :: "string \<Rightarrow> string"
  k_now :: "'w \<Rightarrow> int \<times> 'w"
  k_sleep :: "int \<Rightarrow> 'w \<Rightarrow> 'w"
  k_map_order :: "'w \<Rightarrow> string list \<Rightarrow> string list"
  k_operand_first :: bool
  k_poll :: "int \<Rightarrow> int \<Rightarrow> bool \<Rightarrow> ('w st, bool) go \<Rightarrow> ('w st, unit) go"
  k_group :: "('w st, restore_hook_status \<times> goerr option) proc list \<Rightarrow>
     ('w st, restore_hook_status list \<times> goerr option) go"

text \<open>One API call: the world answers, the call is appended to the trace.\<close>

definition api :: "event \<Rightarrow> ('w \<Rightarrow> (goerr + 'a) \<times> 'w) \<Rightarrow> ('w st, 'a) go" where
  "api ev f = (\<lambda>s. case f (world s) of
      (Inl e, w) \<Rightarrow> (Err e, s\<lparr>world := w, trace := trace s @ [ev]\<rparr>)
    | (Inr x, w) \<Rightarrow> (Ok x, s\<lparr>world := w, trace := trace s @ [ev]\<rparr>))"

definition log_event :: "event \<Rightarrow> ('w st, unit) go" where
  "log_event ev = modify (\<lambda>s. s\<lparr>trace := trace s @ [ev]\<rparr>)"

definition poll_until :: "'w env \<Rightarrow> int \<Rightarrow> int \<Rightarrow> ('w st, bool) go \<Rightarrow> ('w st, unit) go" where
  "poll_until env iv to cond = gbind (log_event (EPoll iv to)) (\<lambda>_. k_poll env iv to True cond)"

definition time_now :: "'w env \<Rightarrow> ('w st, int) go" where
  "time_now env = (\<lambda>s. case k_now env (world s) of (t, w) \<Rightarrow> (Ok t, s\<lparr>world := w\<rparr>))"

definition time_sleep :: "'w env \<Rightarrow> int \<Rightarrow> ('w st, unit) go" where
  "time_sleep env d = modify (\<lambda>s. s\<lparr>world := k_sleep env d (world s), trace := trace s @ [ESleep d]\<rparr>)"

text \<open>
  The keys of a map in the order of one \<open>range\<close> loop: any permutation, chosen by the
  runtime.
\<close>

definition range_keys :: "'w env \<Rightarrow> 'v gomap \<Rightarrow> ('w st, string list) go" where
  "range_keys env m = gets (\<lambda>s.
     let ks = gm_keys m; os = k_map_order env (world s) ks in if sort os = sort ks then os else ks)"

text \<open>The keys with their values: \<open>for k, v := range m\<close>.\<close>

definition range_map :: "'w env \<Rightarrow> 'v gomap \<Rightarrow> ('w st, (string \<times> 'v) list) go" where
  "range_map env m = gbind (range_keys env m) (\<lambda>ks. gret (map (\<lambda>k. (k, the (gm_get m k))) ks))"

text \<open>\<open>time.Second\<close> in nanoseconds.\<close>

definition time_second :: int where
  "time_second = 1000000000"

definition time_minute :: int where
  "time_minute = 60 * time_second"

section \<open>Hypotheses on the outside\<close>

text \<open>\<open>cmp.Equal\<close> under the options of \<open>statusCmpOptions\<close> is deep equality up to them.\<close>

definition cmp_ok :: "'w env \<Rightarrow> bool" where
  "cmp_ok env \<longleftrightarrow> (\<forall>a b. k_cmp_equal env a b = status_equiv a b)"

text \<open>
  A successful status patch returns the object as it was sent: nobody else changes the
  custom resource between the read and the write.
\<close>

definition patch_echo :: "'w env \<Rightarrow> bool" where
  "patch_echo env \<longleftrightarrow> (\<forall>old new w x w'. k_patch_status env old new w = (Inr x, w') \<longrightarrow> x = new)"

text \<open>
  \<open>wait.PollUntilContextTimeout\<close>: the condition is evaluated again and again, time passes
  in between, until it returns true, returns an error, or the deadline ends the wait with
  the context's error.
\<close>

inductive poll_run :: "('w st, bool) go \<Rightarrow> 'w st \<Rightarrow> unit out \<Rightarrow> 'w st \<Rightarrow> bool" for cond where
  found: "cond s = (Ok True, t) \<Longrightarrow> poll_run cond s (Ok ()) t"
| failed: "cond s = (Err e, t) \<Longrightarrow> poll_run cond s (Err e) t"
| crashed: "cond s = (Panic p, t) \<Longrightarrow> poll_run cond s (Panic p) t"
| again: "cond s = (Ok False, t) \<Longrightarrow> poll_run cond (t\<lparr>world := w\<rparr>) r u \<Longrightarrow> poll_run cond s r u"
| expired: "poll_run cond s (Err (CtxErr m)) s"

definition poll_ok :: "'w env \<Rightarrow> bool" where
  "poll_ok env \<longleftrightarrow> (\<forall>iv to imm cond s r t. k_poll env iv to imm cond s = (r, t) \<longrightarrow> poll_run cond s r t)"

text \<open>errgroup runs its functions concurrently and reports the first error.\<close>

definition group_ok :: "'w env \<Rightarrow> bool" where
  "group_ok env \<longleftrightarrow> (\<forall>ps s r t. k_group env ps s = (r, t) \<longrightarrow>
     group_run ps (foldl note_error None ps) s r t)"

text \<open>The digest printed with \<open>%x\<close>: 64 lowercase hexadecimal characters.\<close>

definition hex_char :: "char \<Rightarrow> bool" where
  "hex_char c \<longleftrightarrow> c \<in> set ''0123456789abcdef''"

definition sha_ok :: "'w env \<Rightarrow> bool" where
  "sha_ok env \<longleftrightarrow> (\<forall>x. length (k_sha256 env x) = 64 \<and> list_all hex_char (k_sha256 env x))"

text \<open>An empty string is not JSON.\<close>

definition json_ok :: "'w env \<Rightarrow> bool" where
  "json_ok env \<longleftrightarrow> (\<forall>x. k_json_unmarshal env [] \<noteq> Inr x)"

section \<open>Execution rules\<close>

lemma api_run [go_run]:
  "api ev f s = (case f (world s) of
      (Inl e, w) \<Rightarrow> (Err e, s\<lparr>world := w, trace := trace s @ [ev]\<rparr>)
    | (Inr x, w) \<Rightarrow> (Ok x, s\<lparr>world := w, trace := trace s @ [ev]\<rparr>))"
  by (simp add: api_def)

lemma log_event_run [go_run]: "log_event ev s = (Ok (), s\<lparr>trace := trace s @ [ev]\<rparr>)"
  by (simp add: log_event_def modify_apply)

lemma poll_until_run [go_run]:
  "poll_until env iv to cond s = k_poll env iv to True cond (s\<lparr>trace := trace s @ [EPoll iv to]\<rparr>)"
  by (simp add: poll_until_def gbind_apply log_event_run)

lemma time_now_run [go_run]:
  "time_now env s = (case k_now env (world s) of (t, w) \<Rightarrow> (Ok t, s\<lparr>world := w\<rparr>))"
  by (simp add: time_now_def)

lemma time_sleep_run [go_run]:
  "time_sleep env d s = (Ok (), s\<lparr>world := k_sleep env d (world s), trace := trace s @ [ESleep d]\<rparr>)"
  by (simp add: time_sleep_def modify_apply)

lemma range_keys_cases:
  obtains ks where "range_keys env m s = (Ok ks, s)" and "set ks = set (gm_keys m)" and "distinct ks"
proof -
  define os where "os = k_map_order env (world s) (gm_keys m)"
  define ks where "ks = (if sort os = sort (gm_keys m) then os else gm_keys m)"
  have "range_keys env m s = (Ok ks, s)"
    by (simp add: range_keys_def gets_apply ks_def os_def Let_def)
  moreover have "set os = set (gm_keys m)" if "sort os = sort (gm_keys m)"
    using arg_cong [OF that, of set] by simp
  then have "set ks = set (gm_keys m)" by (simp add: ks_def)
  moreover have "distinct os" if "sort os = sort (gm_keys m)"
    using arg_cong [OF that, of distinct] by simp
  then have "distinct ks" by (simp add: ks_def)
  ultimately show thesis by (rule that)
qed

lemma range_keys_single: "range_keys env (Some [(k, v)]) s = (Ok [k], s)"
proof -
  have "os = [k]" if "sort os = [k]" for os :: "string list"
    using that by (cases os; cases "tl os") (auto dest: arg_cong [where f = length])
  then show ?thesis
    by (simp add: range_keys_def gets_apply gm_keys_def Let_def)
qed

lemma range_map_cases:
  obtains kvs where "range_map env m s = (Ok kvs, s)" and "distinct (map fst kvs)"
    and "set kvs = {(k, v). gm_get m k = Some v}"
proof -
  obtain ks where ks: "range_keys env m s = (Ok ks, s)" "set ks = set (gm_keys m)" "distinct ks"
    by (rule range_keys_cases)
  have "range_map env m s = (Ok (map (\<lambda>k. (k, the (gm_get m k))) ks), s)"
    by (simp add: range_map_def gbind_apply ks(1) gret_apply)
  moreover have "distinct (map fst (map (\<lambda>k. (k, the (gm_get m k))) ks))"
    using ks(3) by (simp add: comp_def)
  moreover have "set (map (\<lambda>k. (k, the (gm_get m k))) ks) = {(k, v). gm_get m k = Some v}"
    using ks(2) by (force simp: set_gm_keys)
  ultimately show thesis by (rule that)
qed

lemma triple_range_map [wp]:
  assumes "\<And>kvs. distinct (map fst kvs) \<Longrightarrow> set kvs = {(k, v). gm_get m k = Some v} \<Longrightarrow>
      triple P (f kvs) Q E"
  shows "triple P (gbind (range_map env m) f) Q E"
proof (rule tripleI)
  fix s assume P: "P s"
  obtain kvs where kvs: "range_map env m s = (Ok kvs, s)" "distinct (map fst kvs)"
      "set kvs = {(k, v). gm_get m k = Some v}"
    by (rule range_map_cases)
  have "triple P (f kvs) Q E" using kvs(2,3) by (rule assms)
  with P show "case gbind (range_map env m) f s of (Ok x, t) \<Rightarrow> Q x t | (Err e, t) \<Rightarrow> E e t | (Panic p, t) \<Rightarrow> False"
    by (simp add: gbind_apply kvs(1) triple_def)
qed

section \<open>Frames\<close>

text \<open>
  A frame of the model also lets the world move on its own, the polling variables change
  and the quiet calls be made; the locale proves that such a relation passes through
  polling and through the goroutines of a group.
\<close>

locale world_frame = frame R for R :: "'w st \<Rightarrow> 'w st \<Rightarrow> bool" +
  assumes R_world: "R s (s\<lparr>world := w\<rparr>)"
    and R_quiet: "quiet ev \<Longrightarrow> R s (s\<lparr>trace := trace s @ [ev]\<rparr>)"
    and R_seen: "R s (s\<lparr>seen := b\<rparr>)"
    and R_pv_name: "R s (s\<lparr>pv_name := n\<rparr>)"
begin

lemma R_world_quiet: "quiet ev \<Longrightarrow> R s (s\<lparr>world := w, trace := trace s @ [ev]\<rparr>)"
  using R_trans [OF R_world [of s w] R_quiet [of ev "s\<lparr>world := w\<rparr>"]] by simp

lemma api_quiet: "quiet ev \<Longrightarrow> keeps R (api ev f)"
  by (auto simp: keeps_def api_run R_world_quiet split: prod.splits sum.splits)

lemma log_event: "quiet ev \<Longrightarrow> keeps R (log_event ev)"
  by (simp add: keeps_def log_event_run R_quiet)

lemma time_now: "keeps R (time_now env)"
  by (auto simp: keeps_def time_now_run R_world split: prod.splits)

lemma time_sleep: "keeps R (time_sleep env d)"
  by (simp add: keeps_def time_sleep_run R_world_quiet)

lemma set_seen: "keeps R (modify (\<lambda>s. s\<lparr>seen := b\<rparr>))"
  by (simp add: keeps_def modify_apply R_seen)

lemma set_pv_name: "keeps R (modify (\<lambda>s. s\<lparr>pv_name := n\<rparr>))"
  by (simp add: keeps_def modify_apply R_pv_name)

lemma range_keys: "keeps R (range_keys env m)"
  by (simp add: range_keys_def gets)

lemma range_map: "keeps R (range_map env m)"
  unfolding range_map_def by (intro gbind gret range_keys)

lemma poll_run: "poll_run cond s r t \<Longrightarrow> keeps R cond \<Longrightarrow> R s t"
  by (induction rule: poll_run.induct) (blast intro: R_trans R_world R_refl dest: keepsD)+

lemma poll_until:
  assumes "poll_ok env" and "keeps R cond"
  shows "keeps R (poll_until env iv to cond)"
  unfolding poll_until_def
proof (rule gbind)
  show "keeps R (k_poll env iv to True cond)" for x
    unfolding keeps_def
  proof
    fix s
    have "poll_run cond s (fst (k_poll env iv to True cond s)) (snd (k_poll env iv to True cond s))"
      using assms(1) by (simp add: poll_ok_def)
    then show "R s (snd (k_poll env iv to True cond s))" using assms(2) by (rule poll_run)
  qed
qed (simp add: log_event)

lemma group:
  assumes "group_ok env" and "\<And>p. p \<in> set ps \<Longrightarrow> pkeeps R p"
  shows "keeps R (k_group env ps)"
  unfolding keeps_def
proof
  fix s
  have "group_run ps (foldl note_error None ps) s (fst (k_group env ps s)) (snd (k_group env ps s))"
    using assms(1) by (simp add: group_ok_def)
  then show "R s (snd (k_group env ps s))" using assms(2) by (auto intro: group_run_keeps)
qed

lemmas world_rules = rules api_quiet log_event time_now time_sleep set_seen set_pv_name range_keys range_map

end

text \<open>
  \<open>acts A\<close>: the custom resource in memory is untouched and every call made is quiet or in
  \<open>A\<close>.  \<open>evolves A\<close>: the same, but the status of the resource may change.
\<close>

definition emits :: "(event \<Rightarrow> bool) \<Rightarrow> 'w st \<Rightarrow> 'w st \<Rightarrow> bool" where
  "emits A s t \<longleftrightarrow> (\<exists>es. trace t = trace s @ es \<and> (\<forall>e \<in> set es. quiet e \<or> A e))"

definition acts :: "(event \<Rightarrow> bool) \<Rightarrow> 'w st \<Rightarrow> 'w st \<Rightarrow> bool" where
  "acts A s t \<longleftrightarrow> obj t = obj s \<and> emits A s t"

definition evolves :: "(event \<Rightarrow> bool) \<Rightarrow> 'w st \<Rightarrow> 'w st \<Rightarrow> bool" where
  "evolves A s t \<longleftrightarrow> obj t = (obj s)\<lparr>esr_status := esr_status (obj t)\<rparr> \<and> emits A s t"

lemma emits_refl [simp]: "emits A s s"
  by (simp add: emits_def)

lemma emits_trans: "emits A s t \<Longrightarrow> emits A t u \<Longrightarrow> emits A s u"
  unfolding emits_def by (metis Un_iff append.assoc set_append)

lemma emits_snoc: "quiet ev \<or> A ev \<Longrightarrow> trace t = trace s @ [ev] \<Longrightarrow> emits A s t"
  by (auto simp: emits_def)

lemma emits_event [simp]:
  "quiet ev \<or> A ev \<Longrightarrow> emits A s (s\<lparr>trace := trace s @ [ev]\<rparr>)"
  "quiet ev \<or> A ev \<Longrightarrow> emits A s (s\<lparr>world := w, trace := trace s @ [ev]\<rparr>)"
  by (auto intro: emits_snoc)

lemma emits_same [simp]: "trace t = trace s \<Longrightarrow> emits A s t"
  by (simp add: emits_def)

lemma emits_mono: "emits A s t \<Longrightarrow> (\<And>e. A e \<Longrightarrow> B e) \<Longrightarrow> emits B s t"
  unfolding emits_def by blast

interpretation emitted: world_frame "emits A" for A
  by unfold_locales (auto intro: emits_trans)

interpretation acting: world_frame "acts A" for A
  by unfold_locales (auto simp: acts_def intro: emits_trans)

interpretation evolving: world_frame "evolves A" for A
proof
  fix s t u :: "'a st"
  assume "evolves A s t" and "evolves A t u"
  then show "evolves A s u"
    unfolding evolves_def
    by (metis emits_trans ebs_snapshot_restore.surjective ebs_snapshot_restore.update_convs(5))
qed (auto simp: evolves_def)

lemma acts_mono: "keeps (acts A) m \<Longrightarrow> (\<And>e. A e \<Longrightarrow> B e) \<Longrightarrow> keeps (acts B) m"
  by (auto simp: keeps_def acts_def intro: emits_mono)

lemma evolves_mono: "keeps (evolves A) m \<Longrightarrow> (\<And>e. A e \<Longrightarrow> B e) \<Longrightarrow> keeps (evolves B) m"
  by (auto simp: keeps_def evolves_def intro: emits_mono)

lemma acts_evolves: "acts A s t \<Longrightarrow> evolves A s t"
  by (simp add: acts_def evolves_def)

lemma keeps_acts_evolves: "keeps (acts A) m \<Longrightarrow> keeps (evolves A) m"
  by (simp add: keeps_def acts_evolves)

lemma evolves_emits: "keeps (evolves A) m \<Longrightarrow> keeps (emits A) m"
  by (simp add: keeps_def evolves_def)

lemma acts_api: "quiet ev \<or> A ev \<Longrightarrow> keeps (acts A) (api ev f)"
  by (auto simp: keeps_def acts_def api_run split: prod.splits sum.splits)

lemma evolves_spec: "evolves A s t \<Longrightarrow> esr_spec (obj t) = esr_spec (obj s)"
  unfolding evolves_def by (metis ebs_snapshot_restore.select_convs(4) ebs_snapshot_restore.surjective
      ebs_snapshot_restore.update_convs(5))

text \<open>What a function that leaves the resource alone returns, with any fact about the resource.\<close>

lemma triple_acts:
  assumes "keeps (acts A) m" and "triple (\<lambda>_. True) m (\<lambda>x _. Q x) (\<lambda>e _. E e)"
  shows "triple (\<lambda>s. J (obj s)) m (\<lambda>x s. Q x \<and> J (obj s)) (\<lambda>e s. E e \<and> J (obj s))"
proof (rule tripleI)
  fix s :: "'a st" assume J: "J (obj s)"
  obtain r t where m: "m s = (r, t)" by force
  then have "obj t = obj s" using assms(1) by (auto simp: acts_def dest: keepsD)
  with J m assms(2) show "case m s of (Ok x, t) \<Rightarrow> Q x \<and> J (obj t) | (Err e, t) \<Rightarrow> E e \<and> J (obj t) | (Panic p, t) \<Rightarrow> False"
    using triple_okD [OF assms(2) TrueI, of s] triple_errD [OF assms(2) TrueI, of s]
      triple_no_panic [OF assms(2) TrueI, of s]
    by (cases r) auto
qed

lemma triple_api: "triple (\<lambda>_. True) (api ev f) (\<lambda>_ _. True) (\<lambda>_ _. True)"
  by (auto simp: triple_def api_run split: prod.splits sum.splits)

lemma triple_attempt_api: "triple (\<lambda>_. True) (attempt (api ev f)) (\<lambda>_ _. True) E"
  by (rule triple_attempt [OF triple_post [OF triple_api]]) simp_all

section \<open>Polling\<close>

text \<open>
  A wait keeps an invariant \<open>I\<close> that does not depend on the world; it ends in what the
  condition establishes when it returns true, or in an error.
\<close>

lemma poll_run_inv:
  "\<lbrakk>poll_run cond s r t; triple I cond (\<lambda>b s. if b then Q s else I s) E; \<And>s w. I s \<Longrightarrow> I (s\<lparr>world := w\<rparr>);
    \<And>m s. I s \<Longrightarrow> E (CtxErr m) s; I s\<rbrakk>
   \<Longrightarrow> (case r of Ok _ \<Rightarrow> Q t | Err e \<Rightarrow> E e t | Panic p \<Rightarrow> False)"
proof (induction rule: poll_run.induct)
  case (found s t)
  then show ?case using triple_okD [OF found.prems(1,4) found.hyps] by simp
next
  case (failed s e t)
  then show ?case using triple_errD [OF failed.prems(1,4) failed.hyps] by simp
next
  case (crashed s p t)
  then show ?case using triple_no_panic [OF crashed.prems(1,4), of p t] by simp
next
  case (again s t w r u)
  then have "I t" using triple_okD [OF again.prems(1,4) again.hyps(1)] by simp
  with again show ?case by blast
qed simp

lemma triple_poll:
  assumes "poll_ok env" and "triple I cond (\<lambda>b s. if b then Q s else I s) E"
    and "\<And>s w. I s \<Longrightarrow> I (s\<lparr>world := w\<rparr>)" and "\<And>m s. I s \<Longrightarrow> E (CtxErr m) s"
    and "\<And>s. P s \<Longrightarrow> I (s\<lparr>trace := trace s @ [EPoll iv to]\<rparr>)"
  shows "triple P (poll_until env iv to cond) (\<lambda>_. Q) E"
proof (rule tripleI)
  fix s assume "P s"
  let ?s = "s\<lparr>trace := trace s @ [EPoll iv to]\<rparr>"
  obtain r t where run: "k_poll env iv to True cond ?s = (r, t)" by force
  with assms(1) have "poll_run cond ?s r t" by (simp add: poll_ok_def)
  from poll_run_inv [OF this assms(2-4)] assms(5) [OF \<open>P s\<close>]
  have "case r of Ok _ \<Rightarrow> Q t | Err e \<Rightarrow> E e t | Panic p \<Rightarrow> False" by blast
  with run show "case poll_until env iv to cond s of (Ok x, t) \<Rightarrow> Q t | (Err e, t) \<Rightarrow> E e t | (Panic p, t) \<Rightarrow> False"
    by (simp add: poll_until_run split: out.splits)
qed

section \<open>What was changed outside\<close>

text \<open>The calls made so far that change something.\<close>

definition mutations :: "'w st \<Rightarrow> event list" where
  "mutations s = filter (\<lambda>e. \<not> quiet e) (trace s)"

lemma mutations_simps [simp]:
  "mutations (s\<lparr>world := w\<rparr>) = mutations s"
  "mutations (s\<lparr>obj := x\<rparr>) = mutations s"
  "mutations (s\<lparr>seen := b\<rparr>) = mutations s"
  "mutations (s\<lparr>pv_name := n\<rparr>) = mutations s"
  "mutations (s\<lparr>trace := trace s @ [ev]\<rparr>) = mutations s @ (if quiet ev then [] else [ev])"
  "mutations (s\<lparr>world := w, trace := trace s @ [ev]\<rparr>) = mutations s @ (if quiet ev then [] else [ev])"
  by (simp_all add: mutations_def)

lemma emits_mutations: "emits A s t \<Longrightarrow> \<exists>ms. mutations t = mutations s @ ms \<and> (\<forall>e \<in> set ms. A e)"
  by (fastforce simp: emits_def mutations_def)

lemma acts_quiet_mutations: "acts (\<lambda>_. False) s t \<Longrightarrow> obj t = obj s \<and> mutations t = mutations s"
  by (auto simp: acts_def emits_def mutations_def)

text \<open>One call: it is made, and its value is an answer of the server.\<close>

lemma triple_call:
  assumes "\<And>s x w. P s \<Longrightarrow> f (world s) = (Inr x, w) \<Longrightarrow> Q x (s\<lparr>world := w, trace := trace s @ [ev]\<rparr>)"
    and "\<And>s e w. P s \<Longrightarrow> E e (s\<lparr>world := w, trace := trace s @ [ev]\<rparr>)"
  shows "triple P (api ev f) Q E"
  using assms by (auto simp: triple_def api_run split: prod.splits sum.splits)

section \<open>Functions that leave the resource alone\<close>

text \<open>
  \<open>stands r A M s\<close>: the resource is \<open>r\<close>, and after the calls \<open>M\<close> every change made is in
  \<open>A\<close>.
\<close>

definition did :: "(event \<Rightarrow> bool) \<Rightarrow> event list \<Rightarrow> 'w st \<Rightarrow> bool" where
  "did A M s \<longleftrightarrow> (\<exists>ms. mutations s = M @ ms \<and> (\<forall>e \<in> set ms. A e))"

definition stands :: "ebs_snapshot_restore \<Rightarrow> (event \<Rightarrow> bool) \<Rightarrow> event list \<Rightarrow> 'w st \<Rightarrow> bool" where
  "stands r A M s \<longleftrightarrow> obj s = r \<and> did A M s"

lemma did_start [simp]: "mutations s = M \<Longrightarrow> did A M s"
  by (simp add: did_def)

lemma did_more: "did A M s \<Longrightarrow> mutations t = mutations s @ ms \<Longrightarrow> \<forall>e \<in> set ms. A e \<Longrightarrow> did A M t"
  by (auto simp: did_def)

lemma did_trans: "did A M s \<Longrightarrow> did A (mutations s) t \<Longrightarrow> did A M t"
  by (auto simp: did_def)

lemma did_mono: "did A M s \<Longrightarrow> (\<And>e. A e \<Longrightarrow> B e) \<Longrightarrow> did B M s"
  by (auto simp: did_def)

lemma stands_simps [simp]:
  "stands r A M (s\<lparr>world := w\<rparr>) = stands r A M s"
  "stands r A M (s\<lparr>seen := b\<rparr>) = stands r A M s"
  "stands r A M (s\<lparr>pv_name := n\<rparr>) = stands r A M s"
  by (simp_all add: stands_def did_def)

lemma stands_event:
  "stands r A M s \<Longrightarrow> quiet ev \<or> A ev \<Longrightarrow> stands r A M (s\<lparr>trace := trace s @ [ev]\<rparr>)"
  "stands r A M s \<Longrightarrow> quiet ev \<or> A ev \<Longrightarrow> stands r A M (s\<lparr>world := w, trace := trace s @ [ev]\<rparr>)"
  by (auto simp: stands_def did_def)

lemma stands_call: "quiet ev \<or> A ev \<Longrightarrow>
    triple (stands r A M) (api ev f) (\<lambda>x s. (\<exists>w w'. f w = (Inr x, w')) \<and> stands r A M s) (\<lambda>_. stands r A M)"
  by (rule triple_call) (auto intro: stands_event)

lemma stands_do: "quiet ev \<or> A ev \<Longrightarrow> triple (stands r A M) (api ev f) (\<lambda>_. stands r A M) (\<lambda>_. stands r A M)"
  by (rule triple_call) (auto intro: stands_event)

lemma stands_try: "quiet ev \<or> A ev \<Longrightarrow> triple (stands r A M) (attempt (api ev f)) (\<lambda>_. stands r A M) E"
  by (rule triple_attempt [OF triple_post [OF stands_do]]) simp_all

lemma stands_poll:
  assumes "poll_ok env"
    and "triple (stands r A M) cond (\<lambda>_. stands r A M) (\<lambda>_. stands r A M)"
  shows "triple (stands r A M) (poll_until env iv to cond) (\<lambda>_. stands r A M) (\<lambda>_. stands r A M)"
  by (rule triple_poll [OF assms(1) triple_post [OF assms(2)]]) (auto intro: stands_event)

lemma stands_sleep: "triple (stands r A M) (time_sleep env d) (\<lambda>_. stands r A M) E"
  by (auto simp: triple_def time_sleep_run intro: stands_event)

text \<open>A function that starts anywhere, started in the middle of a run.\<close>

lemma stands_from:
  assumes "\<And>M. triple (stands r B M) m (\<lambda>_. stands r B M) (\<lambda>_. stands r B M)" and "\<And>e. B e \<Longrightarrow> A e"
  shows "triple (stands r A M) m (\<lambda>_. stands r A M) (\<lambda>_. stands r A M)"
proof (rule tripleI)
  fix s :: "'a st" assume s: "stands r A M s"
  then have pre: "stands r B (mutations s) s" by (simp add: stands_def)
  have post: "stands r A M t" if "stands r B (mutations s) t" for t
    using s that did_trans [where A = A] did_mono [where B = A and A = B] assms(2)
    unfolding stands_def by metis
  obtain x t where run: "m s = (x, t)" by force
  show "case m s of (Ok x, t) \<Rightarrow> stands r A M t | (Err e, t) \<Rightarrow> stands r A M t | (Panic p, t) \<Rightarrow> False"
    using run post triple_okD [OF assms(1) pre] triple_errD [OF assms(1) pre] triple_no_panic [OF assms(1) pre]
    by (cases x) auto
qed

section \<open>Calls never panic\<close>

lemma calm_world:
  "calm (api ev f)" "calm (log_event ev)" "calm (time_now env)" "calm (time_sleep env d)"
  "calm (range_keys env m)" "calm (range_map env m)"
  by (auto simp: calm_def api_run log_event_run time_now_run time_sleep_run range_keys_def range_map_def
      gets_apply gbind_apply gret_apply split: prod.splits sum.splits)

lemma poll_run_calm: "poll_run cond s r t \<Longrightarrow> calm cond \<Longrightarrow> r \<noteq> Panic p"
  by (induction rule: poll_run.induct) (auto simp: calm_def)

lemma calm_poll: "poll_ok env \<Longrightarrow> calm cond \<Longrightarrow> calm (poll_until env iv to cond)"
  unfolding calm_def [of "poll_until env iv to cond"] poll_until_run poll_ok_def
  by (meson poll_run_calm)

lemma calm_group:
  assumes "group_ok env" and "\<And>p. p \<in> set ps \<Longrightarrow> pcalm p"
  shows "calm (k_group env ps)"
  unfolding calm_def
proof (intro allI notI)
  fix s m t assume "k_group env ps s = (Panic m, t)"
  then have "group_run ps (foldl note_error None ps) s (Panic m) t" using assms(1) unfolding group_ok_def by blast
  from group_run_calm [OF this] assms(2) show False by blast
qed

lemmas calm_api_rules = calm_rules calm_world

end
