(* ===== verification/Status_Manager.thy ===== *)
theory Status_Manager
  imports Kube
begin

text \<open>
  \<open>internal/status\<close>: every change of the custom resource's status goes through \<open>Patch\<close>,
  which applies a mutation to a copy, stops when nothing changed, and otherwise stores the
  new status in the object and sends it to the API server.  The setters are the mutations;
  the locale \<open>status_setter\<close> is the contract the other packages rely on, and each setter
  interprets it.
\<close>

abbreviation the_status :: "'w st \<Rightarrow> restore_status" where
  "the_status s \<equiv> esr_status (obj s)"

abbreviation the_plan :: "'w st \<Rightarrow> string \<Rightarrow> restore_plan_status option" where
  "the_plan s k \<equiv> plan_status (the_status s) k"

section \<open>Patch\<close>

text \<open>
  \<open>Status().Patch(ctx, obj, MergeFrom(oldObj))\<close>: \<open>obj\<close> already holds the new status when
  the request is made; the server's answer is decoded into \<open>obj\<close>.
\<close>

definition send_status :: "'w env \<Rightarrow> ebs_snapshot_restore \<Rightarrow> ebs_snapshot_restore \<Rightarrow> ('w st, unit) go" where
  "send_status env oldObj newObj =
     gbind (modify (\<lambda>s. s\<lparr>obj := newObj\<rparr>)) (\<lambda>_.
     gbind (api (EPatchStatus newObj) (k_patch_status env oldObj newObj)) (\<lambda>answer.
     modify (\<lambda>s. s\<lparr>obj := answer\<rparr>)))"

definition patch :: "'w env \<Rightarrow> (restore_status \<Rightarrow> restore_status out) \<Rightarrow> ('w st, unit) go" where
  "patch env mutate =
     gbind (gets obj) (\<lambda>oldObj.
     gbind (lift_out (mutate (esr_status oldObj))) (\<lambda>after.
     if k_cmp_equal env (esr_status oldObj) after then gret ()
     else gbind (time_now env) (\<lambda>now.
       send_status env oldObj (oldObj\<lparr>esr_status := after\<lparr>rs_lastUpdated := Some now\<rparr>\<rparr>))))"

section \<open>The mutations\<close>

definition ensure_plans :: "restore_status \<Rightarrow> restore_status" where
  "ensure_plans st = (if rs_restorePlans st = None then st\<lparr>rs_restorePlans := make_map\<rparr> else st)"

definition plan_or_zero :: "restore_status \<Rightarrow> string \<Rightarrow> restore_plan_status" where
  "plan_or_zero st k = (case gm_get (rs_restorePlans st) k of None \<Rightarrow> zero_plan_status | Some p \<Rightarrow> p)"

definition assign_plan :: "restore_status \<Rightarrow> string \<Rightarrow> restore_plan_status \<Rightarrow> restore_status out" where
  "assign_plan st k p = (case gm_set (rs_restorePlans st) k p of
      Ok m \<Rightarrow> Ok (st\<lparr>rs_restorePlans := m\<rparr>) | Err e \<Rightarrow> Err e | Panic q \<Rightarrow> Panic q)"

definition mutate_init :: "restore_status \<Rightarrow> restore_status out" where
  "mutate_init st = Ok ((ensure_plans st)\<lparr>rs_phase := PhaseIdle\<rparr>)"

definition mutate_validate ::
  "string \<Rightarrow> string \<Rightarrow> bool \<Rightarrow> restore_target_status list \<Rightarrow> restore_target_status list \<Rightarrow>
   restore_status \<Rightarrow> restore_status out" where
  "mutate_validate planName snapshotRestoreTime lock clusters operators st0 =
     (let st = ensure_plans st0; existsPlan = plan_or_zero st planName
      in assign_plan st planName (existsPlan\<lparr>rps_lock := lock,
           rps_snapshotRestoreTime := snapshotRestoreTime,
           rps_clusters := clusters, rps_operators := operators\<rparr>))"

definition mutate_scale ::
  "string \<Rightarrow> int \<Rightarrow> restore_target_status list \<Rightarrow> restore_target_status list \<Rightarrow>
   restore_status \<Rightarrow> restore_status out" where
  "mutate_scale planName countScaleUp clusters operators st0 =
     (let st = ensure_plans st0; existsPlan = plan_or_zero st planName
      in assign_plan st planName (existsPlan\<lparr>rps_clusters := clusters,
           rps_operators := operators, rps_countScaleUp := countScaleUp\<rparr>))"

definition mutate_restore ::
  "string \<Rightarrow> bool \<Rightarrow> restore_target_status list \<Rightarrow> restore_target_status list \<Rightarrow>
   restore_status \<Rightarrow> restore_status out" where
  "mutate_restore planName lock clusters operators st0 =
     (let st = ensure_plans st0; existsPlan = plan_or_zero st planName
      in assign_plan st planName (existsPlan\<lparr>rps_clusters := clusters,
           rps_operators := operators, rps_lock := lock\<rparr>))"

text \<open>The loop over \<open>plan.Hooks\<close>: the list with the first match replaced, if there is one.\<close>

fun replace_hook :: "restore_hook_status \<Rightarrow> restore_hook_status list \<Rightarrow> restore_hook_status list option" where
  "replace_hook hook [] = None"
| "replace_hook hook (h # hs) =
     (if rhs_name h = rhs_name hook \<and> rhs_event h = rhs_event hook then Some (hook # hs)
      else map_option ((#) h) (replace_hook hook hs))"

definition mutate_hooks :: "string \<Rightarrow> restore_hook_status \<Rightarrow> restore_status \<Rightarrow> restore_status out" where
  "mutate_hooks planName hook st0 =
     (let st = ensure_plans st0; plan = plan_or_zero st planName
      in case replace_hook hook (rps_hooks plan) of
           Some hs \<Rightarrow> assign_plan st planName (plan\<lparr>rps_hooks := hs\<rparr>)
         | None \<Rightarrow> assign_plan st planName (plan\<lparr>rps_hooks := rps_hooks plan @ [hook]\<rparr>))"

section \<open>The setters\<close>

definition set_init_status_restore_plan :: "'w env \<Rightarrow> ('w st, unit) go" where
  "set_init_status_restore_plan env = patch env mutate_init"

definition set_phase :: "'w env \<Rightarrow> restore_phase \<Rightarrow> ('w st, unit) go" where
  "set_phase env phase = patch env (\<lambda>st. Ok (st\<lparr>rs_phase := phase\<rparr>))"

definition set_active_plan :: "'w env \<Rightarrow> string \<Rightarrow> ('w st, unit) go" where
  "set_active_plan env activePlan = patch env (\<lambda>st. Ok (st\<lparr>rs_activePlan := activePlan\<rparr>))"

definition set_validate_restore_plan ::
  "'w env \<Rightarrow> string \<Rightarrow> string \<Rightarrow> bool \<Rightarrow> restore_target_status list \<Rightarrow> restore_target_status list \<Rightarrow>
   ('w st, unit) go" where
  "set_validate_restore_plan env planName snapshotRestoreTime lock clusters operators =
     patch env (mutate_validate planName snapshotRestoreTime lock clusters operators)"

definition set_scale_restore_plan ::
  "'w env \<Rightarrow> string \<Rightarrow> int \<Rightarrow> restore_target_status list \<Rightarrow> restore_target_status list \<Rightarrow> ('w st, unit) go" where
  "set_scale_restore_plan env planName countScaleUp clusters operators =
     patch env (mutate_scale planName countScaleUp clusters operators)"

definition set_restore_from_plan ::
  "'w env \<Rightarrow> string \<Rightarrow> bool \<Rightarrow> restore_target_status list \<Rightarrow> restore_target_status list \<Rightarrow> ('w st, unit) go" where
  "set_restore_from_plan env planName lock clusters operators =
     patch env (mutate_restore planName lock clusters operators)"

definition set_hooks_restore_from_plan :: "'w env \<Rightarrow> string \<Rightarrow> restore_hook_status \<Rightarrow> ('w st, unit) go" where
  "set_hooks_restore_from_plan env planName hook = patch env (mutate_hooks planName hook)"

section \<open>What the mutations compute\<close>

text \<open>
  The abstract view of the plans is a map; an update of one plan is an update of that map,
  starting from the zero plan when the key is new.
\<close>

definition put_plan :: "string \<Rightarrow> (restore_plan_status \<Rightarrow> restore_plan_status) \<Rightarrow> restore_status \<Rightarrow> restore_status" where
  "put_plan k f st0 =
     (let st = ensure_plans st0
      in case rs_restorePlans st of
           None \<Rightarrow> st
         | Some al \<Rightarrow> st\<lparr>rs_restorePlans := Some ((k, f (plan_or_zero st k)) # filter (\<lambda>b. fst b \<noteq> k) al)\<rparr>)"

definition upsert_hook :: "restore_hook_status \<Rightarrow> restore_hook_status list \<Rightarrow> restore_hook_status list" where
  "upsert_hook hook hs = (case replace_hook hook hs of Some hs' \<Rightarrow> hs' | None \<Rightarrow> hs @ [hook])"

lemma ensure_plans_simps [simp]:
  "rs_phase (ensure_plans st) = rs_phase st"
  "rs_activePlan (ensure_plans st) = rs_activePlan st"
  "rs_restorePlans (ensure_plans st) \<noteq> None"
  "plan_status (ensure_plans st) = plan_status st"
  by (simp_all add: ensure_plans_def plan_status_def make_map_def fun_eq_iff)

lemma plan_or_zero_eq: "plan_or_zero st k = (case plan_status st k of None \<Rightarrow> zero_plan_status | Some p \<Rightarrow> p)"
  by (simp add: plan_or_zero_def plan_status_def)

lemma assign_ensure:
  assumes "f (plan_or_zero (ensure_plans st) k) = p"
  shows "assign_plan (ensure_plans st) k p = Ok (put_plan k f st)"
proof -
  obtain al where "rs_restorePlans (ensure_plans st) = Some al"
    using ensure_plans_simps(3) by blast
  with assms show ?thesis by (simp add: assign_plan_def put_plan_def Let_def)
qed

lemma put_plan_simps [simp]:
  "rs_phase (put_plan k f st) = rs_phase st"
  "rs_activePlan (put_plan k f st) = rs_activePlan st"
  by (simp_all add: put_plan_def Let_def split: option.splits)

lemma plan_status_put_plan:
  "plan_status (put_plan k f st) =
     (plan_status st)(k \<mapsto> f (case plan_status st k of None \<Rightarrow> zero_plan_status | Some p \<Rightarrow> p))"
proof -
  obtain al where al: "rs_restorePlans (ensure_plans st) = Some al"
    using ensure_plans_simps(3) by blast
  then have "plan_status st x = map_of al x" for x
    using ensure_plans_simps(4) [of st] by (metis gm_get_Some plan_status_def)
  with al show ?thesis
    by (auto simp: put_plan_def Let_def map_of_filter_neq plan_or_zero_eq fun_eq_iff)
qed

lemma mutate_validate_eq:
  "mutate_validate k t l cs os st = Ok (put_plan k (\<lambda>p. p\<lparr>rps_lock := l, rps_snapshotRestoreTime := t,
     rps_clusters := cs, rps_operators := os\<rparr>) st)"
  unfolding mutate_validate_def Let_def by (rule assign_ensure) simp

lemma mutate_scale_eq:
  "mutate_scale k n cs os st = Ok (put_plan k (\<lambda>p. p\<lparr>rps_clusters := cs, rps_operators := os,
     rps_countScaleUp := n\<rparr>) st)"
  unfolding mutate_scale_def Let_def by (rule assign_ensure) simp

lemma mutate_restore_eq:
  "mutate_restore k l cs os st = Ok (put_plan k (\<lambda>p. p\<lparr>rps_clusters := cs, rps_operators := os,
     rps_lock := l\<rparr>) st)"
  unfolding mutate_restore_def Let_def by (rule assign_ensure) simp

lemma mutate_hooks_eq:
  "mutate_hooks k h st = Ok (put_plan k (\<lambda>p. p\<lparr>rps_hooks := upsert_hook h (rps_hooks p)\<rparr>) st)"
  unfolding mutate_hooks_def Let_def
  by (auto simp: upsert_hook_def intro!: assign_ensure split: option.split)

lemmas mutate_eqs = mutate_validate_eq mutate_scale_eq mutate_restore_eq mutate_hooks_eq

section \<open>The contract of a setter\<close>

text \<open>
  \<open>written f s t\<close>: the status was changed by \<open>f\<close>, nothing else of the resource was, and at
  most one request was sent, carrying the status that is now in memory, none when it is the old one.
\<close>

definition written :: "(restore_status \<Rightarrow> restore_status) \<Rightarrow> 'w st \<Rightarrow> 'w st \<Rightarrow> bool" where
  "written f s t \<longleftrightarrow> obj t = (obj s)\<lparr>esr_status := the_status t\<rparr>
     \<and> status_equiv (the_status t) (f (the_status s))
     \<and> (trace t = trace s \<and> obj t = obj s \<or> trace t = trace s @ [EPatchStatus (obj t)])"

definition status_env :: "'w env \<Rightarrow> bool" where
  "status_env env \<longleftrightarrow> cmp_ok env \<and> patch_echo env"

text \<open>No status patch is ever refused.\<close>

definition patches_succeed :: "'w env \<Rightarrow> bool" where
  "patches_succeed env \<longleftrightarrow> (\<forall>old new w. \<exists>x w'. k_patch_status env old new w = (Inr x, w'))"

text \<open>What is left to say of a setter's error: it is the error of a refused patch.\<close>

abbreviation refused :: "'w env \<Rightarrow> goerr \<Rightarrow> 'w st \<Rightarrow> bool" where
  "refused env \<equiv> \<lambda>e s. \<not> patches_succeed env"

fun is_status_patch :: "event \<Rightarrow> bool" where
  "is_status_patch (EPatchStatus new) = True"
| "is_status_patch _ = False"

text \<open>The changes of claims.\<close>

fun claim_call :: "event \<Rightarrow> bool" where
  "claim_call (EDeletePVC x) = True"
| "claim_call (ECreatePVC x) = True"
| "claim_call (EPatchPVC x) = True"
| "claim_call e = False"

lemma written_evolves: "written f s t \<Longrightarrow> A (EPatchStatus (obj t)) \<Longrightarrow> evolves A s t"
  by (auto simp: written_def evolves_def intro: emits_snoc)

lemma writtenD:
  assumes "written f s t"
  shows "rs_phase (the_status t) = rs_phase (f (the_status s))"
    and "rs_activePlan (the_status t) = rs_activePlan (f (the_status s))"
    and "the_plan t = plan_status (f (the_status s))"
    and "esr_spec (obj t) = esr_spec (obj s)"
proof -
  from assms have "obj t = (obj s)\<lparr>esr_status := the_status t\<rparr>" by (simp add: written_def)
  then show "esr_spec (obj t) = esr_spec (obj s)"
    by (metis ebs_snapshot_restore.ext_inject ebs_snapshot_restore.surjective ebs_snapshot_restore.update_convs(5))
qed (use assms in \<open>auto simp: written_def dest: status_equivD\<close>)

lemma written_facts:
  "written f s t \<Longrightarrow> esr_spec (obj t) = esr_spec (obj s) \<and> rs_phase (the_status t) = rs_phase (f (the_status s))
     \<and> the_plan t = plan_status (f (the_status s))"
  by (simp add: writtenD)

locale status_setter =
  fixes setter :: "'w env \<Rightarrow> ('w st, unit) go"
    and effect :: "restore_status \<Rightarrow> restore_status"
  assumes effect_cong: "status_equiv a b \<Longrightarrow> status_equiv (effect a) (effect b)"
    and writes: "status_env env \<Longrightarrow> setter env s = (r, t) \<Longrightarrow>
        written effect s t \<and> (\<forall>p. r \<noteq> Panic p) \<and> (patches_succeed env \<longrightarrow> r = Ok ())"
    and skips: "cmp_ok env \<Longrightarrow> status_equiv (the_status s) (effect (the_status s)) \<Longrightarrow> setter env s = (Ok (), s)"
begin

lemma rule:
  assumes "status_env env" and "\<And>s t. P s \<Longrightarrow> written effect s t \<Longrightarrow> Q () t"
    and "\<And>s t e. P s \<Longrightarrow> written effect s t \<Longrightarrow> \<not> patches_succeed env \<Longrightarrow> E e t"
  shows "triple P (setter env) Q E"
proof (rule tripleI)
  fix s assume P: "P s"
  obtain r t where run: "setter env s = (r, t)" by force
  from writes [OF assms(1) run] have w: "written effect s t" and np: "\<forall>p. r \<noteq> Panic p"
    and ok: "patches_succeed env \<longrightarrow> r = Ok ()" by simp_all
  show "case setter env s of (Ok x, t) \<Rightarrow> Q x t | (Err e, t) \<Rightarrow> E e t | (Panic p, t) \<Rightarrow> False"
    using run np ok assms(2,3) [OF P w] by (cases r) auto
qed

lemma sp: "status_env env \<Longrightarrow>
    triple P (setter env) (\<lambda>_ t. \<exists>s. P s \<and> written effect s t) (refused env)"
  by (rule rule) blast+

lemma spe: "status_env env \<Longrightarrow>
    triple P (setter env) (\<lambda>_ t. \<exists>s. P s \<and> written effect s t)
      (\<lambda>_ t. (\<exists>s. P s \<and> written effect s t) \<and> \<not> patches_succeed env)"
  by (rule rule) blast+

lemma evolves:
  assumes "status_env env" and "\<And>new. A (EPatchStatus new)"
  shows "keeps (evolves A) (setter env)"
  unfolding keeps_def
proof
  fix s
  obtain r t where run: "setter env s = (r, t)" by force
  from writes [OF assms(1) run] have "written effect s t" by simp
  with run assms(2) show "evolves A s (snd (setter env s))" by (auto intro: written_evolves)
qed

lemma repeated:
  assumes "status_env env" and "setter env s = (r, t)"
    and idem: "\<And>st. status_equiv (effect st) (effect (effect st))"
  shows "setter env t = (Ok (), t)"
proof (rule skips)
  show "cmp_ok env" using assms(1) by (simp add: status_env_def)
  from writes [OF assms(1,2)] have w: "status_equiv (the_status t) (effect (the_status s))"
    by (simp add: written_def)
  then have "status_equiv (effect (the_status t)) (effect (effect (the_status s)))" by (rule effect_cong)
  with w idem [of "the_status s"] show "status_equiv (the_status t) (effect (the_status t))"
    by (simp add: status_equiv_iff)
qed

end

lemma patch_echoD: "patch_echo env \<Longrightarrow> k_patch_status env old new w = (Inr x, w') \<Longrightarrow> x = new"
  unfolding patch_echo_def by blast

lemma send_status_run:
  assumes "patch_echo env" and "send_status env old new s = (r, t)"
  shows "obj t = new \<and> trace t = trace s @ [EPatchStatus new] \<and> (\<forall>p. r \<noteq> Panic p)
    \<and> (patches_succeed env \<longrightarrow> r = Ok ())"
proof (cases "k_patch_status env old new (world s)")
  case (Pair a w)
  moreover have "\<not> patches_succeed env" if "a = Inl e" for e
    using that Pair unfolding patches_succeed_def by (metis Pair_inject sum.distinct(1))
  ultimately show ?thesis
    using assms by (cases a) (auto simp: send_status_def go_run dest: patch_echoD [OF assms(1)])
qed

lemma patch_writes:
  assumes "status_env env" and "patch env mutate s = (r, t)"
    and "mutate (the_status s) = Ok after" and "status_equiv after (f (the_status s))"
  shows "written f s t \<and> (\<forall>p. r \<noteq> Panic p) \<and> (patches_succeed env \<longrightarrow> r = Ok ())"
proof (cases "k_cmp_equal env (the_status s) after")
  case True
  with assms have "status_equiv (the_status s) after" by (simp add: status_env_def cmp_ok_def)
  with True assms show ?thesis
    by (auto simp: patch_def written_def gbind_apply gets_apply lift_out_apply gret_apply
        intro: status_equiv_trans)
next
  case False
  have eq: "status_equiv (after\<lparr>rs_lastUpdated := now\<rparr>) (f (the_status s))" for now
    using assms(4) by (simp add: status_equiv_iff)
  obtain now w where now: "k_now env (world s) = (now, w)" by force
  let ?new = "(obj s)\<lparr>esr_status := after\<lparr>rs_lastUpdated := Some now\<rparr>\<rparr>"
  from False assms(2,3) now have "send_status env (obj s) ?new (s\<lparr>world := w\<rparr>) = (r, t)"
    by (simp add: patch_def go_run)
  with assms(1) have "obj t = ?new \<and> trace t = trace s @ [EPatchStatus ?new] \<and> (\<forall>p. r \<noteq> Panic p)
      \<and> (patches_succeed env \<longrightarrow> r = Ok ())"
    using send_status_run by (fastforce simp: status_env_def)
  with eq show ?thesis by (simp add: written_def)
qed

lemma patch_skips:
  assumes "cmp_ok env" and "mutate (the_status s) = Ok after" and "status_equiv (the_status s) after"
  shows "patch env mutate s = (Ok (), s)"
  using assms by (simp add: patch_def cmp_ok_def go_run)

text \<open>Every mutation that always succeeds with an effect on the abstract status is a setter.\<close>

lemma patch_setter:
  assumes "\<And>st. mutate st = Ok (f st)" and "\<And>a b. status_equiv a b \<Longrightarrow> status_equiv (f a) (f b)"
  shows "status_setter (\<lambda>env. patch env mutate) f"
proof
  fix env :: "'a env" and s t :: "'a st" and r
  assume "status_env env" and "patch env mutate s = (r, t)"
  then show "written f s t \<and> (\<forall>p. r \<noteq> Panic p) \<and> (patches_succeed env \<longrightarrow> r = Ok ())"
    by (rule patch_writes [where after = "f (the_status s)"]) (simp_all add: assms(1))
next
  fix env :: "'a env" and s :: "'a st"
  assume "cmp_ok env" and "status_equiv (the_status s) (f (the_status s))"
  then show "patch env mutate s = (Ok (), s)" by (simp add: patch_skips assms(1))
qed (rule assms(2))

lemma put_plan_cong: "status_equiv a b \<Longrightarrow> status_equiv (put_plan k f a) (put_plan k f b)"
  by (simp add: status_equiv_iff plan_status_put_plan)

interpretation init: status_setter set_init_status_restore_plan "\<lambda>st. st\<lparr>rs_phase := PhaseIdle\<rparr>"
proof
  fix env :: "'a env" and s t :: "'a st" and r
  assume "status_env env" and "set_init_status_restore_plan env s = (r, t)"
  then show "written (\<lambda>st. st\<lparr>rs_phase := PhaseIdle\<rparr>) s t \<and> (\<forall>p. r \<noteq> Panic p)
      \<and> (patches_succeed env \<longrightarrow> r = Ok ())"
    unfolding set_init_status_restore_plan_def
    by (rule patch_writes [where after = "(ensure_plans (the_status s))\<lparr>rs_phase := PhaseIdle\<rparr>"])
      (simp_all add: mutate_init_def status_equiv_iff)
next
  fix env :: "'a env" and s :: "'a st"
  assume "cmp_ok env" and "status_equiv (the_status s) ((the_status s)\<lparr>rs_phase := PhaseIdle\<rparr>)"
  then show "set_init_status_restore_plan env s = (Ok (), s)"
    unfolding set_init_status_restore_plan_def
    by (intro patch_skips [where after = "(ensure_plans (the_status s))\<lparr>rs_phase := PhaseIdle\<rparr>"])
      (auto simp: mutate_init_def status_equiv_iff)
qed (simp add: status_equiv_iff)

interpretation phase: status_setter "\<lambda>env. set_phase env p" "\<lambda>st. st\<lparr>rs_phase := p\<rparr>" for p
  unfolding set_phase_def by (rule patch_setter) (simp_all add: status_equiv_iff)

interpretation active: status_setter "\<lambda>env. set_active_plan env a" "\<lambda>st. st\<lparr>rs_activePlan := a\<rparr>" for a
  unfolding set_active_plan_def by (rule patch_setter) (simp_all add: status_equiv_iff)

interpretation validated: status_setter "\<lambda>env. set_validate_restore_plan env k t l cs os"
    "put_plan k (\<lambda>p. p\<lparr>rps_lock := l, rps_snapshotRestoreTime := t, rps_clusters := cs, rps_operators := os\<rparr>)"
  for k t l cs os
  unfolding set_validate_restore_plan_def by (rule patch_setter) (simp_all add: mutate_eqs put_plan_cong)

interpretation scaled: status_setter "\<lambda>env. set_scale_restore_plan env k n cs os"
    "put_plan k (\<lambda>p. p\<lparr>rps_clusters := cs, rps_operators := os, rps_countScaleUp := n\<rparr>)"
  for k n cs os
  unfolding set_scale_restore_plan_def by (rule patch_setter) (simp_all add: mutate_eqs put_plan_cong)

interpretation restored: status_setter "\<lambda>env. set_restore_from_plan env k l cs os"
    "put_plan k (\<lambda>p. p\<lparr>rps_clusters := cs, rps_operators := os, rps_lock := l\<rparr>)"
  for k l cs os
  unfolding set_restore_from_plan_def by (rule patch_setter) (simp_all add: mutate_eqs put_plan_cong)

interpretation hooked: status_setter "\<lambda>env. set_hooks_restore_from_plan env k h"
    "put_plan k (\<lambda>p. p\<lparr>rps_hooks := upsert_hook h (rps_hooks p)\<rparr>)"
  for k h
  unfolding set_hooks_restore_from_plan_def by (rule patch_setter) (simp_all add: mutate_eqs put_plan_cong)

lemmas setter_evolves = init.evolves phase.evolves active.evolves validated.evolves scaled.evolves
  restored.evolves hooked.evolves

section \<open>Giving up\<close>

text \<open>
  What an error leaves that the code records before it returns: only changes in \<open>A\<close> were
  made, the spec is as it was, and the phase is \<open>Failed\<close> unless the API server refused it.
\<close>

definition gave_up ::
  "'w env \<Rightarrow> (event \<Rightarrow> bool) \<Rightarrow> event list \<Rightarrow> ebs_snapshot_restore \<Rightarrow> 'w st \<Rightarrow> bool" where
  "gave_up env A M r s \<longleftrightarrow> did A M s \<and> esr_spec (obj s) = esr_spec r
     \<and> (patches_succeed env \<longrightarrow> o_phase (obj s) = PhaseFailed)"

lemma did_written:
  assumes "did A M s" and "written f s t" and "\<And>new. A (EPatchStatus new)"
  shows "did A M t"
proof -
  have "mutations t = mutations s \<or> mutations t = mutations s @ [EPatchStatus (obj t)]"
    using assms(2) by (auto simp: written_def mutations_def)
  then show ?thesis
    using assms(1,3) did_more [of A M s t "[]"] did_more [of A M s t "[EPatchStatus (obj t)]"] by auto
qed

context status_setter
begin

lemma give_up:
  assumes env: "status_env env" and A: "\<And>new. A (EPatchStatus new)"
  shows "triple (stands r A M) (gbind (setter env) (\<lambda>_. gbind (set_phase env PhaseFailed) (\<lambda>_. gthrow err)))
     Q (\<lambda>_. gave_up env A M r)"
proof (rule triple_seq [OF spe [OF env]])
  let ?W = "\<lambda>s. \<exists>s0. stands r A M s0 \<and> written effect s0 s"
  have W: "esr_spec (obj s) = esr_spec r \<and> did A M s" if "?W s" for s
    using that writtenD(4) did_written A unfolding stands_def by metis
  show "gave_up env A M r s" if "?W s \<and> \<not> patches_succeed env" for s
    using that W [OF conjunct1 [OF that]] by (simp add: gave_up_def)
  show "triple ?W (gbind (set_phase env PhaseFailed) (\<lambda>_. gthrow err)) Q (\<lambda>_. gave_up env A M r)"
  proof (rule triple_seq [OF phase.spe [OF env]])
    let ?V = "\<lambda>s. \<exists>s0. ?W s0 \<and> written (\<lambda>st. st\<lparr>rs_phase := PhaseFailed\<rparr>) s0 s"
    have V: "gave_up env A M r s" if v: "?V s" for s
    proof -
      from v obtain s0 where s0: "?W s0" "written (\<lambda>st. st\<lparr>rs_phase := PhaseFailed\<rparr>) s0 s" by blast
      from W [OF s0(1)] have "did A M s" using did_written [OF _ s0(2)] A by blast
      with W [OF s0(1)] writtenD(1,4) [OF s0(2)] show ?thesis by (simp add: gave_up_def)
    qed
    then show "gave_up env A M r s" if "?V s \<and> \<not> patches_succeed env" for s using that by blast
    show "triple ?V (gthrow err) Q (\<lambda>_. gave_up env A M r)" by (rule triple_gthrow) (rule V)
  qed
qed

end

end
