(* ===== verification/Validate.thy ===== *)
theory Validate
  imports Status_Manager
begin

text \<open>
  \<open>internal/validate\<close>: for every plan of the spec, find the snapshot time to restore (given,
  remembered from a locked plan, or the latest found), check its format, find the ready
  snapshot of every claim of every cluster, and record the result in the status.
\<close>

section \<open>Results for failed targets\<close>

definition append_failed ::
  "restore_target_status list \<Rightarrow> restore_target_status \<Rightarrow> goerr \<Rightarrow> restore_target_status list" where
  "append_failed statuses base err =
     statuses @ [base\<lparr>rts_phase := PhaseFailed, rts_error := err_text err\<rparr>]"

definition build_failed_clusters_status :: "restore_target list \<Rightarrow> goerr \<Rightarrow> restore_target_status list" where
  "build_failed_clusters_status clusters err =
     foldl (\<lambda>statuses cluster. append_failed statuses (zero_target_status\<lparr>
         rts_name := rt_name cluster, rts_namespace := rt_namespace cluster, rts_type := rt_type cluster,
         rts_currentReplicas := rt_replicas cluster, rts_originalReplicas := rt_replicas cluster\<rparr>) err)
       [] clusters"

section \<open>The format of a snapshot time\<close>

text \<open>
  \<open>time.Parse\<close> with the layout \<open>200601021504\<close>: four digits of year, two each of month, day,
  hour and minute, nothing after them, and a day that exists in its month.
\<close>

definition digit_value :: "char \<Rightarrow> nat option" where
  "digit_value c = (if CHR ''0'' \<le> c \<and> c \<le> CHR ''9'' then Some (of_char c - 48) else None)"

fun number_value :: "string \<Rightarrow> nat \<Rightarrow> nat option" where
  "number_value [] acc = Some acc"
| "number_value (c # cs) acc =
     (case digit_value c of None \<Rightarrow> None | Some d \<Rightarrow> number_value cs (10 * acc + d))"

definition is_leap :: "nat \<Rightarrow> bool" where
  "is_leap year \<longleftrightarrow> year mod 4 = 0 \<and> (year mod 100 \<noteq> 0 \<or> year mod 400 = 0)"

definition days_in :: "nat \<Rightarrow> nat \<Rightarrow> nat" where
  "days_in month year =
     (if month = 2 then (if is_leap year then 29 else 28)
      else if month \<in> {4, 6, 9, 11} then 30 else 31)"

definition in_range :: "nat \<Rightarrow> nat \<Rightarrow> nat \<Rightarrow> nat \<Rightarrow> nat \<Rightarrow> bool" where
  "in_range year month day hour minute \<longleftrightarrow>
     1 \<le> month \<and> month \<le> 12 \<and> 1 \<le> day \<and> day \<le> days_in month year \<and> hour < 24 \<and> minute < 60"

definition parse_snapshot_time :: "string \<Rightarrow> (nat \<times> nat \<times> nat \<times> nat \<times> nat) option" where
  "parse_snapshot_time s =
     (if length s \<noteq> 12 then None
      else case (number_value (take 4 s) 0, number_value (take 2 (drop 4 s)) 0,
                 number_value (take 2 (drop 6 s)) 0, number_value (take 2 (drop 8 s)) 0,
                 number_value (drop 10 s) 0) of
        (Some year, Some month, Some day, Some hour, Some minute) \<Rightarrow>
          if in_range year month day hour minute then Some (year, month, day, hour, minute) else None
      | _ \<Rightarrow> None)"

definition validate_snapshot_time :: "'w env \<Rightarrow> string \<Rightarrow> goerr option" where
  "validate_snapshot_time env s =
     (case parse_snapshot_time s of
        None \<Rightarrow> Some (Wrapf ''invalid snapshotRestoreTime format, expected YYYYMMDDHHMM''
                  (Errorf (k_parse_error env s)))
      | Some t \<Rightarrow> None)"

section \<open>Claims and snapshots of a cluster\<close>

text \<open>A map of strings as \<open>fmt\<close> prints it: keys in order.\<close>

fun join_spaces :: "string list \<Rightarrow> string" where
  "join_spaces [] = []"
| "join_spaces [x] = x"
| "join_spaces (x # xs) = x @ '' '' @ join_spaces xs"

definition format_labels :: "string gomap \<Rightarrow> string" where
  "format_labels m =
     ''map['' @ join_spaces (map (\<lambda>k. k @ '':'' @ the (gm_get m k)) (sort (gm_keys m))) @ '']''"

definition fetch_cluster_resources ::
  "'w env \<Rightarrow> restore_target \<Rightarrow> string \<Rightarrow> string \<Rightarrow> ('w st, pvc list \<times> volume_snapshot list) go" where
  "fetch_cluster_resources env cluster planName snapshotTime =
     (case rt_claimSelector cluster of
        None \<Rightarrow> gthrow (Errorf (''cluster '' @ rt_name cluster @ '' has no claimSelector''))
      | Some selector \<Rightarrow>
        gbind (lift_sum (k_selector env (Some selector))) (\<lambda>pvcSelector.
        gbind (api (EListPVC (rt_namespace cluster)) (k_list_pvc env (rt_namespace cluster) pvcSelector)) (\<lambda>pvcList.
        if pvcList = [] then
          gthrow (Errorf (''no PVCs found for cluster '' @ rt_name cluster @ '' in namespace ''
            @ rt_namespace cluster @ '' by selector '' @ format_labels (ls_matchLabels selector)
            @ '', check claimSelector in plan '' @ planName))
        else
        let listOpts = (if snapshotTime \<noteq> [] then [(''snapscheduler.backube/when'', snapshotTime)] else [])
        in gbind (api (EListVS (rt_namespace cluster)) (k_list_vs env (rt_namespace cluster) listOpts)) (\<lambda>vsList.
        gret (pvcList, vsList)))))"

abbreviation pvc_objName :: "pvc \<Rightarrow> string" where
  "pvc_objName p \<equiv> om_name (pvc_meta p)"

section \<open>Latest snapshot time\<close>

definition newer_when :: "string \<Rightarrow> string \<Rightarrow> volume_snapshot \<Rightarrow> string" where
  "newer_when prefix clusterLatestTime vs =
     (if \<not> has_prefix (vs_name vs) prefix then clusterLatestTime
      else let when = trim_prefix (vs_name vs) prefix
           in if clusterLatestTime < when then when else clusterLatestTime)"

definition cluster_latest_time :: "string \<Rightarrow> pvc list \<Rightarrow> volume_snapshot list \<Rightarrow> string" where
  "cluster_latest_time planName pvcList vsList =
     foldl (\<lambda>latest p. foldl (newer_when (pvc_objName p @ ''-'' @ planName @ ''-'')) latest vsList) [] pvcList"

fun find_latest_loop ::
  "'w env \<Rightarrow> string \<Rightarrow> restore_target list \<Rightarrow> string \<Rightarrow> restore_target_status list \<Rightarrow>
   ('w st, string \<times> restore_target_status list \<times> goerr option) go" where
  "find_latest_loop env planName [] latestTime clustersStatus = gret (latestTime, clustersStatus, None)"
| "find_latest_loop env planName (cluster # clusters) latestTime clustersStatus =
     (let clusterStatus = zero_target_status\<lparr>rts_name := rt_name cluster,
            rts_namespace := rt_namespace cluster, rts_type := rt_type cluster,
            rts_originalReplicas := rt_replicas cluster, rts_currentReplicas := rt_replicas cluster\<rparr>
      in gbind (attempt (fetch_cluster_resources env cluster planName [])) (\<lambda>res.
         case res of
           Inl err \<Rightarrow> gret ([], append_failed clustersStatus clusterStatus err, Some err)
         | Inr (pvcList, vsList) \<Rightarrow>
             let clusterLatestTime = cluster_latest_time planName pvcList vsList
             in if clusterLatestTime = [] then
                  let err = Errorf (''no snapshots found for cluster '' @ rt_name cluster @ '' in plan '' @ planName)
                  in gret ([], append_failed clustersStatus clusterStatus err, Some err)
                else find_latest_loop env planName clusters
                       (if latestTime < clusterLatestTime then clusterLatestTime else latestTime)
                       (clustersStatus @ [clusterStatus])))"

definition find_latest_snapshot_time ::
  "'w env \<Rightarrow> string \<Rightarrow> restore_target list \<Rightarrow>
   ('w st, string \<times> restore_target_status list \<times> goerr option) go" where
  "find_latest_snapshot_time env planName clusters = find_latest_loop env planName clusters [] []"

section \<open>Validation of one plan\<close>

text \<open>The two nested loops over snapshots and claims, with their early return.\<close>

definition snapshot_ready :: "volume_snapshot \<Rightarrow> bool" where
  "snapshot_ready vs \<longleftrightarrow> vs_status vs = Some (Some True)"

definition snapshot_ref :: "restore_target \<Rightarrow> volume_snapshot \<Rightarrow> pvc \<Rightarrow> restore_snapshot_ref" where
  "snapshot_ref cluster vs p =
     \<lparr>sr_pvcName = pvc_objName p,
      sr_pvcStorageClass = (case rt_pvcStorageClass cluster of
          Some c \<Rightarrow> if c \<noteq> [] then Some c else pvc_storageClassName p
        | None \<Rightarrow> pvc_storageClassName p),
      sr_snapshotUID = vs_uid vs,
      sr_snapshotName = vs_name vs,
      sr_skipRestoringPVC = (pvc_objName p \<in> set (rt_skipRestoringPVCs cluster))\<rparr>"

fun collect_refs ::
  "restore_target \<Rightarrow> string \<Rightarrow> string \<Rightarrow> (volume_snapshot \<times> pvc) list \<Rightarrow> restore_snapshot_ref list \<Rightarrow>
   goerr + restore_snapshot_ref list" where
  "collect_refs cluster planName t [] snapshotsRef = Inr snapshotsRef"
| "collect_refs cluster planName t ((vs, p) # rest) snapshotsRef =
     (if pvc_objName p @ ''-'' @ planName @ ''-'' @ t = vs_name vs then
        if \<not> snapshot_ready vs then Inl (Errorf (''snapshot '' @ vs_name vs @ '' is not ready to use''))
        else collect_refs cluster planName t rest (snapshotsRef @ [snapshot_ref cluster vs p])
      else collect_refs cluster planName t rest snapshotsRef)"

definition snapshot_pairs :: "volume_snapshot list \<Rightarrow> pvc list \<Rightarrow> (volume_snapshot \<times> pvc) list" where
  "snapshot_pairs vsList pvcList = concat (map (\<lambda>vs. map (Pair vs) pvcList) vsList)"

text \<open>One cluster: the status to append, with the error when it failed.\<close>

definition validate_cluster ::
  "'w env \<Rightarrow> string \<Rightarrow> string \<Rightarrow> restore_target \<Rightarrow> ('w st, restore_target_status \<times> goerr option) go" where
  "validate_cluster env planName t cluster =
     (let status0 = zero_target_status\<lparr>rts_name := rt_name cluster,
            rts_namespace := rt_namespace cluster, rts_type := rt_type cluster\<rparr>
      in gbind (attempt (api (EGetSTS (rt_name cluster) (rt_namespace cluster))
                          (k_get_sts env (rt_name cluster) (rt_namespace cluster)))) (\<lambda>res.
         case res of
           Inl err \<Rightarrow> gret (status0, Some err)
         | Inr sts \<Rightarrow>
             let status1 = status0\<lparr>rts_originalReplicas := rt_replicas cluster,
                   rts_currentReplicas := (case sts_replicas sts of Some n \<Rightarrow> n | None \<Rightarrow> 0),
                   rts_podManagementPolicy := (if sts_podManagementPolicy sts \<noteq> PolicyUnset
                      then sts_podManagementPolicy sts else PolicyUnset)\<rparr>
             in gbind (attempt (fetch_cluster_resources env cluster planName t)) (\<lambda>res2.
                case res2 of
                  Inl err \<Rightarrow> gret (status1, Some err)
                | Inr (pvcList, vsList) \<Rightarrow>
                    (case collect_refs cluster planName t (snapshot_pairs vsList pvcList) [] of
                       Inl err \<Rightarrow> gret (status1, Some err)
                     | Inr snapshotsRef \<Rightarrow>
                         if snapshotsRef = [] then
                           gret (status1, Some (Errorf (''no snapshots found in namespace ''
                             @ rt_namespace cluster @ '' by time '' @ t @ '' for plan '' @ planName
                             @ '', check snapshotRestoreTime'')))
                         else gret (status1\<lparr>rts_snapshotsRef := snapshotsRef,
                                      rts_phase := PhaseValidated\<rparr>, None)))))"

definition validate_operator ::
  "'w env \<Rightarrow> restore_target \<Rightarrow> ('w st, restore_target_status \<times> goerr option) go" where
  "validate_operator env operator =
     (let status0 = zero_target_status\<lparr>rts_name := rt_name operator,
            rts_namespace := rt_namespace operator, rts_type := rt_type operator\<rparr>
      in gbind (attempt (api (EGetDeployment (rt_name operator) (rt_namespace operator))
                          (k_get_deployment env (rt_name operator) (rt_namespace operator)))) (\<lambda>res.
         case res of
           Inl err \<Rightarrow> gret (status0, Some err)
         | Inr d \<Rightarrow> gret (status0\<lparr>rts_originalReplicas := rt_replicas operator,
             rts_currentReplicas := (case dep_replicas d of Some n \<Rightarrow> n | None \<Rightarrow> 0),
             rts_phase := PhaseValidated\<rparr>, None)))"

text \<open>A loop that appends the statuses and stops at the first failed target.\<close>

fun validate_targets ::
  "(restore_target \<Rightarrow> ('w st, restore_target_status \<times> goerr option) go) \<Rightarrow> restore_target list \<Rightarrow>
   restore_target_status list \<Rightarrow> ('w st, restore_target_status list \<times> goerr option) go" where
  "validate_targets check [] statuses = gret (statuses, None)"
| "validate_targets check (x # xs) statuses =
     gbind (check x) (\<lambda>(status, err).
       case err of
         Some e \<Rightarrow> gret (append_failed statuses status e, Some e)
       | None \<Rightarrow> validate_targets check xs (statuses @ [status]))"

definition validate_snapshot ::
  "'w env \<Rightarrow> string \<Rightarrow> restore_plan \<Rightarrow>
   ('w st, restore_target_status list \<times> restore_target_status list \<times> goerr option) go" where
  "validate_snapshot env planName plan =
     gbind (validate_targets (validate_cluster env planName (rp_snapshotRestoreTime plan)) (rp_clusters plan) [])
       (\<lambda>(clustersStatus, err).
         case err of
           Some e \<Rightarrow> gret (clustersStatus, [], Some e)
         | None \<Rightarrow>
             gbind (validate_targets (validate_operator env) (rp_operators plan) [])
               (\<lambda>(operatorsStatus, err2). gret (clustersStatus, operatorsStatus, err2)))"

section \<open>Validation of all plans\<close>

definition fail_plan ::
  "'w env \<Rightarrow> string \<Rightarrow> string \<Rightarrow> bool \<Rightarrow> restore_target_status list \<Rightarrow> restore_target_status list \<Rightarrow>
   ('w st, unit) go" where
  "fail_plan env planName snapshotTime lock clustersStatus operatorsStatus =
     gbind (set_validate_restore_plan env planName snapshotTime lock clustersStatus operatorsStatus) (\<lambda>_.
     gbind (set_active_plan env planName) (\<lambda>_.
     set_phase env PhaseFailed))"

text \<open>
  The case of a known snapshot time, which the case of the latest time falls through to.
  The loop carries \<open>lastErr\<close> and \<open>lock\<close>, both declared outside it.
\<close>

definition validate_known_time ::
  "'w env \<Rightarrow> string \<Rightarrow> restore_plan \<Rightarrow> goerr option \<times> bool \<Rightarrow> ('w st, goerr option \<times> bool) go" where
  "validate_known_time env planName plan v =
     (let lastErr = fst v; lock = snd v; t = rp_snapshotRestoreTime plan
      in case validate_snapshot_time env t of
           Some err \<Rightarrow>
             gbind (fail_plan env planName t lock (build_failed_clusters_status (rp_clusters plan) err) [])
               (\<lambda>_. gret (Some err, lock))
         | None \<Rightarrow>
             gbind (validate_snapshot env planName plan) (\<lambda>(clustersStatus, operatorsStatus, res).
               case res of
                 Some err \<Rightarrow>
                   gbind (fail_plan env planName t lock clustersStatus operatorsStatus)
                     (\<lambda>_. gret (Some err, lock))
               | None \<Rightarrow>
                   gbind (set_validate_restore_plan env planName t lock clustersStatus operatorsStatus) (\<lambda>_.
                   gbind (gwhen (lastErr = None) (set_active_plan env planName)) (\<lambda>_.
                   gret (lastErr, lock)))))"

definition validate_plan ::
  "'w env \<Rightarrow> string \<times> restore_plan \<Rightarrow> goerr option \<times> bool \<Rightarrow> ('w st, goerr option \<times> bool) go" where
  "validate_plan env kv v =
     (let planName = fst kv; plan0 = snd kv; lastErr = fst v; lock0 = snd v
      in gbind (gets (\<lambda>s. the_plan s planName)) (\<lambda>planStatus.
         let locked = (case planStatus of Some ps \<Rightarrow> rps_lock ps | None \<Rightarrow> False);
             lock = (if locked then True else lock0);
             plan = (if locked then plan0\<lparr>rp_snapshotRestoreTime := rps_snapshotRestoreTime (the planStatus)\<rparr>
                     else plan0)
         in if rp_snapshotRestoreTime plan = [] then
              gbind (find_latest_snapshot_time env planName (rp_clusters plan)) (\<lambda>(latestTime, clustersStatus, res).
                case res of
                  Some err \<Rightarrow>
                    gbind (fail_plan env planName (rp_snapshotRestoreTime plan) lock clustersStatus [])
                      (\<lambda>_. gret (Some err, lock))
                | None \<Rightarrow> validate_known_time env planName (plan\<lparr>rp_snapshotRestoreTime := latestTime\<rparr>) (lastErr, lock))
            else validate_known_time env planName plan (lastErr, lock)))"

definition validate_list_snapshots :: "'w env \<Rightarrow> ('w st, unit) go" where
  "validate_list_snapshots env =
     gbind (gets (\<lambda>s. sp_restorePlans (esr_spec (obj s)))) (\<lambda>plans.
     gbind (range_map env plans) (\<lambda>kvs.
     gbind (fold_go (validate_plan env) kvs (None, False)) (\<lambda>(lastErr, lock).
     case lastErr of None \<Rightarrow> gret () | Some e \<Rightarrow> gthrow e)))"

section \<open>Frames\<close>

lemma fetch_acts: "keeps (acts A) (fetch_cluster_resources env cluster planName t)"
  unfolding fetch_cluster_resources_def Let_def
  by (intro acting.world_rules) simp_all

lemma find_latest_loop_acts: "keeps (acts A) (find_latest_loop env planName clusters latest statuses)"
  by (induction env planName clusters latest statuses rule: find_latest_loop.induct)
    (auto simp: Let_def intro!: acting.rules fetch_acts)

lemma find_latest_acts: "keeps (acts A) (find_latest_snapshot_time env planName clusters)"
  by (simp add: find_latest_snapshot_time_def find_latest_loop_acts)

lemma validate_cluster_acts: "keeps (acts A) (validate_cluster env planName t cluster)"
  unfolding validate_cluster_def Let_def
  by (intro acting.world_rules fetch_acts) simp_all

lemma validate_operator_acts: "keeps (acts A) (validate_operator env operator)"
  unfolding validate_operator_def Let_def
  by (intro acting.world_rules) simp_all

lemma validate_targets_acts:
  "(\<And>x. keeps (acts A) (check x)) \<Longrightarrow> keeps (acts A) (validate_targets check xs statuses)"
  by (induction xs arbitrary: statuses) (auto intro!: acting.rules)

lemma validate_snapshot_acts: "keeps (acts A) (validate_snapshot env planName plan)"
  unfolding validate_snapshot_def
  by (intro acting.rules validate_targets_acts validate_cluster_acts validate_operator_acts)

lemma fail_plan_evolves:
  "status_env env \<Longrightarrow> (\<And>new. A (EPatchStatus new)) \<Longrightarrow> keeps (evolves A) (fail_plan env k t l cs os)"
  unfolding fail_plan_def by (intro evolving.rules setter_evolves)

lemma validate_known_time_evolves:
  assumes "status_env env" and "\<And>new. A (EPatchStatus new)"
  shows "keeps (evolves A) (validate_known_time env planName plan v)"
  unfolding validate_known_time_def Let_def
  by (intro evolving.rules setter_evolves fail_plan_evolves assms
      keeps_acts_evolves [OF validate_snapshot_acts])

lemma validate_plan_evolves:
  assumes "status_env env" and "\<And>new. A (EPatchStatus new)"
  shows "keeps (evolves A) (validate_plan env kv v)"
  unfolding validate_plan_def Let_def
  by (intro evolving.rules fail_plan_evolves validate_known_time_evolves assms
      keeps_acts_evolves [OF find_latest_acts])

lemma validate_list_snapshots_evolves:
  assumes "status_env env" and "\<And>new. A (EPatchStatus new)"
  shows "keeps (evolves A) (validate_list_snapshots env)"
  unfolding validate_list_snapshots_def
  by (intro evolving.world_rules validate_plan_evolves assms)

section \<open>Digits\<close>

fun pad :: "nat \<Rightarrow> nat \<Rightarrow> string" where
  "pad 0 n = []"
| "pad (Suc k) n = pad k (n div 10) @ [char_of (48 + n mod 10)]"

definition format_snapshot_time :: "nat \<Rightarrow> nat \<Rightarrow> nat \<Rightarrow> nat \<Rightarrow> nat \<Rightarrow> string" where
  "format_snapshot_time year month day hour minute =
     pad 4 year @ pad 2 month @ pad 2 day @ pad 2 hour @ pad 2 minute"

lemma length_pad [simp]: "length (pad k n) = k"
  by (induction k arbitrary: n) simp_all

lemma digit_value_digit: "d < 10 \<Longrightarrow> digit_value (char_of (48 + d)) = Some d"
  by (simp add: digit_value_def less_eq_char_def)

lemma digit_value_Some: "digit_value c = Some d \<Longrightarrow> d < 10 \<and> c = char_of (48 + d)"
  by (auto simp: digit_value_def less_eq_char_def split: if_splits)

lemma number_value_snoc:
  "number_value (xs @ [c]) acc = (case number_value xs acc of None \<Rightarrow> None
     | Some a \<Rightarrow> (case digit_value c of None \<Rightarrow> None | Some d \<Rightarrow> Some (10 * a + d)))"
  by (induction xs arbitrary: acc) (auto split: option.splits)

lemma number_value_pad: "n < 10 ^ k \<Longrightarrow> number_value (pad k n) 0 = Some n"
proof (induction k arbitrary: n)
  case (Suc k)
  then have "n div 10 < 10 ^ k" by (simp add: less_mult_imp_div_less)
  with Suc.IH show ?case by (simp add: number_value_snoc digit_value_digit)
qed simp

lemma number_value_Some: "number_value xs 0 = Some n \<Longrightarrow> n < 10 ^ length xs \<and> xs = pad (length xs) n"
proof (induction xs arbitrary: n rule: rev_induct)
  case (snoc c xs)
  then obtain a d where "number_value xs 0 = Some a" and d: "digit_value c = Some d" and n: "n = 10 * a + d"
    by (auto simp: number_value_snoc split: option.splits)
  with snoc.IH have a: "a < 10 ^ length xs" "xs = pad (length xs) a" by blast+
  have "d < 10" "c = char_of (48 + d)" using digit_value_Some [OF d] by simp_all
  with a n show ?case by simp
qed simp

lemma parse_Some:
  assumes "parse_snapshot_time s = Some (y, mo, d, h, mi)"
  shows "s = format_snapshot_time y mo d h mi \<and> y < 10000 \<and> in_range y mo d h mi"
proof -
  have len: "length s = 12" using assms by (auto simp: parse_snapshot_time_def split: if_splits)
  let ?a = "take 4 s" and ?b = "take 2 (drop 4 s)" and ?c = "take 2 (drop 6 s)"
    and ?d = "take 2 (drop 8 s)" and ?e = "drop 10 s"
  have v: "number_value ?a 0 = Some y" "number_value ?b 0 = Some mo" "number_value ?c 0 = Some d"
      "number_value ?d 0 = Some h" "number_value ?e 0 = Some mi" and r: "in_range y mo d h mi"
    using assms len by (auto simp: parse_snapshot_time_def split: option.splits if_splits)
  have "?a = pad 4 y" "y < 10000" using number_value_Some [OF v(1)] len by auto
  moreover have "?b = pad 2 mo" using number_value_Some [OF v(2)] len by auto
  moreover have "?c = pad 2 d" using number_value_Some [OF v(3)] len by auto
  moreover have "?d = pad 2 h" using number_value_Some [OF v(4)] len by auto
  moreover have "?e = pad 2 mi" using number_value_Some [OF v(5)] len by auto
  moreover have "s = ?a @ ?b @ ?c @ ?d @ ?e"
    using append_take_drop_id [of 4 s] append_take_drop_id [of 2 "drop 4 s"]
      append_take_drop_id [of 2 "drop 6 s"] append_take_drop_id [of 2 "drop 8 s"]
    by (simp del: append_take_drop_id)
  ultimately show ?thesis using r by (simp add: format_snapshot_time_def)
qed

lemma parse_format:
  assumes "y < 10000" and "in_range y mo d h mi"
  shows "parse_snapshot_time (format_snapshot_time y mo d h mi) = Some (y, mo, d, h, mi)"
proof -
  have "mo < 10 ^ 2" "d < 10 ^ 2" "h < 10 ^ 2" "mi < 10 ^ 2" "y < 10 ^ 4"
    using assms by (auto simp: in_range_def days_in_def split: if_splits)
  then have "number_value (pad 4 y) 0 = Some y" "number_value (pad 2 mo) 0 = Some mo"
    "number_value (pad 2 d) 0 = Some d" "number_value (pad 2 h) 0 = Some h"
    "number_value (pad 2 mi) 0 = Some mi"
    by (simp_all only: number_value_pad)
  then show ?thesis
    using assms(2) by (simp add: parse_snapshot_time_def format_snapshot_time_def del: pad.simps)
qed

section \<open>The loops over snapshots\<close>

definition matches :: "string \<Rightarrow> string \<Rightarrow> volume_snapshot \<times> pvc \<Rightarrow> bool" where
  "matches planName t = (\<lambda>(vs, p). pvc_objName p @ ''-'' @ planName @ ''-'' @ t = vs_name vs)"

lemma collect_refs_iff:
  "collect_refs cluster planName t pairs acc = Inr refs \<longleftrightarrow>
     (\<forall>(vs, p) \<in> set pairs. matches planName t (vs, p) \<longrightarrow> snapshot_ready vs)
     \<and> refs = acc @ map (\<lambda>(vs, p). snapshot_ref cluster vs p) (filter (matches planName t) pairs)"
  by (induction cluster planName t pairs acc rule: collect_refs.induct) (auto simp: matches_def)

definition when_set :: "string \<Rightarrow> pvc list \<Rightarrow> volume_snapshot list \<Rightarrow> string set" where
  "when_set planName pvcList vsList =
     {w. \<exists>p \<in> set pvcList. \<exists>vs \<in> set vsList. vs_name vs = pvc_objName p @ ''-'' @ planName @ ''-'' @ w}"

lemma newer_when_eq:
  "newer_when prefix acc vs = (if \<exists>w. vs_name vs = prefix @ w \<and> acc < w
     then trim_prefix (vs_name vs) prefix else acc)"
  by (auto simp: newer_when_def has_prefix_iff)

lemma fold_newer_when:
  "acc \<le> foldl (newer_when prefix) acc vsList
   \<and> (\<forall>w vs. vs \<in> set vsList \<longrightarrow> vs_name vs = prefix @ w \<longrightarrow> w \<le> foldl (newer_when prefix) acc vsList)
   \<and> (foldl (newer_when prefix) acc vsList = acc
      \<or> (\<exists>vs \<in> set vsList. vs_name vs = prefix @ foldl (newer_when prefix) acc vsList))"
proof (induction vsList arbitrary: acc)
  case (Cons vs vsList)
  let ?acc = "newer_when prefix acc vs"
  let ?r = "foldl (newer_when prefix) ?acc vsList"
  have step: "acc \<le> ?acc" "\<And>w. vs_name vs = prefix @ w \<Longrightarrow> w \<le> ?acc"
    "?acc = acc \<or> vs_name vs = prefix @ ?acc"
    by (auto simp: newer_when_eq)
  from Cons.IH [of ?acc] have ih: "?acc \<le> ?r"
    "\<And>w v. v \<in> set vsList \<Longrightarrow> vs_name v = prefix @ w \<Longrightarrow> w \<le> ?r"
    "?r = ?acc \<or> (\<exists>v \<in> set vsList. vs_name v = prefix @ ?r)"
    by blast+
  have "acc \<le> ?r" using step(1) ih(1) by (rule order_trans)
  moreover have "\<forall>w v. v \<in> set (vs # vsList) \<longrightarrow> vs_name v = prefix @ w \<longrightarrow> w \<le> ?r"
    using step(2) ih(1,2) by (auto intro: order_trans)
  moreover have "?r = acc \<or> (\<exists>v \<in> set (vs # vsList). vs_name v = prefix @ ?r)"
    using step(3) ih(3) by auto
  ultimately show ?case by simp
qed simp

lemma cluster_latest_time_max:
  "(\<forall>w \<in> when_set planName pvcList vsList. w \<le> cluster_latest_time planName pvcList vsList)
   \<and> (cluster_latest_time planName pvcList vsList = []
      \<or> cluster_latest_time planName pvcList vsList \<in> when_set planName pvcList vsList)"
proof -
  define F where "F = (\<lambda>latest p. foldl (newer_when (pvc_objName p @ ''-'' @ planName @ ''-'')) latest vsList)"
  have "acc \<le> foldl F acc ps \<and> (\<forall>w \<in> when_set planName ps vsList. w \<le> foldl F acc ps)
     \<and> (foldl F acc ps = acc \<or> foldl F acc ps \<in> when_set planName ps vsList)" for acc ps
  proof (induction ps arbitrary: acc)
    case (Cons p ps)
    have step: "acc \<le> F acc p"
      "\<And>w vs. vs \<in> set vsList \<Longrightarrow> vs_name vs = pvc_objName p @ ''-'' @ planName @ ''-'' @ w \<Longrightarrow> w \<le> F acc p"
      "F acc p = acc \<or> (\<exists>vs \<in> set vsList. vs_name vs = pvc_objName p @ ''-'' @ planName @ ''-'' @ F acc p)"
      using fold_newer_when [where prefix = "pvc_objName p @ ''-'' @ planName @ ''-''" and acc = acc
          and vsList = vsList] by (simp_all add: F_def)
    from Cons.IH [of "F acc p"] have ih: "F acc p \<le> foldl F (F acc p) ps"
      "\<And>w. w \<in> when_set planName ps vsList \<Longrightarrow> w \<le> foldl F (F acc p) ps"
      "foldl F (F acc p) ps = F acc p \<or> foldl F (F acc p) ps \<in> when_set planName ps vsList"
      by blast+
    have "acc \<le> foldl F (F acc p) ps" using step(1) ih(1) by (rule order_trans)
    moreover have "\<forall>w \<in> when_set planName (p # ps) vsList. w \<le> foldl F (F acc p) ps"
      using step(2) ih(1,2) by (force simp: when_set_def intro: order_trans)
    moreover have "foldl F (F acc p) ps = acc \<or> foldl F (F acc p) ps \<in> when_set planName (p # ps) vsList"
      using step(3) ih(3) by (auto simp: when_set_def)
    ultimately show ?case by simp
  qed (simp add: when_set_def)
  from this [of "[]" pvcList] show ?thesis by (simp add: cluster_latest_time_def F_def)
qed

section \<open>What a validated target looks like\<close>

definition cluster_checked :: "string \<Rightarrow> string \<Rightarrow> restore_target \<Rightarrow> restore_target_status \<Rightarrow> bool" where
  "cluster_checked planName t cluster st \<longleftrightarrow>
     rts_name st = rt_name cluster \<and> rts_namespace st = rt_namespace cluster \<and> rts_type st = rt_type cluster
     \<and> rts_originalReplicas st = rt_replicas cluster \<and> rts_phase st = PhaseValidated \<and> rts_error st = []
     \<and> rts_snapshotsRef st \<noteq> []
     \<and> (\<forall>r \<in> set (rts_snapshotsRef st).
          sr_snapshotName r = sr_pvcName r @ ''-'' @ planName @ ''-'' @ t
          \<and> sr_skipRestoringPVC r = (sr_pvcName r \<in> set (rt_skipRestoringPVCs cluster)))"

definition operator_checked :: "restore_target \<Rightarrow> restore_target_status \<Rightarrow> bool" where
  "operator_checked operator st \<longleftrightarrow>
     rts_name st = rt_name operator \<and> rts_namespace st = rt_namespace operator \<and> rts_type st = rt_type operator
     \<and> rts_originalReplicas st = rt_replicas operator \<and> rts_phase st = PhaseValidated \<and> rts_error st = []"

lemma triple_fetch: "triple (\<lambda>_. True) (fetch_cluster_resources env cluster planName t) (\<lambda>_ _. True) (\<lambda>_ _. True)"
  by (auto simp: fetch_cluster_resources_def Let_def triple_def go_run lift_sum_def
      split: option.splits sum.splits prod.splits)

lemma triple_validate_cluster:
  "triple (\<lambda>_. True) (validate_cluster env planName t cluster)
     (\<lambda>(st, err) _. err = None \<longrightarrow> cluster_checked planName t cluster st) (\<lambda>_ _. False)"
proof -
  have pairs: "cluster_checked planName t cluster (zero_target_status\<lparr>rts_name := rt_name cluster,
        rts_namespace := rt_namespace cluster, rts_type := rt_type cluster,
        rts_originalReplicas := rt_replicas cluster, rts_currentReplicas := n,
        rts_podManagementPolicy := pol, rts_snapshotsRef := refs, rts_phase := PhaseValidated\<rparr>)"
    if "collect_refs cluster planName t ps [] = Inr refs" "refs \<noteq> []" for n pol refs ps
    using that by (auto simp: collect_refs_iff cluster_checked_def zero_target_status_def
        snapshot_ref_def matches_def)
  show ?thesis
    unfolding validate_cluster_def Let_def
    by (intro triple_gbind triple_attempt triple_weaken [OF triple_api] triple_weaken [OF triple_fetch])
      (auto simp: pairs intro!: triple_gret triple_gbind triple_attempt triple_weaken [OF triple_fetch]
        split: sum.splits)
qed

lemma triple_validate_operator:
  "triple (\<lambda>_. True) (validate_operator env operator)
     (\<lambda>(st, err) _. err = None \<longrightarrow> operator_checked operator st) (\<lambda>_ _. False)"
  unfolding validate_operator_def Let_def
  by (rule triple_gbind, rule triple_attempt, rule triple_weaken [OF triple_api])
    (auto simp: operator_checked_def zero_target_status_def intro!: triple_gret split: sum.splits)

lemma triple_validate_targets:
  assumes check: "\<And>x. triple (\<lambda>_. True) (check x) (\<lambda>(st, err) _. err = None \<longrightarrow> R x st) (\<lambda>_ _. False)"
  shows "triple (\<lambda>_. True) (validate_targets check xs acc)
     (\<lambda>(sts, err) _. err = None \<longrightarrow> (\<exists>ys. sts = acc @ ys \<and> list_all2 R xs ys)) (\<lambda>_ _. False)"
proof (induction xs arbitrary: acc)
  case (Cons x xs)
  have rest: "triple (\<lambda>_. R x st) (validate_targets check xs (acc @ [st]))
     (\<lambda>(sts, err) _. err = None \<longrightarrow> (\<exists>ys. sts = acc @ ys \<and> list_all2 R (x # xs) ys)) (\<lambda>_ _. False)" for st
    by (rule triple_given, rule triple_weaken [OF Cons.IH [of "acc @ [st]"]]) (auto split: prod.splits)
  show ?case
    unfolding validate_targets.simps
  proof (rule triple_gbind [OF check])
    fix p :: "restore_target_status \<times> goerr option"
    obtain st err where p: "p = (st, err)" by force
    show "triple (case p of (st, err) \<Rightarrow> \<lambda>_. err = None \<longrightarrow> R x st)
      (case p of (st, err) \<Rightarrow> (case err of None \<Rightarrow> validate_targets check xs (acc @ [st])
         | Some e \<Rightarrow> gret (append_failed acc st e, Some e)))
      (\<lambda>(sts, err) _. err = None \<longrightarrow> (\<exists>ys. sts = acc @ ys \<and> list_all2 R (x # xs) ys)) (\<lambda>_ _. False)"
      using rest [of st] by (cases err) (simp_all add: p triple_gret)
  qed
qed (auto intro: triple_gret)

lemma triple_validate_snapshot:
  "triple (\<lambda>_. True) (validate_snapshot env planName plan)
     (\<lambda>(cs, os, err) _. err = None \<longrightarrow>
        list_all2 (cluster_checked planName (rp_snapshotRestoreTime plan)) (rp_clusters plan) cs
        \<and> list_all2 operator_checked (rp_operators plan) os) (\<lambda>_ _. False)"
  unfolding validate_snapshot_def
proof (rule triple_gbind [OF triple_validate_targets [OF triple_validate_cluster]])
  fix p :: "restore_target_status list \<times> goerr option"
  obtain cs err where p: "p = (cs, err)" by force
  show "triple ((case p of (sts, err) \<Rightarrow> \<lambda>_. err = None \<longrightarrow> (\<exists>ys. sts = [] @ ys \<and>
        list_all2 (cluster_checked planName (rp_snapshotRestoreTime plan)) (rp_clusters plan) ys)))
     (case p of (cs, err) \<Rightarrow> (case err of
        None \<Rightarrow> gbind (validate_targets (validate_operator env) (rp_operators plan) [])
          (\<lambda>(os, err2). gret (cs, os, err2))
      | Some e \<Rightarrow> gret (cs, [], Some e)))
     (\<lambda>(cs, os, err) _. err = None \<longrightarrow>
        list_all2 (cluster_checked planName (rp_snapshotRestoreTime plan)) (rp_clusters plan) cs
        \<and> list_all2 operator_checked (rp_operators plan) os) (\<lambda>_ _. False)"
  proof (cases err)
    case None
    show ?thesis
      unfolding p None option.case prod.case
    proof (rule triple_pre, rule triple_given, rule triple_gbind [OF triple_validate_targets [OF triple_validate_operator]])
      fix q :: "restore_target_status list \<times> goerr option"
      assume cs: "\<exists>ys. cs = [] @ ys \<and> list_all2 (cluster_checked planName (rp_snapshotRestoreTime plan)) (rp_clusters plan) ys"
      show "triple ((case q of (sts, err) \<Rightarrow> \<lambda>_. err = None \<longrightarrow> (\<exists>ys. sts = [] @ ys \<and>
          list_all2 operator_checked (rp_operators plan) ys)))
        (case q of (os, err2) \<Rightarrow> gret (cs, os, err2))
        (\<lambda>(cs, os, err) _. err = None \<longrightarrow>
          list_all2 (cluster_checked planName (rp_snapshotRestoreTime plan)) (rp_clusters plan) cs
          \<and> list_all2 operator_checked (rp_operators plan) os) (\<lambda>_ _. False)"
        using cs by (cases q) (auto intro: triple_gret)
    qed simp
  qed (simp add: p triple_gret)
qed

section \<open>One iteration of the loop over the plans\<close>

text \<open>
  \<open>plan_outcome o k plan lock lastErr lastErr' o'\<close>: what one iteration, entered with the
  resource \<open>o\<close>, leaves in \<open>o'\<close>.
\<close>

definition plan_checked :: "string \<Rightarrow> restore_plan \<Rightarrow> restore_plan_status \<Rightarrow> bool" where
  "plan_checked k plan ps \<longleftrightarrow>
     parse_snapshot_time (rps_snapshotRestoreTime ps) \<noteq> None
     \<and> list_all2 (cluster_checked k (rps_snapshotRestoreTime ps)) (rp_clusters plan) (rps_clusters ps)
     \<and> list_all2 operator_checked (rp_operators plan) (rps_operators ps)"

definition plan_outcome ::
  "ebs_snapshot_restore \<Rightarrow> string \<Rightarrow> restore_plan \<Rightarrow> string option \<Rightarrow> bool \<Rightarrow> goerr option \<Rightarrow> goerr option \<Rightarrow>
   ebs_snapshot_restore \<Rightarrow> bool" where
  "plan_outcome r k plan tm lock lastErr lastErr' r' \<longleftrightarrow>
     esr_spec r' = esr_spec r
     \<and> (\<forall>k'. k' \<noteq> k \<longrightarrow> o_plan r' k' = o_plan r k')
     \<and> (\<exists>ps. o_plan r' k = Some ps \<and> rps_lock ps = lock
          \<and> (\<forall>t. tm = Some t \<longrightarrow> rps_snapshotRestoreTime ps = t)
          \<and> rps_hooks ps = rps_hooks (or_zero (o_plan r k))
          \<and> rps_countScaleUp ps = rps_countScaleUp (or_zero (o_plan r k))
          \<and> (lastErr' = None \<longrightarrow> plan_checked k plan ps))
     \<and> (lastErr' = None \<longrightarrow> lastErr = None \<and> o_phase r' = o_phase r)
     \<and> (lastErr' \<noteq> None \<longrightarrow> o_phase r' = PhaseFailed \<or> (lastErr' = lastErr \<and> o_phase r' = o_phase r))"

lemma triple_fail_plan:
  assumes "status_env env"
  shows "triple (\<lambda>s. obj s = r) (fail_plan env k t lock cs os)
     (\<lambda>_ s. \<forall>plan lastErr e. plan_outcome r k plan (Some t) lock lastErr (Some e) (obj s)) (refused env)"
  unfolding fail_plan_def
  by (rule triple_gbind [OF validated.sp [OF assms]], rule triple_gbind [OF active.sp [OF assms]],
      rule triple_post [OF phase.sp [OF assms]])
    (auto simp: plan_outcome_def plan_status_put_plan or_zero_def dest!: written_facts split: option.splits)

lemma triple_pass_plan:
  assumes "status_env env" and "parse_snapshot_time t \<noteq> None"
    and "list_all2 (cluster_checked k t) (rp_clusters plan) cs"
    and "list_all2 operator_checked (rp_operators plan) os"
  shows "triple (\<lambda>s. obj s = r)
     (gbind (set_validate_restore_plan env k t lock cs os) (\<lambda>_.
      gbind (gwhen (lastErr = None) (set_active_plan env k)) (\<lambda>_. gret (lastErr, lock))))
     (\<lambda>(lastErr', lock') s. lock' = lock \<and> plan_outcome r k plan (Some t) lock lastErr lastErr' (obj s))
     (refused env)"
proof (rule triple_gbind [OF validated.sp [OF assms(1)]], cases lastErr)
  fix x :: unit
  let ?W = "\<lambda>t'. \<exists>s. obj s = r \<and> written (put_plan k (\<lambda>p. p\<lparr>rps_lock := lock,
       rps_snapshotRestoreTime := t, rps_clusters := cs, rps_operators := os\<rparr>)) s t'"
  case None
  show "triple ?W (gbind (gwhen (lastErr = None) (set_active_plan env k)) (\<lambda>_. gret (lastErr, lock)))
     (\<lambda>(lastErr', lock') s. lock' = lock \<and> plan_outcome r k plan (Some t) lock lastErr lastErr' (obj s))
     (refused env)"
    unfolding None
    by (simp, rule triple_gbind [OF active.sp [OF assms(1)]], rule triple_gret)
      (use assms(2-4) in \<open>auto dest!: written_facts
        simp: plan_outcome_def plan_checked_def plan_status_put_plan or_zero_def split: option.splits\<close>)
next
  fix x :: unit
  let ?W = "\<lambda>t'. \<exists>s. obj s = r \<and> written (put_plan k (\<lambda>p. p\<lparr>rps_lock := lock,
       rps_snapshotRestoreTime := t, rps_clusters := cs, rps_operators := os\<rparr>)) s t'"
  case (Some e)
  show "triple ?W (gbind (gwhen (lastErr = None) (set_active_plan env k)) (\<lambda>_. gret (lastErr, lock)))
     (\<lambda>(lastErr', lock') s. lock' = lock \<and> plan_outcome r k plan (Some t) lock lastErr lastErr' (obj s))
     (refused env)"
    unfolding Some
    by (simp, rule triple_gret)
      (use assms(2-4) in \<open>auto dest!: written_facts
        simp: plan_outcome_def plan_checked_def plan_status_put_plan or_zero_def split: option.splits\<close>)
qed

lemma triple_validate_known_time:
  assumes "status_env env"
  shows "triple (\<lambda>s. obj s = r) (validate_known_time env k plan (lastErr, lock))
     (\<lambda>(lastErr', lock') s. lock' = lock \<and>
        plan_outcome r k plan (Some (rp_snapshotRestoreTime plan)) lock lastErr lastErr' (obj s)) (refused env)"
proof -
  let ?t = "rp_snapshotRestoreTime plan"
  let ?Q = "\<lambda>(lastErr', lock') s. lock' = lock \<and> plan_outcome r k plan (Some ?t) lock lastErr lastErr' (obj s)"
  have fail: "triple (\<lambda>s. obj s = r) (gbind (fail_plan env k ?t lock cs os) (\<lambda>_. gret (Some err, lock)))
     ?Q (refused env)" for cs os err
    by (rule triple_gbind [OF triple_fail_plan [OF assms]], rule triple_gret) simp
  show ?thesis
  proof (cases "validate_snapshot_time env ?t")
    case (Some err)
    with fail show ?thesis by (simp add: validate_known_time_def Let_def)
  next
    case None
    then have parse: "parse_snapshot_time ?t \<noteq> None"
      by (auto simp: validate_snapshot_time_def split: option.splits)
    have "triple (\<lambda>s. obj s = r) (validate_snapshot env k plan)
       (\<lambda>(cs, os, res) s. (res = None \<longrightarrow> list_all2 (cluster_checked k ?t) (rp_clusters plan) cs
          \<and> list_all2 operator_checked (rp_operators plan) os) \<and> obj s = r) (refused env)"
    proof (rule triple_weaken [OF triple_acts [where J = "\<lambda>x. x = r" and E = "\<lambda>_. False" and A = quiet and
          Q = "\<lambda>(cs, os, res). res = None \<longrightarrow> list_all2 (cluster_checked k ?t) (rp_clusters plan) cs
            \<and> list_all2 operator_checked (rp_operators plan) os", OF validate_snapshot_acts]])
      show "triple (\<lambda>_. True) (validate_snapshot env k plan) (\<lambda>x _. case x of (cs, os, res) \<Rightarrow>
          res = None \<longrightarrow> list_all2 (cluster_checked k ?t) (rp_clusters plan) cs
            \<and> list_all2 operator_checked (rp_operators plan) os) (\<lambda>_ _. False)"
        by (rule triple_post [OF triple_validate_snapshot]) (auto split: prod.splits)
    qed auto
    then show ?thesis
      unfolding validate_known_time_def Let_def fst_conv snd_conv None option.case
    proof (rule triple_gbind, goal_cases)
      case (1 p)
      obtain cs os res where p: "p = (cs, os, res)" by (cases p) auto
      show ?case
      proof (cases res)
        case None
        show ?thesis
          unfolding p None prod.case option.case
          by (rule triple_pre [OF triple_assume [where P = "\<lambda>s. obj s = r" and
                B = "list_all2 (cluster_checked k ?t) (rp_clusters plan) cs
                  \<and> list_all2 operator_checked (rp_operators plan) os"]])
            (auto intro: triple_pass_plan [OF assms parse])
      next
        case (Some err)
        show ?thesis
          unfolding p Some prod.case option.case by (rule triple_pre [OF fail]) simp
      qed
    qed
  qed
qed

text \<open>The snapshot time that the status or the spec fixes, if one does.\<close>

definition known_time :: "ebs_snapshot_restore \<Rightarrow> string \<Rightarrow> restore_plan \<Rightarrow> string option" where
  "known_time r k plan =
     (let t = (if was_locked r k then rps_snapshotRestoreTime (or_zero (o_plan r k)) else rp_snapshotRestoreTime plan)
      in if t = [] then None else Some t)"

lemma plan_outcome_latest:
  "plan_outcome r k plan (Some t) l e e' r' \<Longrightarrow> plan_outcome r k plan None l e e' r'"
  unfolding plan_outcome_def by blast

lemma plan_outcome_time [simp]:
  "plan_outcome r k (plan\<lparr>rp_snapshotRestoreTime := t\<rparr>) = plan_outcome r k plan"
  by (simp add: plan_outcome_def plan_checked_def fun_eq_iff)

lemma triple_find_latest:
  "triple (\<lambda>_. True) (find_latest_snapshot_time env k clusters) (\<lambda>_ _. True) (\<lambda>_ _. False)"
proof -
  have "triple (\<lambda>_. True) (find_latest_loop env k clusters t sts) (\<lambda>_ _. True) (\<lambda>_ _. False)" for t sts
  proof (induction clusters arbitrary: t sts)
    case (Cons c cs)
    show ?case
      unfolding find_latest_loop.simps Let_def
      by (rule triple_gbind, rule triple_attempt, rule triple_post [OF triple_fetch])
        (auto intro!: triple_gret Cons.IH split: sum.splits prod.splits)
  qed (simp add: triple_gret)
  then show ?thesis by (simp add: find_latest_snapshot_time_def)
qed

lemma triple_validate_plan:
  assumes "status_env env"
  shows "triple (\<lambda>s. obj s = r) (validate_plan env (k, plan) (lastErr, lock0))
     (\<lambda>(lastErr', lock') s. lock' = (lock0 \<or> was_locked r k)
        \<and> plan_outcome r k plan (known_time r k plan) lock' lastErr lastErr' (obj s)) (refused env)"
proof -
  define lock where "lock = (lock0 \<or> was_locked r k)"
  let ?Q = "\<lambda>(lastErr', lock') s. lock' = (lock0 \<or> was_locked r k)
    \<and> plan_outcome r k plan (known_time r k plan) lock' lastErr lastErr' (obj s)"
  define t where "t = (if was_locked r k then rps_snapshotRestoreTime (or_zero (o_plan r k))
    else rp_snapshotRestoreTime plan)"
  have kt: "known_time r k plan = (if t = [] then None else Some t)"
    by (simp add: known_time_def t_def)
  have fixed: "triple (\<lambda>s. obj s = r) (validate_known_time env k (plan\<lparr>rp_snapshotRestoreTime := t'\<rparr>) (lastErr, lock))
      ?Q (refused env)" if "known_time r k plan = Some t' \<or> known_time r k plan = None" for t'
    by (rule triple_post [OF triple_validate_known_time [OF assms]])
      (use that plan_outcome_latest in \<open>fastforce simp: lock_def split: prod.splits\<close>)+
  have fail: "triple (\<lambda>s. obj s = r) (gbind (fail_plan env k t lock cs []) (\<lambda>_. gret (Some err, lock)))
     ?Q (refused env)" if "known_time r k plan = None" for cs err
    by (rule triple_gbind [OF triple_fail_plan [OF assms]], rule triple_gret)
      (use that in \<open>auto simp: lock_def intro: plan_outcome_latest\<close>)
  have latest: "triple (\<lambda>s. obj s = r)
      (gbind (find_latest_snapshot_time env k (rp_clusters plan)) (\<lambda>(latestTime, cs, res).
         case res of
           Some err \<Rightarrow> gbind (fail_plan env k t lock cs []) (\<lambda>_. gret (Some err, lock))
         | None \<Rightarrow> validate_known_time env k (plan\<lparr>rp_snapshotRestoreTime := latestTime\<rparr>) (lastErr, lock)))
      ?Q (refused env)" if "known_time r k plan = None"
  proof (rule triple_gbind)
    show "triple (\<lambda>s. obj s = r) (find_latest_snapshot_time env k (rp_clusters plan))
        (\<lambda>x s. obj s = r) (refused env)"
      by (rule triple_weaken [OF triple_acts [where J = "\<lambda>x. x = r", OF find_latest_acts [where A = quiet] triple_find_latest]])
        auto
  qed (use that fail fixed in \<open>auto split: option.splits\<close>)
  define body where "body = (if t = [] then
       gbind (find_latest_snapshot_time env k (rp_clusters plan)) (\<lambda>(latestTime, cs, res).
         case res of
           Some err \<Rightarrow> gbind (fail_plan env k t lock cs []) (\<lambda>_. gret (Some err, lock))
         | None \<Rightarrow> validate_known_time env k (plan\<lparr>rp_snapshotRestoreTime := latestTime\<rparr>) (lastErr, lock))
     else validate_known_time env k (plan\<lparr>rp_snapshotRestoreTime := t\<rparr>) (lastErr, lock))"
  have "triple (\<lambda>s. obj s = r) body ?Q (refused env)"
    unfolding body_def using latest fixed [of t] kt by (cases "t = []") simp_all
  moreover have "validate_plan env (k, plan) (lastErr, lock0) s = body s" if r: "obj s = r" for s
  proof (cases "was_locked r k")
    case True
    then obtain ps where "o_plan r k = Some ps" "rps_lock ps"
      by (auto simp: was_locked_def or_zero_def zero_plan_status_def split: option.splits)
    with True r have "lock = True" "t = rps_snapshotRestoreTime ps" "the_plan s k = Some ps"
      by (simp_all add: lock_def t_def or_zero_def)
    with \<open>rps_lock ps\<close> show ?thesis
      unfolding body_def by (simp add: validate_plan_def gbind_apply [of "gets _"] gets_apply)
  next
    case False
    then have "(case o_plan r k of Some ps \<Rightarrow> rps_lock ps | None \<Rightarrow> False) = False"
      by (simp add: was_locked_def or_zero_def split: option.splits)
    moreover from False have "lock = lock0" "t = rp_snapshotRestoreTime plan"
      by (simp_all add: lock_def t_def)
    ultimately show ?thesis
      using r unfolding body_def by (simp add: validate_plan_def gbind_apply [of "gets _"] gets_apply)
  qed
  ultimately show ?thesis by (simp add: triple_def)
qed

section \<open>All plans\<close>

text \<open>
  What the whole validation, started on \<open>r\<close>, says of one plan of the spec: the hook
  statuses and the scale-up mark stay, a locked plan stays locked, a known time is kept,
  and when there was no error the targets are those of the spec, validated.
\<close>

definition plan_settled ::
  "ebs_snapshot_restore \<Rightarrow> string set \<Rightarrow> goerr option \<Rightarrow> string \<Rightarrow> restore_plan \<Rightarrow> restore_plan_status \<Rightarrow> bool" where
  "plan_settled r K err k plan ps \<longleftrightarrow>
     rps_hooks ps = rps_hooks (or_zero (o_plan r k))
     \<and> rps_countScaleUp ps = rps_countScaleUp (or_zero (o_plan r k))
     \<and> (was_locked r k \<longrightarrow> rps_lock ps) \<and> (rps_lock ps \<longrightarrow> (\<exists>k' \<in> K. was_locked r k'))
     \<and> (\<forall>t. known_time r k plan = Some t \<longrightarrow> rps_snapshotRestoreTime ps = t)
     \<and> (err = None \<longrightarrow> plan_checked k plan ps)"

definition loop_inv ::
  "ebs_snapshot_restore \<Rightarrow> (string \<times> restore_plan) list \<Rightarrow> goerr option \<times> bool \<Rightarrow> ebs_snapshot_restore \<Rightarrow> bool" where
  "loop_inv r kvs v r' \<longleftrightarrow>
     esr_spec r' = esr_spec r
     \<and> snd v = (\<exists>k \<in> fst ` set kvs. was_locked r k)
     \<and> (\<forall>k. k \<notin> fst ` set kvs \<longrightarrow> o_plan r' k = o_plan r k)
     \<and> (\<forall>k plan. (k, plan) \<in> set kvs \<longrightarrow>
          (\<exists>ps. o_plan r' k = Some ps \<and> plan_settled r (fst ` set kvs) (fst v) k plan ps))
     \<and> o_phase r' = (if fst v = None then o_phase r else PhaseFailed)"

lemma plan_settled_mono:
  "plan_settled r K err k plan ps \<Longrightarrow> K \<subseteq> K' \<Longrightarrow> (err' = None \<Longrightarrow> err = None) \<Longrightarrow>
    plan_settled r K' err' k plan ps"
  unfolding plan_settled_def by blast

lemma known_time_cong: "o_plan r1 k = o_plan r2 k \<Longrightarrow> known_time r1 k plan = known_time r2 k plan"
  by (simp add: known_time_def was_locked_def)

lemma plan_outcome_settled:
  assumes "plan_outcome r1 k plan (known_time r k plan) lock err err' r'"
    and "o_plan r1 k = o_plan r k" and "lock = (\<exists>k' \<in> K. was_locked r k')" and "k \<in> K"
  obtains ps where "o_plan r' k = Some ps" and "plan_settled r K err' k plan ps"
proof -
  from assms(1) obtain ps where "o_plan r' k = Some ps" and "rps_lock ps = lock"
      and "\<forall>t. known_time r k plan = Some t \<longrightarrow> rps_snapshotRestoreTime ps = t"
      and "rps_hooks ps = rps_hooks (or_zero (o_plan r1 k))"
      and "rps_countScaleUp ps = rps_countScaleUp (or_zero (o_plan r1 k))"
      and "err' = None \<longrightarrow> plan_checked k plan ps"
    unfolding plan_outcome_def by blast
  with assms(2-4) have "plan_settled r K err' k plan ps"
    unfolding plan_settled_def by auto
  with \<open>o_plan r' k = Some ps\<close> show thesis by (rule that)
qed

lemma loop_inv_at: "loop_inv r kvs (err, lock) r' \<Longrightarrow> (k, plan) \<in> set kvs \<Longrightarrow>
    \<exists>ps. o_plan r' k = Some ps \<and> plan_settled r (fst ` set kvs) err k plan ps"
  by (simp add: loop_inv_def)

lemma loop_inv_step:
  assumes inv: "loop_inv r ys (err, lock0) r1" and k: "k \<notin> fst ` set ys"
    and out: "plan_outcome r1 k plan (known_time r1 k plan) lock err err' r'"
    and lock: "lock = (lock0 \<or> was_locked r1 k)"
  shows "loop_inv r (ys @ [(k, plan)]) (err', lock) r'"
proof -
  let ?K = "fst ` set (ys @ [(k, plan)])"
  from inv k have same: "o_plan r1 k = o_plan r k" by (simp add: loop_inv_def)
  then have wl: "was_locked r1 k = was_locked r k" by (simp add: was_locked_def)
  with lock inv have lock': "lock = (\<exists>k' \<in> ?K. was_locked r k')" by (auto simp: loop_inv_def)
  have out': "plan_outcome r1 k plan (known_time r k plan) lock err err' r'"
    using out known_time_cong [OF same] by simp
  obtain ps where ps: "o_plan r' k = Some ps" "plan_settled r ?K err' k plan ps"
    using plan_outcome_settled [OF out' same lock'] by auto
  have err: "err' = None \<longrightarrow> err = None" using out unfolding plan_outcome_def by blast
  have old: "\<exists>ps. o_plan r' k' = Some ps \<and> plan_settled r ?K err' k' plan' ps"
    if "(k', plan') \<in> set ys" for k' plan'
  proof -
    from inv that obtain qs where "o_plan r1 k' = Some qs" "plan_settled r (fst ` set ys) err k' plan' qs"
      by (blast dest: loop_inv_at)
    moreover have "k' \<noteq> k" using that k by force
    ultimately show ?thesis
      using out err by (auto simp: plan_outcome_def intro: plan_settled_mono)
  qed
  have "o_phase r' = (if err' = None then o_phase r else PhaseFailed)"
    using out inv by (auto simp: plan_outcome_def loop_inv_def split: if_splits)
  moreover have "esr_spec r' = esr_spec r" "\<forall>k'. k' \<notin> ?K \<longrightarrow> o_plan r' k' = o_plan r k'"
    using out inv by (auto simp: plan_outcome_def loop_inv_def)
  ultimately show ?thesis
    using lock' ps old by (auto simp: loop_inv_def)
qed

lemma triple_validate_loop:
  assumes "status_env env" and "distinct (map fst kvs)"
  shows "triple (\<lambda>s. obj s = r) (fold_go (validate_plan env) kvs (None, False))
     (\<lambda>v s. loop_inv r kvs v (obj s)) (refused env)"
proof -
  have "triple (\<lambda>s. loop_inv r [] (None, False) (obj s)) (fold_go (validate_plan env) kvs (None, False))
      (\<lambda>v s. loop_inv r kvs v (obj s)) (refused env)"
  proof (rule triple_fold [where I = "\<lambda>ys v s. loop_inv r ys v (obj s)"])
    fix ys x zs and v :: "goerr option \<times> bool" assume split: "kvs = ys @ x # zs"
    obtain k plan err lock0 where x: "x = (k, plan)" and v: "v = (err, lock0)" by (cases x, cases v) auto
    from assms(2) split x have k: "k \<notin> fst ` set ys" by auto
    show "triple (\<lambda>s. loop_inv r ys v (obj s)) (validate_plan env x v)
       (\<lambda>v' s. loop_inv r (ys @ [x]) v' (obj s)) (refused env)"
    proof (rule tripleI)
      fix s :: "'a st" assume inv: "loop_inv r ys v (obj s)"
      show "case validate_plan env x v s of
          (Ok v', t) \<Rightarrow> loop_inv r (ys @ [x]) v' (obj t) | (Err e, t) \<Rightarrow> \<not> patches_succeed env | (Panic p, t) \<Rightarrow> False"
        using triple_validate_plan [OF assms(1), of "obj s" k plan err lock0] loop_inv_step [OF inv [unfolded v] k]
        unfolding triple_def x v by (fastforce split: out.splits prod.splits)
    qed
  qed
  then show ?thesis by (rule triple_pre) (simp add: loop_inv_def)
qed

text \<open>The result of the whole validation on the plans \<open>m\<close>.\<close>

definition validated_all ::
  "ebs_snapshot_restore \<Rightarrow> goerr option \<Rightarrow> ebs_snapshot_restore \<Rightarrow> bool" where
  "validated_all r err r' \<longleftrightarrow>
     esr_spec r' = esr_spec r
     \<and> (\<forall>k. gm_get (sp_restorePlans (esr_spec r)) k = None \<longrightarrow> o_plan r' k = o_plan r k)
     \<and> (\<forall>k plan. gm_get (sp_restorePlans (esr_spec r)) k = Some plan \<longrightarrow>
          (\<exists>ps. o_plan r' k = Some ps
             \<and> plan_settled r {k. gm_get (sp_restorePlans (esr_spec r)) k \<noteq> None} err k plan ps))
     \<and> o_phase r' = (if err = None then o_phase r else PhaseFailed)"

lemma loop_inv_all:
  assumes "loop_inv r kvs (err, lock) r'"
    and "set kvs = {(k, p). gm_get (sp_restorePlans (esr_spec r)) k = Some p}"
  shows "validated_all r err r'"
proof -
  have "fst ` set kvs = {k. gm_get (sp_restorePlans (esr_spec r)) k \<noteq> None}"
    using assms(2) by force
  with assms show ?thesis by (simp add: loop_inv_def validated_all_def)
qed

lemma triple_validate_list:
  assumes "status_env env"
  shows "triple (\<lambda>s. obj s = r) (validate_list_snapshots env)
     (\<lambda>_ s. validated_all r None (obj s))
     (\<lambda>e s. patches_succeed env \<longrightarrow> validated_all r (Some e) (obj s))"
  unfolding validate_list_snapshots_def
proof (rule triple_gets_value [where c = "sp_restorePlans (esr_spec r)"], simp, rule triple_range_map, rule triple_gbind)
  fix kvs :: "(string \<times> restore_plan) list"
  assume kvs: "distinct (map fst kvs)"
  show "triple (\<lambda>s. obj s = r) (fold_go (validate_plan env) kvs (None, False))
      (\<lambda>v s. loop_inv r kvs v (obj s)) (\<lambda>e s. patches_succeed env \<longrightarrow> validated_all r (Some e) (obj s))"
    by (rule triple_post [OF triple_validate_loop [OF assms kvs]]) auto
next
  fix kvs :: "(string \<times> restore_plan) list" and v :: "goerr option \<times> bool"
  assume "set kvs = {(k, p). gm_get (sp_restorePlans (esr_spec r)) k = Some p}"
  then show "triple (\<lambda>s. loop_inv r kvs v (obj s))
      (case v of (lastErr, lock) \<Rightarrow> case lastErr of None \<Rightarrow> gret () | Some e \<Rightarrow> gthrow e)
      (\<lambda>_ s. validated_all r None (obj s))
      (\<lambda>e s. patches_succeed env \<longrightarrow> validated_all r (Some e) (obj s))"
    by (cases v; cases "fst v") (auto intro!: triple_gret triple_gthrow loop_inv_all)
qed

end
