(* ===== verification/Restore.thy ===== *)
theory Restore
  imports Status_Manager
begin

text \<open>
  \<open>internal/restore\<close>: for every plan of the status that is not locked, delete each claim
  that has a validated snapshot, create it again from the snapshot, wait for a volume and
  bind the claim to it; then mark the clusters restored and lock the plan.
\<close>

definition restore_poll_interval :: int where
  "restore_poll_interval = 5 * time_second"

definition restore_poll_timeout :: int where
  "restore_poll_timeout = 10 * time_minute"

section \<open>One claim\<close>

definition build_pvc_from_existing :: "pvc \<Rightarrow> restore_snapshot_ref \<Rightarrow> pvc" where
  "build_pvc_from_existing existsPVC rSnapRef =
     (let meta = (pvc_meta existsPVC)\<lparr>om_resourceVersion := [], om_uid := [], om_managedFields := [],
            om_creationTimestamp := 0, om_finalizers := [], om_ownerReferences := [], om_generation := 0\<rparr>
      in zero_pvc\<lparr>pvc_meta := meta,
           pvc_accessModes := pvc_accessModes existsPVC,
           pvc_storageClassName := sr_pvcStorageClass rSnapRef,
           pvc_resources := pvc_resources existsPVC,
           pvc_volumeMode := pvc_volumeMode existsPVC,
           pvc_dataSource := Some \<lparr>ds_apiGroup = Some ''snapshot.storage.k8s.io'',
             ds_kind = ''VolumeSnapshot'', ds_name = sr_snapshotName rSnapRef\<rparr>\<rparr>)"

definition wait_pvc_deleted :: "'w env \<Rightarrow> string \<Rightarrow> string \<Rightarrow> ('w st, unit) go" where
  "wait_pvc_deleted env name namespace =
     poll_until env restore_poll_interval restore_poll_timeout
       (gbind (attempt (api (EGetPVC name namespace) (k_get_pvc env name namespace))) (\<lambda>res.
          case res of
            Inl err \<Rightarrow> if is_not_found err then gret True else gthrow err
          | Inr p \<Rightarrow> gret False))"

definition wait_pvc_bound :: "'w env \<Rightarrow> string \<Rightarrow> string \<Rightarrow> ('w st, unit) go" where
  "wait_pvc_bound env name namespace =
     poll_until env restore_poll_interval restore_poll_timeout
       (gbind (api (EGetPVC name namespace) (k_get_pvc env name namespace)) (\<lambda>p.
          gret (pvc_phase p = ''Bound'')))"

definition claims :: "string \<Rightarrow> string \<Rightarrow> string \<Rightarrow> persistent_volume \<Rightarrow> bool" where
  "claims pvcName namespace pvcUID pv \<longleftrightarrow> pv_claimRef pv = Some (pvcName, namespace, pvcUID)"

definition poll_volumes :: "'w env \<Rightarrow> string \<Rightarrow> string \<Rightarrow> string \<Rightarrow> ('w st, unit) go" where
  "poll_volumes env pvcName namespace pvcUID =
     poll_until env restore_poll_interval restore_poll_timeout
       (gbind (api EListPV (k_list_pv env)) (\<lambda>pvList.
          case find (claims pvcName namespace pvcUID) pvList of
            Some pv \<Rightarrow> gbind (modify (\<lambda>s. s\<lparr>pv_name := pv_objName pv\<rparr>)) (\<lambda>_. gret True)
          | None \<Rightarrow> gret False))"

text \<open>
  \<open>return pvName, wait.Poll...\<close>: the language does not say whether the variable is read
  before or after the call whose closure assigns it; \<open>k_operand_first\<close> is the compiler's
  choice.
\<close>

definition wait_pv_provisioned :: "'w env \<Rightarrow> string \<Rightarrow> string \<Rightarrow> string \<Rightarrow> ('w st, string) go" where
  "wait_pv_provisioned env pvcName namespace pvcUID =
     gbind (modify (\<lambda>s. s\<lparr>pv_name := []\<rparr>)) (\<lambda>_.
     if k_operand_first env then
       gbind (gets pv_name) (\<lambda>pvName.
       gbind (poll_volumes env pvcName namespace pvcUID) (\<lambda>_. gret pvName))
     else
       gbind (poll_volumes env pvcName namespace pvcUID) (\<lambda>_. gets pv_name))"

text \<open>The part of \<open>restorePVC\<close> after the existing claim is gone.\<close>

definition provision_pvc :: "'w env \<Rightarrow> string \<Rightarrow> restore_snapshot_ref \<Rightarrow> pvc \<Rightarrow> ('w st, unit) go" where
  "provision_pvc env namespace rSnapRef newPVC =
     gbind (api (ECreatePVC newPVC) (k_create_pvc env newPVC)) (\<lambda>created.
     gbind (wait_pv_provisioned env (sr_pvcName rSnapRef) namespace (om_uid (pvc_meta created))) (\<lambda>pvName.
     let patched = created\<lparr>pvc_volumeName := pvName\<rparr>
     in gbind (api (EPatchPVC patched) (k_patch_pvc env created patched)) (\<lambda>_.
        wait_pvc_bound env (sr_pvcName rSnapRef) namespace)))"

definition restore_pvc :: "'w env \<Rightarrow> string \<Rightarrow> restore_snapshot_ref \<Rightarrow> ('w st, unit) go" where
  "restore_pvc env namespace rSnapRef =
     (let name = sr_pvcName rSnapRef
      in gbind (attempt (api (EGetPVC name namespace) (k_get_pvc env name namespace))) (\<lambda>res.
         case res of
           Inl err \<Rightarrow>
             if \<not> is_not_found err then gthrow err
             else provision_pvc env namespace rSnapRef (build_pvc_from_existing zero_pvc rSnapRef)
         | Inr existsPVC \<Rightarrow>
             let newPVC = build_pvc_from_existing existsPVC rSnapRef
             in gbind (api (EDeletePVC existsPVC) (k_delete_pvc env existsPVC)) (\<lambda>_.
                gbind (wait_pvc_deleted env name namespace) (\<lambda>_.
                provision_pvc env namespace rSnapRef newPVC))))"

section \<open>All plans\<close>

definition restore_snaps :: "'w env \<Rightarrow> string \<Rightarrow> restore_snapshot_ref list \<Rightarrow> ('w st, unit) go" where
  "restore_snaps env namespace snaps =
     for_each (\<lambda>snap. if sr_skipRestoringPVC snap then gret () else restore_pvc env namespace snap) snaps"

text \<open>The loop over the clusters of a plan; \<open>clusters\<close> is the copy the loop marks.\<close>

fun restore_clusters ::
  "'w env \<Rightarrow> string \<Rightarrow> restore_target_status list \<Rightarrow> nat \<Rightarrow> restore_target_status list \<Rightarrow>
   restore_target_status list \<Rightarrow> ('w st, restore_target_status list) go" where
  "restore_clusters env planStatusName operators key [] clusters = gret clusters"
| "restore_clusters env planStatusName operators key (cluster # rest) clusters =
     gbind (attempt (restore_snaps env (rts_namespace cluster) (rts_snapshotsRef cluster))) (\<lambda>res.
       case res of
         Inl err \<Rightarrow>
           let failed = clusters[key := (clusters ! key)\<lparr>rts_phase := PhaseFailed, rts_error := err_text err\<rparr>]
           in gbind (set_restore_from_plan env planStatusName False failed operators) (\<lambda>_.
              gbind (set_phase env PhaseFailed) (\<lambda>_. gthrow err))
       | Inr _ \<Rightarrow>
           restore_clusters env planStatusName operators (Suc key) rest
             (clusters[key := (clusters ! key)\<lparr>rts_phase := PhaseRestored\<rparr>]))"

definition restore_one_plan :: "'w env \<Rightarrow> string \<times> restore_plan_status \<Rightarrow> ('w st, unit) go" where
  "restore_one_plan env kv =
     (let planStatusName = fst kv; planStatus = snd kv
      in gbind (set_active_plan env planStatusName) (\<lambda>_.
         gbind (gets (\<lambda>s. gm_get (sp_restorePlans (esr_spec (obj s))) planStatusName)) (\<lambda>specPlan.
         if specPlan \<noteq> None \<and> rps_lock planStatus then gret ()
         else
           gbind (restore_clusters env planStatusName (rps_operators planStatus) 0
                    (rps_clusters planStatus) (rps_clusters planStatus)) (\<lambda>clusters.
           set_restore_from_plan env planStatusName True clusters (rps_operators planStatus)))))"

definition restore_from_plan :: "'w env \<Rightarrow> ('w st, unit) go" where
  "restore_from_plan env =
     gbind (gets (\<lambda>s. rs_restorePlans (the_status s))) (\<lambda>plans.
     gbind (range_map env plans) (\<lambda>kvs. for_each (restore_one_plan env) kvs))"

section \<open>Waiting\<close>

lemma triple_wait_quiet:
  assumes "poll_ok env"
    and "triple (\<lambda>s. obj s = r \<and> mutations s = M) cond (\<lambda>_ s. obj s = r \<and> mutations s = M)
           (\<lambda>_ s. obj s = r \<and> mutations s = M)"
  shows "triple (\<lambda>s. obj s = r \<and> mutations s = M) (poll_until env iv to cond)
     (\<lambda>_ s. obj s = r \<and> mutations s = M) (\<lambda>_ s. obj s = r \<and> mutations s = M)"
  by (rule triple_poll [OF assms(1) triple_post [OF assms(2)]]) auto

lemma triple_wait_pvc_deleted:
  assumes "poll_ok env"
  shows "triple (\<lambda>s. obj s = r \<and> mutations s = M) (wait_pvc_deleted env n ns)
     (\<lambda>_ s. obj s = r \<and> mutations s = M) (\<lambda>_ s. obj s = r \<and> mutations s = M)"
  unfolding wait_pvc_deleted_def
  by (rule triple_wait_quiet [OF assms])
    (auto simp: triple_def go_run split: prod.splits sum.splits)

lemma triple_wait_pvc_bound:
  assumes "poll_ok env"
  shows "triple (\<lambda>s. obj s = r \<and> mutations s = M) (wait_pvc_bound env n ns)
     (\<lambda>_ s. obj s = r \<and> mutations s = M) (\<lambda>_ s. obj s = r \<and> mutations s = M)"
  unfolding wait_pvc_bound_def
  by (rule triple_wait_quiet [OF assms])
    (auto simp: triple_def go_run split: prod.splits sum.splits)

text \<open>The volume's name, when the variable is read after the wait; nothing when before.\<close>

definition volume_for :: "'w env \<Rightarrow> string \<Rightarrow> string \<Rightarrow> string \<Rightarrow> string \<Rightarrow> bool" where
  "volume_for env n ns uid v \<longleftrightarrow>
     (if k_operand_first env then v = []
      else \<exists>w w' pvs pv. k_list_pv env w = (Inr pvs, w') \<and> pv \<in> set pvs \<and> claims n ns uid pv \<and> v = pv_objName pv)"

lemma triple_poll_volumes:
  assumes "poll_ok env"
  shows "triple (\<lambda>s. obj s = r \<and> mutations s = M) (poll_volumes env n ns uid)
     (\<lambda>_ s. obj s = r \<and> mutations s = M \<and> (\<exists>w w' pvs pv. k_list_pv env w = (Inr pvs, w') \<and> pv \<in> set pvs
        \<and> claims n ns uid pv \<and> pv_name s = pv_objName pv))
     (\<lambda>_ s. obj s = r \<and> mutations s = M)"
  unfolding poll_volumes_def
proof (rule triple_poll [OF assms, where I = "\<lambda>s. obj s = r \<and> mutations s = M"])
  let ?I = "\<lambda>s. obj s = r \<and> mutations s = M"
  let ?Q = "\<lambda>s. obj s = r \<and> mutations s = M \<and> (\<exists>w w' pvs pv. k_list_pv env w = (Inr pvs, w') \<and> pv \<in> set pvs
        \<and> claims n ns uid pv \<and> pv_name s = pv_objName pv)"
  show "triple ?I (gbind (api EListPV (k_list_pv env)) (\<lambda>pvList.
          case find (claims n ns uid) pvList of
            Some pv \<Rightarrow> gbind (modify (\<lambda>s. s\<lparr>pv_name := pv_objName pv\<rparr>)) (\<lambda>_. gret True)
          | None \<Rightarrow> gret False)) (\<lambda>b s. if b then ?Q s else ?I s) (\<lambda>_. ?I)"
  proof (rule triple_gbind [OF triple_call [where Q = "\<lambda>pvs s. ?I s \<and> (\<exists>w w'. k_list_pv env w = (Inr pvs, w'))"]])
    fix pvs
    show "triple (\<lambda>s. ?I s \<and> (\<exists>w w'. k_list_pv env w = (Inr pvs, w')))
       (case find (claims n ns uid) pvs of
            Some pv \<Rightarrow> gbind (modify (\<lambda>s. s\<lparr>pv_name := pv_objName pv\<rparr>)) (\<lambda>_. gret True)
          | None \<Rightarrow> gret False) (\<lambda>b s. if b then ?Q s else ?I s) (\<lambda>_. ?I)"
      by (auto simp: triple_def go_run find_Some_iff split: option.splits) (metis nth_mem)
  qed auto
qed auto

lemma triple_wait_pv:
  assumes "poll_ok env"
  shows "triple (\<lambda>s. obj s = r \<and> mutations s = M) (wait_pv_provisioned env n ns uid)
     (\<lambda>v s. volume_for env n ns uid v \<and> obj s = r \<and> mutations s = M) (\<lambda>_ s. obj s = r \<and> mutations s = M)"
proof (cases "k_operand_first env")
  case True
  show ?thesis
    unfolding wait_pv_provisioned_def if_P [OF True]
    by (rule triple_gbind [OF triple_modify [where Q = "\<lambda>_ s. obj s = r \<and> mutations s = M \<and> pv_name s = []"]], simp,
        rule triple_gets_value [where c = "[]"], simp, rule triple_gbind [OF triple_pre [OF triple_poll_volumes [OF assms]]])
      (auto intro!: triple_gret simp: volume_for_def True)
next
  case False
  show ?thesis
    unfolding wait_pv_provisioned_def if_not_P [OF False]
    by (rule triple_gbind [OF triple_modify [where Q = "\<lambda>_ s. obj s = r \<and> mutations s = M"]], simp,
        rule triple_gbind [OF triple_poll_volumes [OF assms]])
      (auto intro!: triple_gets simp: volume_for_def False)
qed

section \<open>The calls made for one claim\<close>

text \<open>What the server said of the claim before: it exists, or there is none.\<close>

definition claim_before :: "'w env \<Rightarrow> string \<Rightarrow> string \<Rightarrow> pvc option \<Rightarrow> bool" where
  "claim_before env n ns before \<longleftrightarrow> (\<exists>w w'. case before of
      Some p \<Rightarrow> k_get_pvc env n ns w = (Inr p, w')
    | None \<Rightarrow> \<exists>e. k_get_pvc env n ns w = (Inl e, w') \<and> is_not_found e)"

definition delete_calls :: "pvc option \<Rightarrow> event list" where
  "delete_calls before = (case before of None \<Rightarrow> [] | Some p \<Rightarrow> [EDeletePVC p])"

definition rebuilt :: "restore_snapshot_ref \<Rightarrow> pvc option \<Rightarrow> pvc" where
  "rebuilt ref before = build_pvc_from_existing (case before of None \<Rightarrow> zero_pvc | Some p \<Rightarrow> p) ref"

text \<open>The stages of a restore; a failure leaves the calls of one of them.\<close>

inductive restore_stage :: "'w env \<Rightarrow> string \<Rightarrow> restore_snapshot_ref \<Rightarrow> nat \<Rightarrow> event list \<Rightarrow> bool"
  for env ns ref where
  untouched: "restore_stage env ns ref 0 []"
| deleted: "claim_before env (sr_pvcName ref) ns before \<Longrightarrow> restore_stage env ns ref 1 (delete_calls before)"
| recreated: "claim_before env (sr_pvcName ref) ns before \<Longrightarrow>
    restore_stage env ns ref 2 (delete_calls before @ [ECreatePVC (rebuilt ref before)])"
| bound: "claim_before env (sr_pvcName ref) ns before \<Longrightarrow>
    k_create_pvc env (rebuilt ref before) w = (Inr created, w') \<Longrightarrow>
    volume_for env (sr_pvcName ref) ns (om_uid (pvc_meta created)) v \<Longrightarrow>
    restore_stage env ns ref 3 (delete_calls before
      @ [ECreatePVC (rebuilt ref before), EPatchPVC (created\<lparr>pvc_volumeName := v\<rparr>)])"

inductive_cases restore_stage_doneE: "restore_stage env ns ref 3 calls"

definition staged :: "'w env \<Rightarrow> string \<Rightarrow> restore_snapshot_ref \<Rightarrow> event list \<Rightarrow> 'w st \<Rightarrow> bool" where
  "staged env ns ref M s \<longleftrightarrow> (\<exists>k calls. restore_stage env ns ref k calls \<and> mutations s = M @ calls)"

lemma stagedI: "restore_stage env ns ref k calls \<Longrightarrow> mutations s = M @ calls \<Longrightarrow> staged env ns ref M s"
  unfolding staged_def by blast

lemma triple_provision_pvc:
  assumes poll: "poll_ok env" and before: "claim_before env (sr_pvcName ref) ns before"
  shows "triple (\<lambda>s. obj s = r \<and> mutations s = M @ delete_calls before)
     (provision_pvc env ns ref (rebuilt ref before))
     (\<lambda>_ s. obj s = r \<and> (\<exists>calls. restore_stage env ns ref 3 calls \<and> mutations s = M @ calls))
     (\<lambda>_ s. obj s = r \<and> staged env ns ref M s)"
proof -
  let ?new = "rebuilt ref before" and ?n = "sr_pvcName ref"
  let ?M1 = "M @ delete_calls before @ [ECreatePVC ?new]"
  let ?E = "\<lambda>_ s. obj s = r \<and> staged env ns ref M s"
  have st2: "restore_stage env ns ref 2 (delete_calls before @ [ECreatePVC ?new])"
    using before by (rule recreated)
  have last: "triple (\<lambda>s. volume_for env ?n ns (om_uid (pvc_meta created)) v \<and> obj s = r \<and> mutations s = ?M1)
      (gbind (api (EPatchPVC (created\<lparr>pvc_volumeName := v\<rparr>)) (k_patch_pvc env created (created\<lparr>pvc_volumeName := v\<rparr>)))
         (\<lambda>_. wait_pvc_bound env ?n ns))
      (\<lambda>_ s. obj s = r \<and> (\<exists>calls. restore_stage env ns ref 3 calls \<and> mutations s = M @ calls)) ?E"
    if created: "k_create_pvc env ?new w = (Inr created, w')" for created v w w'
  proof (rule triple_assume)
    let ?p = "created\<lparr>pvc_volumeName := v\<rparr>"
    let ?calls = "delete_calls before @ [ECreatePVC ?new, EPatchPVC ?p]"
    assume "volume_for env ?n ns (om_uid (pvc_meta created)) v"
    then have st3: "restore_stage env ns ref 3 ?calls" using before created by (blast intro: bound)
    show "triple (\<lambda>s. obj s = r \<and> mutations s = ?M1)
      (gbind (api (EPatchPVC ?p) (k_patch_pvc env created ?p)) (\<lambda>_. wait_pvc_bound env ?n ns))
      (\<lambda>_ s. obj s = r \<and> (\<exists>calls. restore_stage env ns ref 3 calls \<and> mutations s = M @ calls)) ?E"
    proof (rule triple_seq [OF triple_call [where Q = "\<lambda>_ s. obj s = r \<and> mutations s = M @ ?calls"
            and E = "\<lambda>_ s. obj s = r \<and> mutations s = M @ ?calls"]])
      show "triple (\<lambda>s. obj s = r \<and> mutations s = M @ ?calls) (wait_pvc_bound env ?n ns)
        (\<lambda>_ s. obj s = r \<and> (\<exists>calls. restore_stage env ns ref 3 calls \<and> mutations s = M @ calls)) ?E"
        by (rule triple_post [OF triple_wait_pvc_bound [OF poll]]) (use st3 in \<open>auto intro: stagedI\<close>)
    qed (use st3 in \<open>auto intro: stagedI\<close>)
  qed
  show ?thesis
    unfolding provision_pvc_def Let_def
  proof (rule triple_seq [OF triple_call [where E = "\<lambda>_ s. obj s = r \<and> mutations s = ?M1"
        and Q = "\<lambda>created s. (\<exists>w w'. k_create_pvc env ?new w = (Inr created, w')) \<and> obj s = r \<and> mutations s = ?M1"]])
    fix created
    show "triple (\<lambda>s. (\<exists>w w'. k_create_pvc env ?new w = (Inr created, w')) \<and> obj s = r \<and> mutations s = ?M1)
       (gbind (wait_pv_provisioned env ?n ns (om_uid (pvc_meta created))) (\<lambda>pvName.
          gbind (api (EPatchPVC (created\<lparr>pvc_volumeName := pvName\<rparr>))
                   (k_patch_pvc env created (created\<lparr>pvc_volumeName := pvName\<rparr>))) (\<lambda>_.
            wait_pvc_bound env ?n ns)))
       (\<lambda>_ s. obj s = r \<and> (\<exists>calls. restore_stage env ns ref 3 calls \<and> mutations s = M @ calls)) ?E"
      by (rule triple_assume, rule triple_seq [OF triple_wait_pv [OF poll]]) (use st2 last in \<open>auto intro: stagedI\<close>)
  qed (use st2 in \<open>auto intro: stagedI\<close>)
qed

lemma triple_restore_pvc:
  assumes poll: "poll_ok env"
  shows "triple (\<lambda>s. obj s = r \<and> mutations s = M) (restore_pvc env ns ref)
     (\<lambda>_ s. obj s = r \<and> (\<exists>calls. restore_stage env ns ref 3 calls \<and> mutations s = M @ calls))
     (\<lambda>_ s. obj s = r \<and> staged env ns ref M s)"
proof -
  let ?n = "sr_pvcName ref"
  let ?E = "\<lambda>_ s. obj s = r \<and> staged env ns ref M s"
  let ?Q = "\<lambda>_ s. obj s = r \<and> (\<exists>calls. restore_stage env ns ref 3 calls \<and> mutations s = M @ calls)"
  have gone: "triple (\<lambda>s. claim_before env ?n ns None \<and> obj s = r \<and> mutations s = M)
      (provision_pvc env ns ref (build_pvc_from_existing zero_pvc ref)) ?Q ?E"
    using triple_provision_pvc [OF poll, of ref ns None r M]
    by (intro triple_assume) (simp add: rebuilt_def delete_calls_def)
  have exists: "triple (\<lambda>s. claim_before env ?n ns (Some p) \<and> obj s = r \<and> mutations s = M)
      (gbind (api (EDeletePVC p) (k_delete_pvc env p)) (\<lambda>_.
       gbind (wait_pvc_deleted env ?n ns) (\<lambda>_.
       provision_pvc env ns ref (build_pvc_from_existing p ref)))) ?Q ?E" for p
  proof (rule triple_assume)
    let ?I = "\<lambda>_ s. obj s = r \<and> mutations s = M @ delete_calls (Some p)"
    assume before: "claim_before env ?n ns (Some p)"
    then have E: "?E e s" if "?I e s" for e :: goerr and s
      using that by (auto intro: stagedI deleted)
    show "triple (\<lambda>s. obj s = r \<and> mutations s = M) (gbind (api (EDeletePVC p) (k_delete_pvc env p)) (\<lambda>_.
       gbind (wait_pvc_deleted env ?n ns) (\<lambda>_.
       provision_pvc env ns ref (build_pvc_from_existing p ref)))) ?Q ?E"
    proof (rule triple_seq [OF triple_call [where Q = ?I and E = ?I]])
      show "triple (?I x) (gbind (wait_pvc_deleted env ?n ns) (\<lambda>_.
         provision_pvc env ns ref (build_pvc_from_existing p ref))) ?Q ?E" for x
        using E triple_provision_pvc [OF poll before, of r M]
        by (intro triple_seq [OF triple_wait_pvc_deleted [OF poll]]) (auto simp: rebuilt_def)
    qed (use E in \<open>auto simp: delete_calls_def\<close>)
  qed
  let ?A = "\<lambda>res s. case res of Inl e \<Rightarrow> (is_not_found e \<longrightarrow> claim_before env ?n ns None) \<and> obj s = r \<and> mutations s = M
      | Inr p \<Rightarrow> claim_before env ?n ns (Some p) \<and> obj s = r \<and> mutations s = M"
  have get: "triple (\<lambda>s. obj s = r \<and> mutations s = M) (attempt (api (EGetPVC ?n ns) (k_get_pvc env ?n ns))) ?A ?E"
    by (auto simp: triple_def go_run claim_before_def split: prod.splits sum.splits)
  show ?thesis
    unfolding restore_pvc_def Let_def
  proof (rule triple_gbind [OF get])
    fix res
    show "triple (?A res) (case res of Inl err \<Rightarrow> if \<not> is_not_found err then gthrow err
          else provision_pvc env ns ref (build_pvc_from_existing zero_pvc ref)
        | Inr p \<Rightarrow> gbind (api (EDeletePVC p) (k_delete_pvc env p)) (\<lambda>_.
            gbind (wait_pvc_deleted env ?n ns) (\<lambda>_.
            provision_pvc env ns ref (build_pvc_from_existing p ref)))) ?Q ?E"
    proof (cases res)
      case (Inl e)
      then show ?thesis
        using gone by (cases "is_not_found e") (auto intro!: triple_gthrow stagedI [OF untouched])
    qed (use exists in simp)
  qed
qed

section \<open>The calls of a whole restore\<close>

text \<open>
  \<open>logged env elig M s\<close>: after the calls \<open>M\<close>, only status patches and the calls of the
  stages for claims in \<open>elig\<close> were made.
\<close>

definition restore_call :: "'w env \<Rightarrow> (string \<times> restore_snapshot_ref) set \<Rightarrow> event \<Rightarrow> bool" where
  "restore_call env elig e \<longleftrightarrow> is_status_patch e
     \<or> (\<exists>ns ref k calls. (ns, ref) \<in> elig \<and> restore_stage env ns ref k calls \<and> e \<in> set calls)"

abbreviation logged :: "'w env \<Rightarrow> (string \<times> restore_snapshot_ref) set \<Rightarrow> event list \<Rightarrow> 'w st \<Rightarrow> bool" where
  "logged env elig \<equiv> did (restore_call env elig)"

lemma restore_call_status [simp]: "restore_call env elig (EPatchStatus new)"
  by (simp add: restore_call_def)

lemma logged_stage:
  "\<lbrakk>logged env elig M s; (ns, ref) \<in> elig; restore_stage env ns ref k calls; mutations t = mutations s @ calls\<rbrakk>
   \<Longrightarrow> logged env elig M t"
  by (erule did_more) (auto simp: restore_call_def)

lemma logged_written: "written f s t \<Longrightarrow> logged env elig M s \<Longrightarrow> logged env elig M t"
  by (rule did_written) simp_all

lemma triple_restore_snaps:
  assumes poll: "poll_ok env"
    and elig: "\<And>ref. ref \<in> set snaps \<Longrightarrow> \<not> sr_skipRestoringPVC ref \<Longrightarrow> (ns, ref) \<in> elig"
  shows "triple (\<lambda>s. obj s = r \<and> logged env elig M s) (restore_snaps env ns snaps)
     (\<lambda>_ s. obj s = r \<and> logged env elig M s) (\<lambda>_ s. obj s = r \<and> logged env elig M s)"
  unfolding restore_snaps_def
proof (rule triple_for_each [where I = "\<lambda>_ s. obj s = r \<and> logged env elig M s"], rule triple_if)
  fix ys ref zs assume split: "snaps = ys @ ref # zs" and "\<not> sr_skipRestoringPVC ref"
  then have e: "(ns, ref) \<in> elig" by (auto intro: elig)
  show "triple (\<lambda>s. obj s = r \<and> logged env elig M s) (restore_pvc env ns ref)
     (\<lambda>_ s. obj s = r \<and> logged env elig M s) (\<lambda>_ s. obj s = r \<and> logged env elig M s)"
  proof (rule tripleI)
    fix s :: "'a st" assume s: "obj s = r \<and> logged env elig M s"
    have log: "logged env elig M t" if "restore_stage env ns ref k calls" "mutations t = mutations s @ calls" for k calls t
      using s logged_stage e that by blast
    have pre: "obj s = r \<and> mutations s = mutations s" using s by simp
    obtain res t where run: "restore_pvc env ns ref s = (res, t)" by force
    show "case restore_pvc env ns ref s of (Ok x, t) \<Rightarrow> obj t = r \<and> logged env elig M t
        | (Err e, t) \<Rightarrow> obj t = r \<and> logged env elig M t | (Panic p, t) \<Rightarrow> False"
    proof (cases res)
      case (Ok x)
      with triple_okD [OF triple_restore_pvc [OF poll] pre] run log show ?thesis by fastforce
    next
      case (Err e)
      with triple_errD [OF triple_restore_pvc [OF poll] pre] run log show ?thesis
        by (fastforce simp: staged_def)
    next
      case (Panic p)
      with triple_no_panic [OF triple_restore_pvc [OF poll] pre] run show ?thesis by blast
    qed
  qed
qed (simp add: triple_gret)

definition mark_restored :: "restore_target_status \<Rightarrow> restore_target_status" where
  "mark_restored c = c\<lparr>rts_phase := PhaseRestored\<rparr>"

definition plan_claims :: "restore_plan_status \<Rightarrow> (string \<times> restore_snapshot_ref) set" where
  "plan_claims ps = {(rts_namespace c, ref) | c ref.
     c \<in> set (rps_clusters ps) \<and> ref \<in> set (rts_snapshotsRef c) \<and> \<not> sr_skipRestoringPVC ref}"

abbreviation restore_failed ::
  "'w env \<Rightarrow> (string \<times> restore_snapshot_ref) set \<Rightarrow> event list \<Rightarrow> ebs_snapshot_restore \<Rightarrow> 'w st \<Rightarrow> bool" where
  "restore_failed env elig \<equiv> gave_up env (restore_call env elig)"

lemmas restore_failed_def = gave_up_def

lemma triple_fail_restore:
  "status_env env \<Longrightarrow> triple (\<lambda>s. obj s = r \<and> logged env elig M s)
     (gbind (set_restore_from_plan env k False cs ops) (\<lambda>_. gbind (set_phase env PhaseFailed) (\<lambda>_. gthrow err)))
     Q (\<lambda>_ s. restore_failed env elig M r s)"
  by (rule triple_pre [OF restored.give_up]) (simp_all add: stands_def)

lemma triple_restore_clusters:
  assumes env: "status_env env" "poll_ok env"
    and elig: "\<And>c ref. c \<in> set rest \<Longrightarrow> ref \<in> set (rts_snapshotsRef c) \<Longrightarrow> \<not> sr_skipRestoringPVC ref \<Longrightarrow>
      (rts_namespace c, ref) \<in> elig"
  shows "triple (\<lambda>s. obj s = r \<and> logged env elig M s)
     (restore_clusters env k ops (length pre) rest (map mark_restored pre @ rest))
     (\<lambda>cs s. cs = map mark_restored (pre @ rest) \<and> obj s = r \<and> logged env elig M s)
     (\<lambda>_ s. restore_failed env elig M r s)"
  using elig
proof (induction rest arbitrary: pre)
  case (Cons c rest)
  let ?I = "\<lambda>s. obj s = r \<and> logged env elig M s"
  have "(map mark_restored pre @ c # rest)[length pre := ((map mark_restored pre @ c # rest) ! length pre)\<lparr>rts_phase := PhaseRestored\<rparr>]
      = map mark_restored (pre @ [c]) @ rest"
    by (simp add: mark_restored_def list_update_append nth_append)
  moreover have "triple ?I (restore_clusters env k ops (length (pre @ [c])) rest (map mark_restored (pre @ [c]) @ rest))
     (\<lambda>cs s. cs = map mark_restored ((pre @ [c]) @ rest) \<and> obj s = r \<and> logged env elig M s)
     (\<lambda>_ s. restore_failed env elig M r s)"
    by (rule Cons.IH) (use Cons.prems in auto)
  ultimately have next_: "triple ?I (restore_clusters env k ops (Suc (length pre)) rest
      ((map mark_restored pre @ c # rest)[length pre := ((map mark_restored pre @ c # rest) ! length pre)\<lparr>rts_phase := PhaseRestored\<rparr>]))
     (\<lambda>cs s. cs = map mark_restored (pre @ c # rest) \<and> obj s = r \<and> logged env elig M s)
     (\<lambda>_ s. restore_failed env elig M r s)"
    by simp
  show ?case
    unfolding restore_clusters.simps Let_def
  proof (rule triple_gbind [OF triple_attempt [OF triple_restore_snaps [OF env(2)]]])
    fix res :: "goerr + unit"
    show "triple ?I (case res of
        Inl err \<Rightarrow> gbind (set_restore_from_plan env k False ((map mark_restored pre @ c # rest)[length pre :=
            ((map mark_restored pre @ c # rest) ! length pre)\<lparr>rts_phase := PhaseFailed, rts_error := err_text err\<rparr>]) ops)
          (\<lambda>_. gbind (set_phase env PhaseFailed) (\<lambda>_. gthrow err))
      | Inr _ \<Rightarrow> restore_clusters env k ops (Suc (length pre)) rest
          ((map mark_restored pre @ c # rest)[length pre := ((map mark_restored pre @ c # rest) ! length pre)\<lparr>rts_phase := PhaseRestored\<rparr>]))
     (\<lambda>cs s. cs = map mark_restored (pre @ c # rest) \<and> obj s = r \<and> logged env elig M s)
     (\<lambda>_ s. restore_failed env elig M r s)"
      using next_ triple_fail_restore [OF env(1)] by (cases res) simp_all
  qed (use Cons.prems in auto)
qed (simp add: triple_gret)

section \<open>All plans\<close>

definition in_spec :: "ebs_snapshot_restore \<Rightarrow> string \<Rightarrow> bool" where
  "in_spec r k \<longleftrightarrow> gm_get (sp_restorePlans (esr_spec r)) k \<noteq> None"

text \<open>What a plan's status becomes: unchanged when it is locked and still in the spec.\<close>

definition plan_after :: "ebs_snapshot_restore \<Rightarrow> string \<Rightarrow> restore_plan_status \<Rightarrow> restore_plan_status" where
  "plan_after r k ps = (if in_spec r k \<and> rps_lock ps then ps
     else ps\<lparr>rps_clusters := map mark_restored (rps_clusters ps), rps_lock := True\<rparr>)"

text \<open>The claims that a restore may touch.\<close>

definition eligible :: "ebs_snapshot_restore \<Rightarrow> (string \<times> restore_snapshot_ref) set" where
  "eligible r = \<Union> {plan_claims ps | k ps. o_plan r k = Some ps \<and> \<not> (in_spec r k \<and> rps_lock ps)}"

definition restore_inv ::
  "'w env \<Rightarrow> event list \<Rightarrow> ebs_snapshot_restore \<Rightarrow> string set \<Rightarrow> 'w st \<Rightarrow> bool" where
  "restore_inv env M r K s \<longleftrightarrow> logged env (eligible r) M s \<and> esr_spec (obj s) = esr_spec r
     \<and> o_phase (obj s) = o_phase r
     \<and> (\<forall>k. the_plan s k = (if k \<in> K then map_option (plan_after r k) (o_plan r k) else o_plan r k))"

lemma restore_inv_written:
  assumes "written f s t" and "restore_inv env M r K s" and "rs_phase (f (the_status s)) = o_phase r"
    and "plan_status (f (the_status s)) = (\<lambda>k. if k \<in> K' then map_option (plan_after r k) (o_plan r k) else o_plan r k)"
  shows "restore_inv env M r K' t"
  using assms(2-4) writtenD [OF assms(1)] logged_written [OF assms(1)]
  by (simp add: restore_inv_def)

lemma restore_inv_failed:
  "restore_inv env M r K s \<Longrightarrow> \<not> patches_succeed env \<Longrightarrow> restore_failed env (eligible r) M r s"
  by (simp add: restore_inv_def restore_failed_def)

lemma restore_inv_active:
  assumes "status_env env"
  shows "triple (restore_inv env M r K) (set_active_plan env k) (\<lambda>_. restore_inv env M r K)
     (\<lambda>_ s. restore_failed env (eligible r) M r s)"
proof (rule active.rule [OF assms])
  fix s t :: "'a st" assume a: "restore_inv env M r K s" "written (\<lambda>st. st\<lparr>rs_activePlan := k\<rparr>) s t"
  then show inv: "restore_inv env M r K t"
    by (intro restore_inv_written [OF a(2,1)]) (auto simp: restore_inv_def)
  then show "restore_failed env (eligible r) M r t" if "\<not> patches_succeed env"
    using that by (rule restore_inv_failed)
qed

lemma restore_inv_insert_same:
  "restore_inv env M r K s \<Longrightarrow> o_plan r k = Some ps \<Longrightarrow> in_spec r k \<Longrightarrow> rps_lock ps \<Longrightarrow>
    restore_inv env M r (insert k K) s"
  by (auto simp: restore_inv_def plan_after_def)

lemma restore_inv_mark:
  assumes inv: "restore_inv env M r K s" and k: "k \<notin> K" and ps: "o_plan r k = Some ps"
    and open_: "\<not> (in_spec r k \<and> rps_lock ps)"
    and w: "written (put_plan k (\<lambda>p. p\<lparr>rps_clusters := map mark_restored (rps_clusters ps),
        rps_operators := rps_operators ps, rps_lock := True\<rparr>)) s t"
  shows "restore_inv env M r (insert k K) t"
proof (rule restore_inv_written [OF w inv])
  have plans: "the_plan s x = (if x \<in> K then map_option (plan_after r x) (o_plan r x) else o_plan r x)" for x
    using inv by (simp add: restore_inv_def)
  have "ps\<lparr>rps_clusters := map mark_restored (rps_clusters ps), rps_operators := rps_operators ps,
      rps_lock := True\<rparr> = plan_after r k ps"
    using open_ by (cases "in_spec r k") (simp_all add: plan_after_def)
  then show "plan_status (put_plan k (\<lambda>p. p\<lparr>rps_clusters := map mark_restored (rps_clusters ps),
        rps_operators := rps_operators ps, rps_lock := True\<rparr>) (the_status s))
      = (\<lambda>x. if x \<in> insert k K then map_option (plan_after r x) (o_plan r x) else o_plan r x)"
    using k ps plans by (auto simp: plan_status_put_plan fun_eq_iff)
qed (use inv in \<open>simp add: restore_inv_def\<close>)

lemma restore_inv_same_log:
  "restore_inv env M r K s0 \<Longrightarrow> obj s = obj s0 \<Longrightarrow> logged env (eligible r) M s \<Longrightarrow> restore_inv env M r K s"
  by (simp add: restore_inv_def)

lemma eligibleI:
  assumes "o_plan r k = Some ps" and "\<not> (in_spec r k \<and> rps_lock ps)"
    and "c \<in> set (rps_clusters ps)" and "ref \<in> set (rts_snapshotsRef c)" and "\<not> sr_skipRestoringPVC ref"
  shows "(rts_namespace c, ref) \<in> eligible r"
proof -
  have "(rts_namespace c, ref) \<in> plan_claims ps" using assms(3-5) unfolding plan_claims_def by blast
  with assms(1,2) show ?thesis unfolding eligible_def by blast
qed

lemma triple_restore_one_plan:
  assumes env: "status_env env" "poll_ok env" and k: "k \<notin> K" and ps: "o_plan r k = Some ps"
  shows "triple (restore_inv env M r K) (restore_one_plan env (k, ps)) (\<lambda>_. restore_inv env M r (insert k K))
     (\<lambda>_ s. restore_failed env (eligible r) M r s)"
proof -
  let ?I = "restore_inv env M r K" and ?E = "\<lambda>_ s. restore_failed env (eligible r) M r s"
  let ?work = "gbind (restore_clusters env k (rps_operators ps) 0 (rps_clusters ps) (rps_clusters ps)) (\<lambda>clusters.
      set_restore_from_plan env k True clusters (rps_operators ps))"
  have work: "triple ?I ?work (\<lambda>_. restore_inv env M r (insert k K)) ?E" if open_: "\<not> (in_spec r k \<and> rps_lock ps)"
  proof (rule tripleI)
    fix s0 :: "'a st" assume inv: "?I s0"
    note elig = eligibleI [OF ps open_]
    have clusters: "triple (\<lambda>s. obj s = obj s0 \<and> logged env (eligible r) M s)
        (restore_clusters env k (rps_operators ps) 0 (rps_clusters ps) (rps_clusters ps))
        (\<lambda>cs s. cs = map mark_restored (rps_clusters ps) \<and> obj s = obj s0 \<and> logged env (eligible r) M s)
        (\<lambda>_ s. restore_failed env (eligible r) M (obj s0) s)"
      using triple_restore_clusters [OF env elig, where pre = "[]"] by simp
    have T: "triple (\<lambda>s. obj s = obj s0 \<and> logged env (eligible r) M s) ?work
        (\<lambda>_. restore_inv env M r (insert k K)) ?E"
    proof (rule triple_seq [OF clusters])
      fix clusters
      show "triple (\<lambda>s. clusters = map mark_restored (rps_clusters ps) \<and> obj s = obj s0 \<and> logged env (eligible r) M s)
          (set_restore_from_plan env k True clusters (rps_operators ps)) (\<lambda>_. restore_inv env M r (insert k K)) ?E"
      proof (rule restored.rule [OF env(1)])
        fix s t :: "'a st"
        assume s: "clusters = map mark_restored (rps_clusters ps) \<and> obj s = obj s0 \<and> logged env (eligible r) M s"
          and w: "written (put_plan k (\<lambda>p. p\<lparr>rps_clusters := clusters, rps_operators := rps_operators ps,
              rps_lock := True\<rparr>)) s t"
        from s have "?I s" using restore_inv_same_log [OF inv] by blast
        then show inv': "restore_inv env M r (insert k K) t"
          by (rule restore_inv_mark [OF _ k ps open_ w [unfolded conjunct1 [OF s]]])
        show "?E e t" if "\<not> patches_succeed env" for e :: goerr using inv' that by (rule restore_inv_failed)
      qed
    qed (use inv in \<open>auto simp: restore_failed_def restore_inv_def\<close>)
    from inv have pre: "obj s0 = obj s0 \<and> logged env (eligible r) M s0" by (simp add: restore_inv_def)
    show "case ?work s0 of (Ok x, t) \<Rightarrow> restore_inv env M r (insert k K) t | (Err e, t) \<Rightarrow> ?E e t | (Panic p, t) \<Rightarrow> False"
      by (rule T [unfolded triple_def, rule_format, OF pre])
  qed
  show ?thesis
    unfolding restore_one_plan_def Let_def fst_conv snd_conv
  proof (rule triple_gbind [OF restore_inv_active [OF env(1)]],
      rule triple_gets_value [where c = "gm_get (sp_restorePlans (esr_spec r)) k"], simp add: restore_inv_def, rule triple_if)
    assume "gm_get (sp_restorePlans (esr_spec r)) k \<noteq> None \<and> rps_lock ps"
    then show "triple ?I (gret ()) (\<lambda>_. restore_inv env M r (insert k K)) ?E"
      using restore_inv_insert_same [OF _ ps] by (auto intro!: triple_gret simp: in_spec_def)
  next
    assume "\<not> (gm_get (sp_restorePlans (esr_spec r)) k \<noteq> None \<and> rps_lock ps)"
    then show "triple ?I ?work (\<lambda>_. restore_inv env M r (insert k K)) ?E"
      by (intro work) (simp add: in_spec_def)
  qed
qed

lemma triple_restore_from_plan:
  assumes env: "status_env env" "poll_ok env"
  shows "triple (\<lambda>s. obj s = r \<and> mutations s = M) (restore_from_plan env)
     (\<lambda>_. restore_inv env M r UNIV) (\<lambda>_ s. restore_failed env (eligible r) M r s)"
  unfolding restore_from_plan_def
proof (rule triple_gets_value [where c = "rs_restorePlans (esr_status r)"], simp, rule triple_range_map)
  fix kvs :: "(string \<times> restore_plan_status) list"
  assume kvs: "distinct (map fst kvs)" "set kvs = {(k, v). gm_get (rs_restorePlans (esr_status r)) k = Some v}"
  let ?E = "\<lambda>_ s. restore_failed env (eligible r) M r s"
  have loop: "triple (restore_inv env M r (fst ` set ([] :: (string \<times> restore_plan_status) list))) (for_each (restore_one_plan env) kvs)
     (\<lambda>_. restore_inv env M r (fst ` set kvs)) ?E"
  proof (rule triple_for_each [where I = "\<lambda>ys. restore_inv env M r (fst ` set ys)" and xs = kvs])
    fix ys kv zs assume split: "kvs = ys @ kv # zs"
    obtain k ps where kv: "kv = (k, ps)" by force
    from kvs split kv have "k \<notin> fst ` set ys" and "(k, ps) \<in> set kvs" by auto
    with kvs(2) have "k \<notin> fst ` set ys" and "o_plan r k = Some ps" by (simp_all add: plan_status_def)
    from triple_restore_one_plan [OF env this] kv
    show "triple (restore_inv env M r (fst ` set ys)) (restore_one_plan env kv)
        (\<lambda>_. restore_inv env M r (fst ` set (ys @ [kv]))) ?E"
      by simp
  qed
  have all: "restore_inv env M r UNIV s" if "restore_inv env M r (fst ` set kvs) s" for s
  proof -
    have "o_plan r k = None" if "k \<notin> fst ` set kvs" for k
      using that kvs(2) by (force simp: plan_status_def)
    with that show ?thesis by (auto simp: restore_inv_def)
  qed
  show "triple (\<lambda>s. obj s = r \<and> mutations s = M) (for_each (restore_one_plan env) kvs)
     (\<lambda>_. restore_inv env M r UNIV) ?E"
    by (rule triple_weaken [OF loop _ all]) (auto simp: restore_inv_def)
qed

end
