(* ===== verification/Scale.thy ===== *)
theory Scale
  imports Status_Manager
begin

text \<open>
  \<open>internal/scale\<close>: scale the workloads of every plan down before the restore (operators
  first, then clusters) and up after it (clusters first, then operators), waiting for each
  target.  A stateful set with ordered pod management can be replaced, for the time of the
  scale-up, by one with parallel pod management.
\<close>

definition scale_poll_interval :: int where
  "scale_poll_interval = 5 * time_second"

definition scale_poll_timeout :: int where
  "scale_poll_timeout = 10 * time_minute"

definition sts_poll_interval :: int where
  "sts_poll_interval = 2 * time_second"

definition sts_poll_timeout :: int where
  "sts_poll_timeout = 10 * time_second"

definition scale_up_wait_timeout :: int where
  "scale_up_wait_timeout = 20 * time_second"

definition up_scale :: string where
  "up_scale = ''up''"

definition down_scale :: string where
  "down_scale = ''down''"

section \<open>Stateful sets\<close>

definition scale_cluster_down :: "'w env \<Rightarrow> restore_target \<Rightarrow> ('w st, unit) go" where
  "scale_cluster_down env cluster =
     (let n = rt_name cluster; ns = rt_namespace cluster
      in gbind (api (EGetSTS n ns) (k_get_sts env n ns)) (\<lambda>sts.
         gbind (if sts_replicas sts = None \<or> sts_replicas sts \<noteq> Some 0 then
                  let scaled = sts\<lparr>sts_replicas := Some 0\<rparr>
                  in gbind (api (EPatchSTS scaled) (k_patch_sts env sts scaled)) (\<lambda>_. gret ())
                else gret ()) (\<lambda>_.
         if rt_skipWaitScaleDown cluster then gret ()
         else poll_until env scale_poll_interval scale_poll_timeout
           (gbind (api (EGetSTS n ns) (k_get_sts env n ns)) (\<lambda>sts.
              gret (sts_statusReplicas sts = 0 \<and> sts_readyReplicas sts = 0))))))"

definition recreate_sts :: "'w env \<Rightarrow> stateful_set \<Rightarrow> pod_policy \<Rightarrow> ('w st, unit) go" where
  "recreate_sts env sts podManagementPolicy =
     (let n = om_name (sts_meta sts); ns = om_namespace (sts_meta sts)
      in gbind (wrap_err ''failed to delete STS''
                  (api (EDeleteSTS sts ''Orphan'') (k_delete_sts env sts ''Orphan''))) (\<lambda>_.
         gbind (wrap_err ''timed out waiting for STS deletion''
                  (poll_until env sts_poll_interval sts_poll_timeout
                     (gbind (attempt (api (EGetSTS n ns) (k_get_sts env n ns))) (\<lambda>res.
                        case res of
                          Inl err \<Rightarrow> if is_not_found err then gret True else gthrow err
                        | Inr existing \<Rightarrow> gret False)))) (\<lambda>_.
         let newSTS = sts\<lparr>sts_meta := (sts_meta sts)\<lparr>om_resourceVersion := [], om_uid := []\<rparr>,
                          sts_podManagementPolicy := podManagementPolicy\<rparr>
         in gbind (wrap_err ''failed to recreate STS''
                     (api (ECreateSTS newSTS) (k_create_sts env newSTS))) (\<lambda>_. gret ()))))"

text \<open>The condition of the wait for a scaled-up stateful set, by update strategy.\<close>

definition sts_up :: "restore_target \<Rightarrow> stateful_set \<Rightarrow> ('w st, bool) go" where
  "sts_up cluster sts =
     (case sts_updateStrategy sts of
        RollingUpdate \<Rightarrow>
          gret (sts_readyReplicas sts = rt_replicas cluster \<and> sts_updatedReplicas sts = rt_replicas cluster
                \<and> sts_currentRevision sts = sts_updateRevision sts)
      | OnDelete \<Rightarrow>
          gret (sts_readyReplicas sts = rt_replicas cluster \<and> sts_statusReplicas sts = rt_replicas cluster
                \<and> sts_observedGeneration sts \<ge> om_generation (sts_meta sts))
      | OtherStrategy x \<Rightarrow> gthrow (Errorf (''unknown update strategy type: '' @ x)))"

definition fewer :: "int option \<Rightarrow> int \<Rightarrow> bool" where
  "fewer replicas n \<longleftrightarrow> (case replicas of None \<Rightarrow> True | Some k \<Rightarrow> k < n)"

definition scale_cluster_up :: "'w env \<Rightarrow> restore_target \<Rightarrow> ('w st, unit) go" where
  "scale_cluster_up env cluster =
     (let n = rt_name cluster; ns = rt_namespace cluster
      in if rt_skipWaitScaleUp cluster \<and> rt_parallelPodManagement cluster then
           gthrow (Errorf ''skipWaitScaleUp and parallelPodManagement cannot be used together'')
         else
         gbind (api (EGetSTS n ns) (k_get_sts env n ns)) (\<lambda>sts.
         gbind (gwhen (rt_parallelPodManagement cluster
                       \<and> sts_podManagementPolicy sts = OrderedReadyPodManagement
                       \<and> fewer (sts_replicas sts) (rt_replicas cluster))
                  (recreate_sts env sts ParallelPodManagement)) (\<lambda>_.
         gbind (if fewer (sts_replicas sts) (rt_replicas cluster) then
                  let scaled = sts\<lparr>sts_replicas := Some (rt_replicas cluster)\<rparr>
                  in gbind (api (EPatchSTS scaled) (k_patch_sts env sts scaled)) (\<lambda>_. gret ())
                else gret ()) (\<lambda>_.
         if rt_skipWaitScaleUp cluster then gret ()
         else
         gbind (poll_until env scale_poll_interval scale_poll_timeout
                  (gbind (api (EGetSTS n ns) (k_get_sts env n ns)) (sts_up cluster))) (\<lambda>_.
         gbind (api (EGetSTS n ns) (k_get_sts env n ns)) (\<lambda>sts.
         gbind (gwhen (rt_parallelPodManagement cluster
                       \<and> sts_podManagementPolicy sts = ParallelPodManagement)
                  (recreate_sts env sts OrderedReadyPodManagement)) (\<lambda>_.
         time_sleep env scale_up_wait_timeout)))))))"

section \<open>Deployments\<close>

definition scale_operator_down :: "'w env \<Rightarrow> restore_target \<Rightarrow> ('w st, unit) go" where
  "scale_operator_down env operator =
     (let n = rt_name operator; ns = rt_namespace operator
      in gbind (api (EGetDeployment n ns) (k_get_deployment env n ns)) (\<lambda>d.
         gbind (if dep_replicas d = None \<or> dep_replicas d \<noteq> Some 0 then
                  let scaled = d\<lparr>dep_replicas := Some 0\<rparr>
                  in gbind (api (EPatchDeployment scaled) (k_patch_deployment env d scaled)) (\<lambda>_. gret ())
                else gret ()) (\<lambda>_.
         if rt_skipWaitScaleDown operator then gret ()
         else poll_until env scale_poll_interval scale_poll_timeout
           (gbind (api (EGetDeployment n ns) (k_get_deployment env n ns)) (\<lambda>d.
              gret (dep_statusReplicas d = 0 \<and> dep_readyReplicas d = 0 \<and> dep_availableReplicas d = 0))))))"

definition scale_operator_up :: "'w env \<Rightarrow> restore_target \<Rightarrow> ('w st, unit) go" where
  "scale_operator_up env operator =
     (let n = rt_name operator; ns = rt_namespace operator
      in gbind (api (EGetDeployment n ns) (k_get_deployment env n ns)) (\<lambda>d.
         gbind (if fewer (dep_replicas d) (rt_replicas operator) then
                  let scaled = d\<lparr>dep_replicas := Some (rt_replicas operator)\<rparr>
                  in gbind (api (EPatchDeployment scaled) (k_patch_deployment env d scaled)) (\<lambda>_. gret ())
                else gret ()) (\<lambda>_.
         if rt_skipWaitScaleUp operator then gret ()
         else poll_until env scale_poll_interval scale_poll_timeout
           (gbind (api (EGetDeployment n ns) (k_get_deployment env n ns)) (\<lambda>d.
              gret (dep_readyReplicas d = rt_replicas operator \<and> dep_updatedReplicas d = rt_replicas operator
                    \<and> dep_availableReplicas d = rt_replicas operator))))))"

section \<open>The targets of a plan\<close>

definition mark_failed :: "goerr \<Rightarrow> restore_target_status \<Rightarrow> restore_target_status" where
  "mark_failed err st = st\<lparr>rts_phase := PhaseFailed, rts_error := err_text err\<rparr>"

definition mark_up :: "restore_target_status \<Rightarrow> restore_target_status" where
  "mark_up st = st\<lparr>rts_currentReplicas := rts_originalReplicas st, rts_phase := PhaseCompleted\<rparr>"

definition mark_down :: "restore_target_status \<Rightarrow> restore_target_status" where
  "mark_down st = st\<lparr>rts_currentReplicas := 0, rts_phase := PhaseScaledDown\<rparr>"

text \<open>The loop over the targets, from index \<open>i\<close> on; the statuses are updated through the index.\<close>

fun process_targets ::
  "(restore_target \<Rightarrow> ('w st, unit) go) \<Rightarrow> string \<Rightarrow> nat \<Rightarrow> restore_target list \<Rightarrow>
   restore_target_status list \<Rightarrow> ('w st, restore_target_status list \<times> goerr option) go" where
  "process_targets scaleFunc scale i [] status = gret (status, None)"
| "process_targets scaleFunc scale i (t # targets) status =
     gbind (attempt (scaleFunc t)) (\<lambda>res.
       case res of
         Inl err \<Rightarrow>
           gbind (lift_out (update_at i (mark_failed err) status)) (\<lambda>status'. gret (status', Some err))
       | Inr _ \<Rightarrow>
           gbind (lift_out (if scale = up_scale then update_at i mark_up status
                            else if scale = down_scale then update_at i mark_down status
                            else Ok status)) (\<lambda>status'.
           process_targets scaleFunc scale (Suc i) targets status'))"

section \<open>All plans\<close>

definition fail_scale ::
  "'w env \<Rightarrow> string \<Rightarrow> restore_target_status list \<Rightarrow> restore_target_status list \<Rightarrow> goerr \<Rightarrow> ('w st, unit) go" where
  "fail_scale env planName clusters operators err =
     gbind (set_scale_restore_plan env planName 0 clusters operators) (\<lambda>_.
     gbind (set_phase env PhaseFailed) (\<lambda>_. gthrow err))"

definition scale_plan_up ::
  "'w env \<Rightarrow> string \<Rightarrow> restore_plan \<Rightarrow> restore_target_status list \<Rightarrow> restore_target_status list \<Rightarrow> ('w st, unit) go" where
  "scale_plan_up env planName plan clusters operators =
     gbind (process_targets (scale_cluster_up env) up_scale 0 (rp_clusters plan) clusters) (\<lambda>(clusters', err).
     case err of
       Some e \<Rightarrow> fail_scale env planName clusters' operators e
     | None \<Rightarrow>
         gbind (process_targets (scale_operator_up env) up_scale 0 (rp_operators plan) operators) (\<lambda>(operators', err2).
         case err2 of
           Some e \<Rightarrow> fail_scale env planName clusters' operators' e
         | None \<Rightarrow> set_scale_restore_plan env planName 1 clusters' operators'))"

definition scale_plan_down ::
  "'w env \<Rightarrow> string \<Rightarrow> restore_plan \<Rightarrow> restore_target_status list \<Rightarrow> restore_target_status list \<Rightarrow> ('w st, unit) go" where
  "scale_plan_down env planName plan clusters operators =
     gbind (process_targets (scale_operator_down env) down_scale 0 (rp_operators plan) operators) (\<lambda>(operators', err).
     case err of
       Some e \<Rightarrow> fail_scale env planName clusters operators' e
     | None \<Rightarrow>
         gbind (process_targets (scale_cluster_down env) down_scale 0 (rp_clusters plan) clusters) (\<lambda>(clusters', err2).
         case err2 of
           Some e \<Rightarrow> fail_scale env planName clusters' operators' e
         | None \<Rightarrow> set_scale_restore_plan env planName 0 clusters' operators'))"

definition scale_skips :: "string \<Rightarrow> restore_plan_status option \<Rightarrow> bool" where
  "scale_skips scale planStatus \<longleftrightarrow>
     (case planStatus of
        None \<Rightarrow> False
      | Some ps \<Rightarrow> (rps_lock ps \<and> scale = down_scale)
                \<or> (rps_lock ps \<and> rps_countScaleUp ps > 0 \<and> scale = up_scale))"

definition scale_one_plan :: "'w env \<Rightarrow> string \<Rightarrow> string \<times> restore_plan \<Rightarrow> ('w st, unit) go" where
  "scale_one_plan env scale kv =
     (let planName = fst kv; plan = snd kv
      in gbind (set_active_plan env planName) (\<lambda>_.
         gbind (gets (\<lambda>s. the_plan s planName)) (\<lambda>planStatus.
         if scale_skips scale planStatus then gret ()
         else
           let clusters = (case planStatus of Some ps \<Rightarrow> rps_clusters ps | None \<Rightarrow> []);
               operators = (case planStatus of Some ps \<Rightarrow> rps_operators ps | None \<Rightarrow> [])
           in if scale = up_scale then scale_plan_up env planName plan clusters operators
              else if scale = down_scale then scale_plan_down env planName plan clusters operators
              else gret ())))"

definition scale_restore_plan :: "'w env \<Rightarrow> string \<Rightarrow> ('w st, unit) go" where
  "scale_restore_plan env scale =
     gbind (gets (\<lambda>s. sp_restorePlans (esr_spec (obj s)))) (\<lambda>plans.
     gbind (range_map env plans) (\<lambda>kvs. for_each (scale_one_plan env scale) kvs))"

section \<open>The contract of a scaling function\<close>

text \<open>
  What \<open>processTargets\<close> needs of the function it is given: it leaves the resource alone,
  makes only the changes of its kind, and never panics.
\<close>

locale target_scaler =
  fixes scaler :: "'w env \<Rightarrow> restore_target \<Rightarrow> ('w st, unit) go"
    and touches :: "'w env \<Rightarrow> restore_target \<Rightarrow> event \<Rightarrow> bool"
  assumes scales: "poll_ok env \<Longrightarrow> triple (stands r (touches env t) M) (scaler env t)
    (\<lambda>_. stands r (touches env t) M) (\<lambda>_. stands r (touches env t) M)"
begin

lemma within:
  assumes "poll_ok env" and "\<And>e. touches env t e \<Longrightarrow> A e"
  shows "triple (stands r A M) (scaler env t) (\<lambda>_. stands r A M) (\<lambda>_. stands r A M)"
  using scales [OF assms(1)] assms(2) by (rule stands_from)

lemma process:
  assumes poll: "poll_ok env" and len: "length ts \<le> length sts"
    and A: "\<And>t e. t \<in> set ts \<Longrightarrow> touches env t e \<Longrightarrow> A e"
    and mark: "scale = up_scale \<and> mark = mark_up \<or> scale = down_scale \<and> mark = mark_down"
  shows "triple (stands r A M) (process_targets (scaler env) scale (length pre) ts (pre @ sts))
     (\<lambda>(sts', err) s. stands r A M s \<and>
        (err = None \<longrightarrow> sts' = pre @ map mark (take (length ts) sts) @ drop (length ts) sts)) (\<lambda>_ _. False)"
  using len A
proof (induction ts arbitrary: pre sts)
  case (Cons t ts)
  then obtain st rest where sts: "sts = st # rest" by (cases sts) auto
  have upd: "update_at (length pre) f (pre @ sts) = Ok ((pre @ [f st]) @ rest)" for f :: "restore_target_status \<Rightarrow> restore_target_status"
    by (simp add: update_at_def sts list_update_append nth_append)
  have IH: "triple (stands r A M) (process_targets (scaler env) scale (length (pre @ [mark st])) ts ((pre @ [mark st]) @ rest))
     (\<lambda>(sts', err) s. stands r A M s \<and>
        (err = None \<longrightarrow> sts' = (pre @ [mark st]) @ map mark (take (length ts) rest) @ drop (length ts) rest)) (\<lambda>_ _. False)"
    by (rule Cons.IH) (use Cons.prems sts in auto)
  have lo: "gbind (lift_out (Ok x)) f = f x" for x :: "restore_target_status list"
      and f :: "restore_target_status list \<Rightarrow> ('a st, restore_target_status list \<times> goerr option) go"
    by (rule ext) (simp add: gbind_apply lift_out_apply)
  have step: "process_targets (scaler env) scale (length pre) (t # ts) (pre @ sts) =
      gbind (attempt (scaler env t)) (\<lambda>res. case res of
          Inl err \<Rightarrow> gret ((pre @ [mark_failed err st]) @ rest, Some err)
        | Inr _ \<Rightarrow> process_targets (scaler env) scale (length (pre @ [mark st])) ts ((pre @ [mark st]) @ rest))"
    using mark by (auto simp: upd lo up_scale_def down_scale_def simp del: append_assoc cong: sum.case_cong)
  show ?case
    unfolding step
  proof (rule triple_gbind [OF triple_attempt [OF within [OF poll]]])
    fix res :: "goerr + unit"
    show "triple (stands r A M) (case res of
          Inl err \<Rightarrow> gret ((pre @ [mark_failed err st]) @ rest, Some err)
        | Inr _ \<Rightarrow> process_targets (scaler env) scale (length (pre @ [mark st])) ts ((pre @ [mark st]) @ rest))
     (\<lambda>(sts', err) s. stands r A M s \<and>
        (err = None \<longrightarrow> sts' = pre @ map mark (take (length (t # ts)) sts) @ drop (length (t # ts)) sts)) (\<lambda>_ _. False)"
      using IH by (cases res) (simp_all add: sts triple_gret)
  qed (use Cons.prems in auto)
qed (simp add: triple_gret)

end

text \<open>The changes each function may make.\<close>

definition down_sts :: "'w env \<Rightarrow> restore_target \<Rightarrow> event \<Rightarrow> bool" where
  "down_sts env t e \<longleftrightarrow> (\<exists>w w' sts. k_get_sts env (rt_name t) (rt_namespace t) w = (Inr sts, w')
     \<and> sts_replicas sts \<noteq> Some 0 \<and> e = EPatchSTS (sts\<lparr>sts_replicas := Some 0\<rparr>))"

definition recreation :: "stateful_set \<Rightarrow> pod_policy \<Rightarrow> event \<Rightarrow> bool" where
  "recreation sts p e \<longleftrightarrow> e = EDeleteSTS sts ''Orphan''
     \<or> e = ECreateSTS (sts\<lparr>sts_meta := (sts_meta sts)\<lparr>om_resourceVersion := [], om_uid := []\<rparr>,
              sts_podManagementPolicy := p\<rparr>)"

definition up_sts :: "'w env \<Rightarrow> restore_target \<Rightarrow> event \<Rightarrow> bool" where
  "up_sts env t e \<longleftrightarrow> (\<exists>w w' sts. k_get_sts env (rt_name t) (rt_namespace t) w = (Inr sts, w')
     \<and> (fewer (sts_replicas sts) (rt_replicas t) \<and> e = EPatchSTS (sts\<lparr>sts_replicas := Some (rt_replicas t)\<rparr>)
        \<or> rt_parallelPodManagement t \<and> \<not> rt_skipWaitScaleUp t \<and>
            (sts_podManagementPolicy sts = OrderedReadyPodManagement \<and> fewer (sts_replicas sts) (rt_replicas t)
               \<and> recreation sts ParallelPodManagement e
             \<or> sts_podManagementPolicy sts = ParallelPodManagement
               \<and> recreation sts OrderedReadyPodManagement e)))"

definition down_dep :: "'w env \<Rightarrow> restore_target \<Rightarrow> event \<Rightarrow> bool" where
  "down_dep env t e \<longleftrightarrow> (\<exists>w w' d. k_get_deployment env (rt_name t) (rt_namespace t) w = (Inr d, w')
     \<and> dep_replicas d \<noteq> Some 0 \<and> e = EPatchDeployment (d\<lparr>dep_replicas := Some 0\<rparr>))"

definition up_dep :: "'w env \<Rightarrow> restore_target \<Rightarrow> event \<Rightarrow> bool" where
  "up_dep env t e \<longleftrightarrow> (\<exists>w w' d. k_get_deployment env (rt_name t) (rt_namespace t) w = (Inr d, w')
     \<and> fewer (dep_replicas d) (rt_replicas t) \<and> e = EPatchDeployment (d\<lparr>dep_replicas := Some (rt_replicas t)\<rparr>))"

lemma down_stsI: "\<exists>w w'. k_get_sts env (rt_name t) (rt_namespace t) w = (Inr sts, w') \<Longrightarrow>
    sts_replicas sts = None \<or> sts_replicas sts \<noteq> Some 0 \<Longrightarrow> down_sts env t (EPatchSTS (sts\<lparr>sts_replicas := Some 0\<rparr>))"
  unfolding down_sts_def by (metis option.distinct(1))

lemma down_depI: "\<exists>w w'. k_get_deployment env (rt_name t) (rt_namespace t) w = (Inr d, w') \<Longrightarrow>
    dep_replicas d = None \<or> dep_replicas d \<noteq> Some 0 \<Longrightarrow> down_dep env t (EPatchDeployment (d\<lparr>dep_replicas := Some 0\<rparr>))"
  unfolding down_dep_def by (metis option.distinct(1))

lemma up_stsI:
  assumes "\<exists>w w'. k_get_sts env (rt_name t) (rt_namespace t) w = (Inr sts, w')"
  shows "fewer (sts_replicas sts) (rt_replicas t) \<Longrightarrow> up_sts env t (EPatchSTS (sts\<lparr>sts_replicas := Some (rt_replicas t)\<rparr>))"
    and "rt_parallelPodManagement t \<Longrightarrow> \<not> rt_skipWaitScaleUp t \<Longrightarrow>
      sts_podManagementPolicy sts = OrderedReadyPodManagement \<Longrightarrow> fewer (sts_replicas sts) (rt_replicas t) \<Longrightarrow>
      recreation sts ParallelPodManagement e \<Longrightarrow> up_sts env t e"
    and "rt_parallelPodManagement t \<Longrightarrow> \<not> rt_skipWaitScaleUp t \<Longrightarrow>
      sts_podManagementPolicy sts = ParallelPodManagement \<Longrightarrow>
      recreation sts OrderedReadyPodManagement e \<Longrightarrow> up_sts env t e"
  using assms unfolding up_sts_def by blast+

text \<open>A wait that only reads.\<close>

lemma stands_read_wait:
  assumes "poll_ok env" and "quiet ev" and "\<And>x. triple (stands r A M) (g x) (\<lambda>_. stands r A M) (\<lambda>_. stands r A M)"
  shows "triple (stands r A M) (poll_until env iv to (gbind (api ev f) g)) (\<lambda>_. stands r A M) (\<lambda>_. stands r A M)"
  by (rule stands_poll [OF assms(1)], rule triple_gbind [OF stands_do]) (use assms(2,3) in simp_all)

lemma stands_maybe:
  assumes "b \<Longrightarrow> A ev"
  shows "triple (stands r A M) (if b then gbind (api ev f) (\<lambda>_. gret ()) else gret ())
     (\<lambda>_. stands r A M) (\<lambda>_. stands r A M)"
  by (rule triple_if, rule triple_gbind [OF stands_do]) (use assms in \<open>auto intro: triple_gret\<close>)

interpretation cluster_down: target_scaler scale_cluster_down down_sts
proof
  fix env :: "'a env" and r t M assume poll: "poll_ok env"
  let ?S = "stands r (down_sts env t) M :: 'a st \<Rightarrow> bool"
  show "triple ?S (scale_cluster_down env t) (\<lambda>_. ?S) (\<lambda>_. ?S)"
    unfolding scale_cluster_down_def Let_def
  proof (rule triple_gbind [OF stands_call], simp, rule triple_assume, rule triple_gbind [OF stands_maybe])
    show "triple ?S (if rt_skipWaitScaleDown t then gret () else poll_until env scale_poll_interval scale_poll_timeout
          (gbind (api (EGetSTS (rt_name t) (rt_namespace t)) (k_get_sts env (rt_name t) (rt_namespace t))) (\<lambda>sts.
              gret (sts_statusReplicas sts = 0 \<and> sts_readyReplicas sts = 0)))) (\<lambda>_. ?S) (\<lambda>_. ?S)"
      by (auto intro!: triple_if triple_gret stands_read_wait poll)
  qed (rule down_stsI)
qed

interpretation operator_down: target_scaler scale_operator_down down_dep
proof
  fix env :: "'a env" and r t M assume poll: "poll_ok env"
  let ?S = "stands r (down_dep env t) M :: 'a st \<Rightarrow> bool"
  show "triple ?S (scale_operator_down env t) (\<lambda>_. ?S) (\<lambda>_. ?S)"
    unfolding scale_operator_down_def Let_def
    by (rule triple_gbind [OF stands_call], simp, rule triple_assume, rule triple_gbind [OF stands_maybe],
        rule down_depI) (auto intro!: triple_gret stands_read_wait poll)
qed

interpretation operator_up: target_scaler scale_operator_up up_dep
proof
  fix env :: "'a env" and r t M assume poll: "poll_ok env"
  let ?S = "stands r (up_dep env t) M :: 'a st \<Rightarrow> bool"
  show "triple ?S (scale_operator_up env t) (\<lambda>_. ?S) (\<lambda>_. ?S)"
    unfolding scale_operator_up_def Let_def
    by (rule triple_gbind [OF stands_call], simp, rule triple_assume, rule triple_gbind [OF stands_maybe])
      (auto intro!: triple_gret stands_read_wait poll simp: up_dep_def)
qed

lemma stands_recreate:
  assumes "poll_ok env" and "\<And>e. recreation sts p e \<Longrightarrow> A e"
  shows "triple (stands r A M) (recreate_sts env sts p) (\<lambda>_. stands r A M) (\<lambda>_. stands r A M)"
proof -
  let ?S = "stands r A M"
  let ?n = "om_name (sts_meta sts)" and ?ns = "om_namespace (sts_meta sts)"
  have A: "A (EDeleteSTS sts ''Orphan'')" "A (ECreateSTS (sts\<lparr>sts_meta := (sts_meta sts)\<lparr>om_resourceVersion := [],
      om_uid := []\<rparr>, sts_podManagementPolicy := p\<rparr>))"
    by (auto intro!: assms(2) simp: recreation_def)
  have wait: "triple ?S (poll_until env sts_poll_interval sts_poll_timeout
      (gbind (attempt (api (EGetSTS ?n ?ns) (k_get_sts env ?n ?ns))) (\<lambda>res.
         case res of Inl err \<Rightarrow> if is_not_found err then gret True else gthrow err | Inr existing \<Rightarrow> gret False)))
      (\<lambda>_. ?S) (\<lambda>_. ?S)"
    by (rule stands_poll [OF assms(1)], rule triple_gbind [OF stands_try])
      (auto intro!: triple_gret triple_gthrow split: sum.split)
  show ?thesis
    unfolding recreate_sts_def Let_def
    by (rule triple_gbind [OF triple_wrap_err [OF stands_do]], simp add: A,
        rule triple_gbind [OF triple_wrap_err [OF wait]],
        rule triple_gbind [OF triple_wrap_err [OF stands_do]])
      (auto simp: A intro: triple_gret)
qed

interpretation cluster_up: target_scaler scale_cluster_up up_sts
proof
  fix env :: "'a env" and r t M assume poll: "poll_ok env"
  let ?S = "stands r (up_sts env t) M :: 'a st \<Rightarrow> bool"
  let ?get = "api (EGetSTS (rt_name t) (rt_namespace t)) (k_get_sts env (rt_name t) (rt_namespace t))"
  have ready: "triple ?S (sts_up t sts) (\<lambda>_. ?S) (\<lambda>_. ?S)" for sts
    by (auto simp: sts_up_def intro!: triple_gret triple_gthrow split: update_strategy.split)
  have undo: "triple ?S (gbind ?get (\<lambda>sts.
      gbind (gwhen (rt_parallelPodManagement t \<and> sts_podManagementPolicy sts = ParallelPodManagement)
               (recreate_sts env sts OrderedReadyPodManagement)) (\<lambda>_.
      time_sleep env scale_up_wait_timeout))) (\<lambda>_. ?S) (\<lambda>_. ?S)" if "\<not> rt_skipWaitScaleUp t"
  proof (rule triple_gbind [OF stands_call], simp, rule triple_assume, rule triple_gbind)
    fix sts :: stateful_set
    assume "\<exists>w w'. k_get_sts env (rt_name t) (rt_namespace t) w = (Inr sts, w')"
    with that show "triple ?S (gwhen (rt_parallelPodManagement t \<and> sts_podManagementPolicy sts = ParallelPodManagement)
               (recreate_sts env sts OrderedReadyPodManagement)) (\<lambda>_. ?S) (\<lambda>_. ?S)"
      by (auto simp: gwhen_def intro!: triple_gret stands_recreate poll intro: up_stsI)
  qed (rule stands_sleep)
  show "triple ?S (scale_cluster_up env t) (\<lambda>_. ?S) (\<lambda>_. ?S)"
    unfolding scale_cluster_up_def Let_def
  proof (rule triple_if, (rule triple_gthrow, assumption), rule triple_gbind [OF stands_call], simp, rule triple_assume)
    fix sts :: stateful_set
    assume excl: "\<not> (rt_skipWaitScaleUp t \<and> rt_parallelPodManagement t)"
      and got: "\<exists>w w'. k_get_sts env (rt_name t) (rt_namespace t) w = (Inr sts, w')"
    let ?b = "rt_parallelPodManagement t \<and> sts_podManagementPolicy sts = OrderedReadyPodManagement
                       \<and> fewer (sts_replicas sts) (rt_replicas t)"
    let ?scaled = "sts\<lparr>sts_replicas := Some (rt_replicas t)\<rparr>"
    have first: "triple ?S (gwhen ?b (recreate_sts env sts ParallelPodManagement)) (\<lambda>_. ?S) (\<lambda>_. ?S)"
      using excl got by (auto simp: gwhen_def intro!: triple_gret stands_recreate poll intro: up_stsI)
    have patch: "triple ?S (if fewer (sts_replicas sts) (rt_replicas t) then
        gbind (api (EPatchSTS ?scaled) (k_patch_sts env sts ?scaled)) (\<lambda>_. gret ()) else gret ()) (\<lambda>_. ?S) (\<lambda>_. ?S)"
      using got by (intro stands_maybe up_stsI(1))
    show "triple ?S (gbind (gwhen ?b (recreate_sts env sts ParallelPodManagement)) (\<lambda>_.
         gbind (if fewer (sts_replicas sts) (rt_replicas t) then
                  gbind (api (EPatchSTS ?scaled) (k_patch_sts env sts ?scaled)) (\<lambda>_. gret ()) else gret ()) (\<lambda>_.
         if rt_skipWaitScaleUp t then gret ()
         else
         gbind (poll_until env scale_poll_interval scale_poll_timeout (gbind ?get (sts_up t))) (\<lambda>_.
         gbind ?get (\<lambda>sts.
         gbind (gwhen (rt_parallelPodManagement t \<and> sts_podManagementPolicy sts = ParallelPodManagement)
                  (recreate_sts env sts OrderedReadyPodManagement)) (\<lambda>_.
         time_sleep env scale_up_wait_timeout)))))) (\<lambda>_. ?S) (\<lambda>_. ?S)"
      by (rule triple_gbind [OF first], rule triple_gbind [OF patch], rule triple_if, (rule triple_gret, assumption),
          rule triple_gbind [OF stands_read_wait [OF poll _ ready]]) (simp_all add: undo)
  qed
qed

section \<open>One plan\<close>

text \<open>The statuses of the first \<open>n\<close> targets are marked.\<close>

definition marked :: "(restore_target_status \<Rightarrow> restore_target_status) \<Rightarrow> nat \<Rightarrow>
    restore_target_status list \<Rightarrow> restore_target_status list" where
  "marked mark n sts = map mark (take n sts) @ drop n sts"

text \<open>There is a status for every target of the plan.\<close>

definition aligned :: "restore_plan \<Rightarrow> restore_plan_status \<Rightarrow> bool" where
  "aligned plan ps \<longleftrightarrow> length (rp_clusters plan) \<le> length (rps_clusters ps)
     \<and> length (rp_operators plan) \<le> length (rps_operators ps)"

definition scaled_plan :: "string \<Rightarrow> restore_plan \<Rightarrow> restore_plan_status \<Rightarrow> restore_plan_status" where
  "scaled_plan scale plan ps =
     (if scale_skips scale (Some ps) then ps
      else let mark = (if scale = up_scale then mark_up else mark_down)
           in ps\<lparr>rps_clusters := marked mark (length (rp_clusters plan)) (rps_clusters ps),
                 rps_operators := marked mark (length (rp_operators plan)) (rps_operators ps),
                 rps_countScaleUp := (if scale = up_scale then 1 else 0)\<rparr>)"

definition scale_call :: "'w env \<Rightarrow> string \<Rightarrow> restore_plan \<Rightarrow> event \<Rightarrow> bool" where
  "scale_call env scale plan e \<longleftrightarrow> is_status_patch e
     \<or> (\<exists>t \<in> set (rp_clusters plan). if scale = up_scale then up_sts env t e else down_sts env t e)
     \<or> (\<exists>t \<in> set (rp_operators plan). if scale = up_scale then up_dep env t e else down_dep env t e)"

definition plan_scaled ::
  "(event \<Rightarrow> bool) \<Rightarrow> event list \<Rightarrow> ebs_snapshot_restore \<Rightarrow> string \<Rightarrow> (restore_plan_status \<Rightarrow> restore_plan_status) \<Rightarrow>
   'w st \<Rightarrow> bool" where
  "plan_scaled A M r k f s \<longleftrightarrow> did A M s \<and> esr_spec (obj s) = esr_spec r \<and> o_phase (obj s) = o_phase r
     \<and> the_plan s = (o_plan r)(k \<mapsto> f (or_zero (o_plan r k)))"

lemma plan_scaled_const: "plan_scaled A M r k f s \<Longrightarrow> o_plan r k = Some ps \<Longrightarrow> f ps = qs \<Longrightarrow>
    plan_scaled A M r k (\<lambda>_. qs) s"
  by (auto simp: plan_scaled_def or_zero_def fun_eq_iff)

lemma triple_record_scale:
  assumes "status_env env" and "\<And>new. A (EPatchStatus new)"
  shows "triple (stands r A M) (set_scale_restore_plan env k n cs ops)
     (\<lambda>_. plan_scaled A M r k (\<lambda>p. p\<lparr>rps_clusters := cs, rps_operators := ops, rps_countScaleUp := n\<rparr>))
     (\<lambda>_. gave_up env A M r)"
proof (rule scaled.rule [OF assms(1)])
  fix s t :: "'a st"
  assume s: "stands r A M s" and w: "written (put_plan k (\<lambda>p. p\<lparr>rps_clusters := cs, rps_operators := ops,
      rps_countScaleUp := n\<rparr>)) s t"
  from s w have did: "did A M t"
    using did_written [of A M s _ t] assms(2) unfolding stands_def by blast
  with s writtenD [OF w] show "plan_scaled A M r k (\<lambda>p. p\<lparr>rps_clusters := cs, rps_operators := ops, rps_countScaleUp := n\<rparr>) t"
    by (simp add: plan_scaled_def stands_def plan_status_put_plan or_zero_def fun_eq_iff split: option.split)
  show "gave_up env A M r t" if "\<not> patches_succeed env" for e :: goerr
    using that did s writtenD [OF w] by (simp add: gave_up_def stands_def)
qed

lemma triple_fail_scale:
  "status_env env \<Longrightarrow> (\<And>new. A (EPatchStatus new)) \<Longrightarrow>
    triple (stands r A M) (fail_scale env k cs ops err) Q (\<lambda>_. gave_up env A M r)"
  unfolding fail_scale_def by (rule scaled.give_up)

text \<open>Two groups of targets one after the other, the second only when the first is done.\<close>

lemma triple_two_groups:
  fixes m1 :: "('s, 'x \<times> goerr option) go" and m2 :: "('s, 'y \<times> goerr option) go"
  assumes m1: "triple P m1 (\<lambda>(x, err) s. P s \<and> (err = None \<longrightarrow> x = x0)) (\<lambda>_ _. False)"
    and m2: "triple P m2 (\<lambda>(y, err) s. P s \<and> (err = None \<longrightarrow> y = y0)) (\<lambda>_ _. False)"
    and fin: "triple P (fin x0 y0) Q E"
    and fail1: "\<And>x e. triple P (f1 x e) Q E" and fail2: "\<And>x y e. triple P (f2 x y e) Q E"
  shows "triple P (gbind m1 (\<lambda>(x, err). case err of Some e \<Rightarrow> f1 x e
     | None \<Rightarrow> gbind m2 (\<lambda>(y, err2). case err2 of Some e \<Rightarrow> f2 x y e | None \<Rightarrow> fin x y))) Q E"
proof (rule triple_seq [OF m1], simp)
  fix p :: "'x \<times> goerr option"
  obtain x err where p: "p = (x, err)" by force
  have second: "triple P (gbind m2 (\<lambda>(y, err2). case err2 of Some e \<Rightarrow> f2 x y e | None \<Rightarrow> fin x y)) Q E"
    if x: "x = x0"
  proof (rule triple_seq [OF m2], simp)
    fix q :: "'y \<times> goerr option"
    obtain y err2 where q: "q = (y, err2)" by force
    show "triple ((case q of (y, err) \<Rightarrow> \<lambda>s. P s \<and> (err = None \<longrightarrow> y = y0)))
        (case q of (y, err2) \<Rightarrow> (case err2 of Some e \<Rightarrow> f2 x y e | None \<Rightarrow> fin x y)) Q E"
      using fin fail2 x by (cases err2) (auto simp: q triple_def)
  qed
  show "triple ((case p of (x, err) \<Rightarrow> \<lambda>s. P s \<and> (err = None \<longrightarrow> x = x0)))
      (case p of (x, err) \<Rightarrow> (case err of Some e \<Rightarrow> f1 x e
         | None \<Rightarrow> gbind m2 (\<lambda>(y, err2). case err2 of Some e \<Rightarrow> f2 x y e | None \<Rightarrow> fin x y))) Q E"
    using second fail1 by (cases err) (auto simp: p triple_def)
qed

lemma triple_scale_plan_up:
  assumes env: "status_env env" "poll_ok env" and status: "\<And>new. A (EPatchStatus new)"
    and A: "\<And>t e. t \<in> set (rp_clusters plan) \<Longrightarrow> up_sts env t e \<Longrightarrow> A e"
      "\<And>t e. t \<in> set (rp_operators plan) \<Longrightarrow> up_dep env t e \<Longrightarrow> A e"
    and len: "length (rp_clusters plan) \<le> length cs" "length (rp_operators plan) \<le> length ops"
  shows "triple (stands r A M) (scale_plan_up env k plan cs ops)
     (\<lambda>_. plan_scaled A M r k (\<lambda>p. p\<lparr>rps_clusters := marked mark_up (length (rp_clusters plan)) cs,
        rps_operators := marked mark_up (length (rp_operators plan)) ops, rps_countScaleUp := 1\<rparr>))
     (\<lambda>_. gave_up env A M r)"
  unfolding scale_plan_up_def
proof (rule triple_two_groups)
  show "triple (stands r A M) (process_targets (scale_cluster_up env) up_scale 0 (rp_clusters plan) cs)
      (\<lambda>(x, err) s. stands r A M s \<and> (err = None \<longrightarrow> x = marked mark_up (length (rp_clusters plan)) cs)) (\<lambda>_ _. False)"
    using cluster_up.process [OF env(2) len(1) A(1), where pre = "[]" and mark = mark_up and scale = up_scale]
    by (simp add: marked_def)
  show "triple (stands r A M) (process_targets (scale_operator_up env) up_scale 0 (rp_operators plan) ops)
      (\<lambda>(x, err) s. stands r A M s \<and> (err = None \<longrightarrow> x = marked mark_up (length (rp_operators plan)) ops)) (\<lambda>_ _. False)"
    using operator_up.process [OF env(2) len(2) A(2), where pre = "[]" and mark = mark_up and scale = up_scale]
    by (simp add: marked_def)
  show "triple (stands r A M) (set_scale_restore_plan env k 1 (marked mark_up (length (rp_clusters plan)) cs)
      (marked mark_up (length (rp_operators plan)) ops))
     (\<lambda>_. plan_scaled A M r k (\<lambda>p. p\<lparr>rps_clusters := marked mark_up (length (rp_clusters plan)) cs,
        rps_operators := marked mark_up (length (rp_operators plan)) ops, rps_countScaleUp := 1\<rparr>))
     (\<lambda>_. gave_up env A M r)"
    by (rule triple_record_scale [where A = A, OF env(1) status])
qed (rule triple_fail_scale [where A = A, OF env(1) status])+

lemma triple_scale_plan_down:
  assumes env: "status_env env" "poll_ok env" and status: "\<And>new. A (EPatchStatus new)"
    and A: "\<And>t e. t \<in> set (rp_clusters plan) \<Longrightarrow> down_sts env t e \<Longrightarrow> A e"
      "\<And>t e. t \<in> set (rp_operators plan) \<Longrightarrow> down_dep env t e \<Longrightarrow> A e"
    and len: "length (rp_clusters plan) \<le> length cs" "length (rp_operators plan) \<le> length ops"
  shows "triple (stands r A M) (scale_plan_down env k plan cs ops)
     (\<lambda>_. plan_scaled A M r k (\<lambda>p. p\<lparr>rps_clusters := marked mark_down (length (rp_clusters plan)) cs,
        rps_operators := marked mark_down (length (rp_operators plan)) ops, rps_countScaleUp := 0\<rparr>))
     (\<lambda>_. gave_up env A M r)"
  unfolding scale_plan_down_def
proof (rule triple_two_groups)
  show "triple (stands r A M) (process_targets (scale_operator_down env) down_scale 0 (rp_operators plan) ops)
      (\<lambda>(x, err) s. stands r A M s \<and> (err = None \<longrightarrow> x = marked mark_down (length (rp_operators plan)) ops)) (\<lambda>_ _. False)"
    using operator_down.process [OF env(2) len(2) A(2), where pre = "[]" and mark = mark_down and scale = down_scale]
    by (simp add: marked_def)
  show "triple (stands r A M) (process_targets (scale_cluster_down env) down_scale 0 (rp_clusters plan) cs)
      (\<lambda>(x, err) s. stands r A M s \<and> (err = None \<longrightarrow> x = marked mark_down (length (rp_clusters plan)) cs)) (\<lambda>_ _. False)"
    using cluster_down.process [OF env(2) len(1) A(1), where pre = "[]" and mark = mark_down and scale = down_scale]
    by (simp add: marked_def)
  show "triple (stands r A M) (set_scale_restore_plan env k 0 (marked mark_down (length (rp_clusters plan)) cs)
      (marked mark_down (length (rp_operators plan)) ops))
     (\<lambda>_. plan_scaled A M r k (\<lambda>p. p\<lparr>rps_clusters := marked mark_down (length (rp_clusters plan)) cs,
        rps_operators := marked mark_down (length (rp_operators plan)) ops, rps_countScaleUp := 0\<rparr>))
     (\<lambda>_. gave_up env A M r)"
    by (rule triple_record_scale [where A = A, OF env(1) status])
qed (rule triple_fail_scale [where A = A, OF env(1) status])+

section \<open>All plans\<close>

definition scale_calls :: "'w env \<Rightarrow> string \<Rightarrow> ebs_snapshot_restore \<Rightarrow> event \<Rightarrow> bool" where
  "scale_calls env scale r e \<longleftrightarrow> is_status_patch e
     \<or> (\<exists>k plan. gm_get (sp_restorePlans (esr_spec r)) k = Some plan
          \<and> \<not> scale_skips scale (o_plan r k) \<and> scale_call env scale plan e)"

definition scaled_view :: "string \<Rightarrow> ebs_snapshot_restore \<Rightarrow> (string \<times> restore_plan) list \<Rightarrow> string \<Rightarrow>
    restore_plan_status option" where
  "scaled_view scale r kvs k = (case map_of kvs k of None \<Rightarrow> o_plan r k
     | Some plan \<Rightarrow> Some (scaled_plan scale plan (or_zero (o_plan r k))))"

definition scale_inv ::
  "'w env \<Rightarrow> string \<Rightarrow> event list \<Rightarrow> ebs_snapshot_restore \<Rightarrow> (string \<times> restore_plan) list \<Rightarrow> 'w st \<Rightarrow> bool" where
  "scale_inv env scale M r kvs s \<longleftrightarrow> did (scale_calls env scale r) M s \<and> esr_spec (obj s) = esr_spec r
     \<and> o_phase (obj s) = o_phase r
     \<and> the_plan s = scaled_view scale r kvs"

definition all_aligned :: "string \<Rightarrow> ebs_snapshot_restore \<Rightarrow> bool" where
  "all_aligned scale r \<longleftrightarrow> (\<forall>k plan. gm_get (sp_restorePlans (esr_spec r)) k = Some plan \<longrightarrow>
     (\<exists>ps. o_plan r k = Some ps \<and> (scale_skips scale (Some ps) \<or> aligned plan ps)))"

lemma scale_inv_active:
  assumes "status_env env"
  shows "triple (scale_inv env scale M r kvs) (set_active_plan env k) (\<lambda>_. scale_inv env scale M r kvs)
     (\<lambda>_. gave_up env (scale_calls env scale r) M r)"
proof (rule active.rule [OF assms])
  fix s t :: "'a st"
  assume inv: "scale_inv env scale M r kvs s" and w: "written (\<lambda>st. st\<lparr>rs_activePlan := k\<rparr>) s t"
  have "did (scale_calls env scale r) M t"
    using inv by (intro did_written [OF _ w]) (simp_all add: scale_inv_def scale_calls_def)
  with inv writtenD [OF w] show inv': "scale_inv env scale M r kvs t" by (simp add: scale_inv_def)
  then show "gave_up env (scale_calls env scale r) M r t" if "\<not> patches_succeed env"
    using that by (simp add: scale_inv_def gave_up_def)
qed

lemma triple_scale_work:
  assumes env: "status_env env" "poll_ok env" and dir: "scale = up_scale \<or> scale = down_scale"
    and plan: "gm_get (sp_restorePlans (esr_spec r)) k = Some plan" and ps: "o_plan r k = Some ps"
    and todo: "\<not> scale_skips scale (Some ps)" and al: "aligned plan ps" and new: "map_of kvs k = None"
    and r': "o_plan r' k = Some ps"
  shows "triple (\<lambda>s. scale_inv env scale M r kvs s \<and> obj s = r')
     (if scale = up_scale then scale_plan_up env k plan (rps_clusters ps) (rps_operators ps)
      else if scale = down_scale then scale_plan_down env k plan (rps_clusters ps) (rps_operators ps) else gret ())
     (\<lambda>_. scale_inv env scale M r (kvs @ [(k, plan)])) (\<lambda>_. gave_up env (scale_calls env scale r) M r)"
proof -
  let ?A = "scale_calls env scale r"
  have A: "\<And>new. ?A (EPatchStatus new)" by (simp add: scale_calls_def)
  have call: "?A e" if "scale_call env scale plan e" for e
    using plan ps todo that unfolding scale_calls_def by metis
  have len: "length (rp_clusters plan) \<le> length (rps_clusters ps)" "length (rp_operators plan) \<le> length (rps_operators ps)"
    using al by (simp_all add: aligned_def)
  have ne: "down_scale \<noteq> up_scale" by (simp add: up_scale_def down_scale_def)
  have run: "triple (stands r' ?A M)
     (if scale = up_scale then scale_plan_up env k plan (rps_clusters ps) (rps_operators ps)
      else if scale = down_scale then scale_plan_down env k plan (rps_clusters ps) (rps_operators ps) else gret ())
     (\<lambda>_. plan_scaled ?A M r' k (\<lambda>_. scaled_plan scale plan ps)) (\<lambda>_. gave_up env ?A M r')"
    using dir
  proof
    assume up: "scale = up_scale"
    have calls: "t \<in> set (rp_clusters plan) \<Longrightarrow> up_sts env t e \<Longrightarrow> ?A e"
        "t \<in> set (rp_operators plan) \<Longrightarrow> up_dep env t e \<Longrightarrow> ?A e" for t e
      using call [of e] up by (auto simp: scale_call_def)
    have all: "triple (stands r' ?A M) (scale_plan_up env k plan (rps_clusters ps) (rps_operators ps))
       (\<lambda>_. plan_scaled ?A M r' k (\<lambda>p. p\<lparr>rps_clusters := marked mark_up (length (rp_clusters plan)) (rps_clusters ps),
          rps_operators := marked mark_up (length (rp_operators plan)) (rps_operators ps), rps_countScaleUp := 1\<rparr>))
       (\<lambda>_. gave_up env ?A M r')"
      by (rule triple_scale_plan_up [where A = ?A, OF env A calls len])
    have "triple (stands r' ?A M) (scale_plan_up env k plan (rps_clusters ps) (rps_operators ps))
       (\<lambda>_. plan_scaled ?A M r' k (\<lambda>_. scaled_plan scale plan ps)) (\<lambda>_. gave_up env ?A M r')"
      by (rule triple_post [OF all], erule plan_scaled_const [OF _ r'])
        (use todo up in \<open>simp_all add: scaled_plan_def Let_def\<close>)
    with up show ?thesis by simp
  next
    assume down: "scale = down_scale"
    have calls: "t \<in> set (rp_clusters plan) \<Longrightarrow> down_sts env t e \<Longrightarrow> ?A e"
        "t \<in> set (rp_operators plan) \<Longrightarrow> down_dep env t e \<Longrightarrow> ?A e" for t e
      using call [of e] down ne by (auto simp: scale_call_def)
    have all: "triple (stands r' ?A M) (scale_plan_down env k plan (rps_clusters ps) (rps_operators ps))
       (\<lambda>_. plan_scaled ?A M r' k (\<lambda>p. p\<lparr>rps_clusters := marked mark_down (length (rp_clusters plan)) (rps_clusters ps),
          rps_operators := marked mark_down (length (rp_operators plan)) (rps_operators ps), rps_countScaleUp := 0\<rparr>))
       (\<lambda>_. gave_up env ?A M r')"
      by (rule triple_scale_plan_down [where A = ?A, OF env A calls len])
    have "triple (stands r' ?A M) (scale_plan_down env k plan (rps_clusters ps) (rps_operators ps))
       (\<lambda>_. plan_scaled ?A M r' k (\<lambda>_. scaled_plan scale plan ps)) (\<lambda>_. gave_up env ?A M r')"
      by (rule triple_post [OF all], erule plan_scaled_const [OF _ r'])
        (use todo down ne in \<open>simp_all add: scaled_plan_def Let_def\<close>)
    with down ne show ?thesis by simp
  qed
  show ?thesis
  proof (rule tripleI)
    fix s :: "'a st" assume s: "scale_inv env scale M r kvs s \<and> obj s = r'"
    then have pre: "stands r' ?A M s" by (simp add: stands_def scale_inv_def)
    have fin: "scale_inv env scale M r (kvs @ [(k, plan)]) t" if "plan_scaled ?A M r' k (\<lambda>_. scaled_plan scale plan ps) t" for t
    proof -
      from s have r': "o_plan r' = scaled_view scale r kvs" by (auto simp: scale_inv_def)
      have "the_plan t x = scaled_view scale r (kvs @ [(k, plan)]) x" for x
        using that ps new unfolding plan_scaled_def r' by (cases "x = k")
          (simp_all add: scaled_view_def or_zero_def map_add_def split: option.split)
      then have "the_plan t = scaled_view scale r (kvs @ [(k, plan)])" by (rule ext)
      with that s show ?thesis by (auto simp: plan_scaled_def scale_inv_def)
    qed
    have bad: "gave_up env ?A M r t" if "gave_up env ?A M r' t" for t
      using that s by (auto simp: gave_up_def scale_inv_def)
    have "triple (stands r' ?A M)
       (if scale = up_scale then scale_plan_up env k plan (rps_clusters ps) (rps_operators ps)
        else if scale = down_scale then scale_plan_down env k plan (rps_clusters ps) (rps_operators ps) else gret ())
       (\<lambda>_. scale_inv env scale M r (kvs @ [(k, plan)])) (\<lambda>_. gave_up env ?A M r)"
      by (rule triple_post [OF run]) (erule fin bad)+
    with pre show "case (if scale = up_scale then scale_plan_up env k plan (rps_clusters ps) (rps_operators ps)
      else if scale = down_scale then scale_plan_down env k plan (rps_clusters ps) (rps_operators ps) else gret ()) s of
        (Ok x, t) \<Rightarrow> scale_inv env scale M r (kvs @ [(k, plan)]) t | (Err e, t) \<Rightarrow> gave_up env ?A M r t | (Panic p, t) \<Rightarrow> False"
      by (simp only: triple_def)
  qed
qed

lemma scale_inv_skip:
  assumes "scale_inv env scale M r kvs s" and "o_plan r k = Some ps" and "scale_skips scale (Some ps)"
    and "map_of kvs k = None"
  shows "scale_inv env scale M r (kvs @ [(k, plan)]) s"
proof -
  have "scaled_view scale r (kvs @ [(k, plan)]) x = scaled_view scale r kvs x" for x
    using assms(2-4) by (cases "x = k")
      (simp_all add: scaled_view_def scaled_plan_def or_zero_def map_add_def split: option.split)
  with assms(1) show ?thesis by (simp add: scale_inv_def fun_eq_iff)
qed

lemma triple_scale_one_plan:
  assumes env: "status_env env" "poll_ok env" and dir: "scale = up_scale \<or> scale = down_scale"
    and plan: "gm_get (sp_restorePlans (esr_spec r)) k = Some plan" and al: "all_aligned scale r"
    and new: "map_of kvs k = None"
  shows "triple (scale_inv env scale M r kvs) (scale_one_plan env scale (k, plan))
     (\<lambda>_. scale_inv env scale M r (kvs @ [(k, plan)])) (\<lambda>_. gave_up env (scale_calls env scale r) M r)"
proof -
  from al plan obtain ps where ps: "o_plan r k = Some ps" "scale_skips scale (Some ps) \<or> aligned plan ps"
    by (auto simp: all_aligned_def)
  show ?thesis
    unfolding scale_one_plan_def Let_def fst_conv snd_conv
  proof (rule triple_gbind [OF scale_inv_active [OF env(1)]], rule triple_gets_value [where c = "Some ps"])
    show "the_plan s k = Some ps" if "scale_inv env scale M r kvs s" for s
      using that new ps(1) by (simp add: scale_inv_def scaled_view_def)
    show "triple (scale_inv env scale M r kvs) (if scale_skips scale (Some ps) then gret ()
       else if scale = up_scale then scale_plan_up env k plan
             (case Some ps of Some ps \<Rightarrow> rps_clusters ps | None \<Rightarrow> []) (case Some ps of Some ps \<Rightarrow> rps_operators ps | None \<Rightarrow> [])
       else if scale = down_scale then scale_plan_down env k plan
             (case Some ps of Some ps \<Rightarrow> rps_clusters ps | None \<Rightarrow> []) (case Some ps of Some ps \<Rightarrow> rps_operators ps | None \<Rightarrow> [])
       else gret ())
      (\<lambda>_. scale_inv env scale M r (kvs @ [(k, plan)])) (\<lambda>_. gave_up env (scale_calls env scale r) M r)"
    proof (rule triple_if)
      assume "scale_skips scale (Some ps)"
      then show "triple (scale_inv env scale M r kvs) (gret ())
          (\<lambda>_. scale_inv env scale M r (kvs @ [(k, plan)])) (\<lambda>_. gave_up env (scale_calls env scale r) M r)"
        using scale_inv_skip [OF _ ps(1) _ new] by (blast intro: triple_gret)
    next
      assume todo: "\<not> scale_skips scale (Some ps)"
      with ps(2) have al': "aligned plan ps" by blast
      show "triple (scale_inv env scale M r kvs)
       (if scale = up_scale then scale_plan_up env k plan
             (case Some ps of Some ps \<Rightarrow> rps_clusters ps | None \<Rightarrow> []) (case Some ps of Some ps \<Rightarrow> rps_operators ps | None \<Rightarrow> [])
       else if scale = down_scale then scale_plan_down env k plan
             (case Some ps of Some ps \<Rightarrow> rps_clusters ps | None \<Rightarrow> []) (case Some ps of Some ps \<Rightarrow> rps_operators ps | None \<Rightarrow> [])
       else gret ())
      (\<lambda>_. scale_inv env scale M r (kvs @ [(k, plan)])) (\<lambda>_. gave_up env (scale_calls env scale r) M r)"
        unfolding option.case
      proof (rule triple_param [where G = obj])
        fix r'
        show "triple (\<lambda>s. scale_inv env scale M r kvs s \<and> obj s = r')
          (if scale = up_scale then scale_plan_up env k plan (rps_clusters ps) (rps_operators ps)
           else if scale = down_scale then scale_plan_down env k plan (rps_clusters ps) (rps_operators ps) else gret ())
          (\<lambda>_. scale_inv env scale M r (kvs @ [(k, plan)])) (\<lambda>_. gave_up env (scale_calls env scale r) M r)"
        proof (cases "o_plan r' k = Some ps")
          case True
          then show ?thesis by (rule triple_scale_work [OF env dir plan ps(1) todo al' new])
        next
          case False
          then have "(\<lambda>s. scale_inv env scale M r kvs s \<and> obj s = r') = (\<lambda>s :: 'a st. False)"
            using new ps(1) by (auto simp: scale_inv_def scaled_view_def fun_eq_iff)
          then show ?thesis by (simp add: triple_def [of "\<lambda>_. False"])
        qed
      qed
    qed
  qed
qed

lemma triple_scale_restore_plan:
  assumes env: "status_env env" "poll_ok env" and dir: "scale = up_scale \<or> scale = down_scale"
    and al: "all_aligned scale r"
  shows "triple (\<lambda>s. obj s = r \<and> mutations s = M) (scale_restore_plan env scale)
     (\<lambda>_ s. did (scale_calls env scale r) M s \<and> esr_spec (obj s) = esr_spec r \<and> o_phase (obj s) = o_phase r
        \<and> (\<forall>k. the_plan s k = (case gm_get (sp_restorePlans (esr_spec r)) k of None \<Rightarrow> o_plan r k
             | Some plan \<Rightarrow> Some (scaled_plan scale plan (or_zero (o_plan r k))))))
     (\<lambda>_. gave_up env (scale_calls env scale r) M r)"
  unfolding scale_restore_plan_def
proof (rule triple_gets_value [where c = "sp_restorePlans (esr_spec r)"], simp, rule triple_range_map)
  fix kvs :: "(string \<times> restore_plan) list"
  assume kvs: "distinct (map fst kvs)" "set kvs = {(k, v). gm_get (sp_restorePlans (esr_spec r)) k = Some v}"
  let ?E = "\<lambda>_. gave_up env (scale_calls env scale r) M r"
  have mo: "map_of kvs k = gm_get (sp_restorePlans (esr_spec r)) k" for k
    using kvs by (cases "gm_get (sp_restorePlans (esr_spec r)) k") (auto simp: map_of_eq_None_iff intro: map_of_is_SomeI)
  have loop: "triple (scale_inv env scale M r []) (for_each (scale_one_plan env scale) kvs)
      (\<lambda>_. scale_inv env scale M r kvs) ?E"
  proof (rule triple_for_each [where I = "scale_inv env scale M r" and xs = kvs])
    fix ys kv zs assume split: "kvs = ys @ kv # zs"
    obtain k plan where kv: "kv = (k, plan)" by force
    from kvs split kv have "(k, plan) \<in> set kvs" and "k \<notin> fst ` set ys" by auto
    with kvs(2) have plan: "gm_get (sp_restorePlans (esr_spec r)) k = Some plan" and new: "map_of ys k = None"
      by (simp_all add: map_of_eq_None_iff)
    show "triple (scale_inv env scale M r ys) (scale_one_plan env scale kv) (\<lambda>_. scale_inv env scale M r (ys @ [kv])) ?E"
      unfolding kv by (rule triple_scale_one_plan [OF env dir plan al new])
  qed
  show "triple (\<lambda>s. obj s = r \<and> mutations s = M) (for_each (scale_one_plan env scale) kvs)
     (\<lambda>_ s. did (scale_calls env scale r) M s \<and> esr_spec (obj s) = esr_spec r \<and> o_phase (obj s) = o_phase r
        \<and> (\<forall>k. the_plan s k = (case gm_get (sp_restorePlans (esr_spec r)) k of None \<Rightarrow> o_plan r k
             | Some plan \<Rightarrow> Some (scaled_plan scale plan (or_zero (o_plan r k)))))) ?E"
    by (rule triple_weaken [OF loop]) (auto simp: scale_inv_def scaled_view_def fun_eq_iff mo)
qed

end
