(* ===== verification/Hook_Names.thy ===== *)
theory Hook_Names
  imports Kube
begin

text \<open>
  The pure functions of \<open>internal/hooks/manage_hooks.go\<close>: the checksum of a hook's command
  and arguments, the names of its jobs (at most 63 characters, as Kubernetes requires of a
  label), and the prefixes of environment variables taken from secrets.
\<close>

section \<open>Checksum\<close>

text \<open>What is written to the hash: each string of the command, then of the arguments,
  followed by a zero byte.\<close>

definition checksum_payload :: "string list \<Rightarrow> string list \<Rightarrow> string" where
  "checksum_payload command args =
     concat (map (\<lambda>c. c @ [CHR 0x00]) command) @ concat (map (\<lambda>a. a @ [CHR 0x00]) args)"

definition hook_checksum :: "'w env \<Rightarrow> string list \<Rightarrow> string list \<Rightarrow> string out" where
  "hook_checksum env command args = slice_to 8 (k_sha256 env (checksum_payload command args))"

section \<open>Job names\<close>

definition hook_job_name :: "'w env \<Rightarrow> string \<Rightarrow> string \<Rightarrow> string out" where
  "hook_job_name env planName hookName =
     (let maxLen = 63; sep = ''-rh-''; hashSuffix = ''-xxxxxxxx'';
          full = planName @ sep @ hookName
      in if length full \<le> maxLen then Ok full
         else obind (slice_to 8 (k_sha256 env full)) (\<lambda>hash.
           let budget = maxLen - length hashSuffix;
               perPart = (budget - length sep) div 2
           in obind (if length planName > perPart
                     then obind (slice_to perPart planName) (\<lambda>x. Ok (trim_right (CHR ''-'') x))
                     else Ok planName) (\<lambda>p.
              obind (if length hookName > perPart
                     then obind (slice_to perPart hookName) (\<lambda>x. Ok (trim_right (CHR ''-'') x))
                     else Ok hookName) (\<lambda>h.
              Ok (p @ sep @ h @ ''-'' @ hash)))))"

definition per_node_job_name :: "'w env \<Rightarrow> string \<Rightarrow> string \<Rightarrow> string out" where
  "per_node_job_name env baseJobName nodeName =
     (let maxLen = 63
      in obind (slice_to 6 (k_sha256 env nodeName)) (\<lambda>hash.
         let full = baseJobName @ ''-'' @ hash
         in if length full \<le> maxLen then Ok full
            else let maxBase = maxLen - 7
                 in obind (slice_to maxBase baseJobName) (\<lambda>x.
                    Ok (trim_right (CHR ''-'') x @ ''-'' @ hash))))"

section \<open>Environment variable prefixes\<close>

text \<open>\<open>strings.ToUpper\<close> on ASCII, which is what a Kubernetes object name consists of.\<close>

definition upper_char :: "char \<Rightarrow> char" where
  "upper_char c = (if CHR ''a'' \<le> c \<and> c \<le> CHR ''z'' then char_of (of_char c - (32 :: nat)) else c)"

definition sanitize_char :: "char \<Rightarrow> char" where
  "sanitize_char c = (if c = CHR ''-'' \<or> c = CHR ''.'' then CHR ''_'' else c)"

definition default_env_prefix :: "string \<Rightarrow> string" where
  "default_env_prefix secretName =
     (let upper = map upper_char secretName; sanitized = map sanitize_char upper
      in sanitized @ ''_'')"

definition normalize_prefix :: "string \<Rightarrow> string" where
  "normalize_prefix prefix = (if \<not> has_suffix prefix ''_'' then prefix @ ''_'' else prefix)"

section \<open>Facts about checksums\<close>

lemma checksum_payload_eq: "checksum_payload c a = concat (map (\<lambda>x. x @ [CHR 0x00]) (c @ a))"
  by (simp add: checksum_payload_def)

lemma terminated_inject:
  "\<lbrakk>z \<notin> set x; z \<notin> set y; x @ z # r = y @ z # r'\<rbrakk> \<Longrightarrow> x = y \<and> r = r'"
proof (induction x arbitrary: y)
  case Nil
  then show ?case by (cases y) auto
next
  case (Cons a x)
  then show ?case by (cases y) auto
qed

lemma concat_terminated_inject:
  "\<lbrakk>\<forall>x \<in> set xs. z \<notin> set x; \<forall>y \<in> set ys. z \<notin> set y;
    concat (map (\<lambda>x. x @ [z]) xs) = concat (map (\<lambda>x. x @ [z]) ys)\<rbrakk> \<Longrightarrow> xs = ys"
proof (induction xs arbitrary: ys)
  case Nil
  then show ?case by (cases ys) auto
next
  case (Cons x xs)
  then obtain y ys' where ys: "ys = y # ys'" by (cases ys) auto
  with Cons.prems have eq: "x = y \<and> concat (map (\<lambda>x. x @ [z]) xs) = concat (map (\<lambda>x. x @ [z]) ys')"
    by (intro terminated_inject [of z]) auto
  have "xs = ys'"
    using Cons.prems(1,2) eq ys by (intro Cons.IH) simp_all
  with eq ys show ?case by simp
qed

lemma hook_checksum_ok:
  assumes "sha_ok env"
  obtains h where "hook_checksum env c a = Ok h" and "length h = 8" and "list_all hex_char h"
proof
  have l: "length (k_sha256 env (checksum_payload c a)) = 64"
    and x: "list_all hex_char (k_sha256 env (checksum_payload c a))"
    using assms by (simp_all add: sha_ok_def)
  show "hook_checksum env c a = Ok (take 8 (k_sha256 env (checksum_payload c a)))"
    by (simp add: hook_checksum_def l)
  show "length (take 8 (k_sha256 env (checksum_payload c a))) = 8" by (simp add: l)
  show "list_all hex_char (take 8 (k_sha256 env (checksum_payload c a)))"
    using x by (auto simp: list_all_iff dest: in_set_takeD)
qed

section \<open>Facts about job names\<close>

text \<open>The shape of a DNS-1123 label, without its bound of 63 characters.\<close>

definition alnum :: "char \<Rightarrow> bool" where
  "alnum c \<longleftrightarrow> c \<in> set ''abcdefghijklmnopqrstuvwxyz0123456789''"

definition label_shape :: "string \<Rightarrow> bool" where
  "label_shape s \<longleftrightarrow> s \<noteq> [] \<and> list_all (\<lambda>c. alnum c \<or> c = CHR ''-'') s \<and> alnum (hd s) \<and> alnum (last s)"

definition dns1123_label :: "string \<Rightarrow> bool" where
  "dns1123_label s \<longleftrightarrow> label_shape s \<and> length s \<le> 63"

lemma hex_alnum: "hex_char c \<Longrightarrow> alnum c"
  by (auto simp: hex_char_def alnum_def)

lemma not_alnum_dash [simp]: "\<not> alnum (CHR ''-'')"
  by (simp add: alnum_def)

lemma label_shape_joined:
  assumes "label_shape x" and "list_all (\<lambda>c. alnum c \<or> c = CHR ''-'') y" and "y \<noteq> []" and "alnum (last y)"
  shows "label_shape (x @ y)"
  using assms by (simp add: label_shape_def)

lemma label_shape_cut:
  assumes "label_shape s" and "0 < n"
  shows "label_shape (trim_right (CHR ''-'') (take n s))"
proof -
  let ?t = "trim_right (CHR ''-'') (take n s)"
  have "hd s \<in> set (take n s)"
    using assms by (cases s; cases n) (auto simp: label_shape_def)
  moreover have "hd s \<noteq> CHR ''-''" using assms(1) by (auto simp: label_shape_def)
  ultimately have ne: "?t \<noteq> []" by (rule trim_right_nonempty)
  moreover have all: "list_all (\<lambda>c. alnum c \<or> c = CHR ''-'') ?t"
    using assms(1) set_trim_right [of "CHR ''-''" "take n s"] set_take_subset [of n s]
    by (auto simp: label_shape_def list_all_iff)
  moreover have "hd ?t = hd s"
    using ne assms by (simp add: hd_trim_right label_shape_def)
  moreover have "alnum (last ?t)"
    using all ne last_trim_right [OF ne] by (auto simp: list_all_iff dest: last_in_set)
  ultimately show ?thesis using assms(1) by (simp add: label_shape_def)
qed

lemma hex_tail:
  assumes "length h = n" and "0 < n" and "list_all hex_char h"
  shows "list_all (\<lambda>c. alnum c \<or> c = CHR ''-'') (CHR ''-'' # h)" and "alnum (last (CHR ''-'' # h))"
proof -
  show "list_all (\<lambda>c. alnum c \<or> c = CHR ''-'') (CHR ''-'' # h)"
    using assms(3) by (auto simp: list_all_iff dest: hex_alnum)
  have "h \<noteq> []" using assms(1,2) by auto
  with assms(3) show "alnum (last (CHR ''-'' # h))"
    by (auto simp: list_all_iff dest: hex_alnum last_in_set)
qed

definition shorten :: "string \<Rightarrow> string" where
  "shorten s = (if length s > 25 then trim_right (CHR ''-'') (take 25 s) else s)"

lemma length_shorten: "length (shorten s) \<le> 25"
  using length_trim_right_le [of "CHR ''-''" "take 25 s"] by (auto simp: shorten_def)

lemma label_shape_shorten: "label_shape s \<Longrightarrow> label_shape (shorten s)"
  by (simp add: shorten_def label_shape_cut)

lemma hook_job_name_long:
  assumes "sha_ok env" and "\<not> length (p @ ''-rh-'' @ h) \<le> 63"
  obtains hash where "hook_job_name env p h = Ok (shorten p @ ''-rh-'' @ shorten h @ ''-'' @ hash)"
    and "length hash = 8" and "list_all hex_char hash"
proof
  let ?d = "k_sha256 env (p @ ''-rh-'' @ h)"
  have d: "length ?d = 64" "list_all hex_char ?d" using assms(1) by (simp_all only: sha_ok_def)
  show "hook_job_name env p h = Ok (shorten p @ ''-rh-'' @ shorten h @ ''-'' @ take 8 ?d)"
    using assms(2) d(1) by (simp add: hook_job_name_def Let_def shorten_def)
  show "length (take 8 ?d) = 8" using d(1) by simp
  show "list_all hex_char (take 8 ?d)" using d(2) by (auto simp: list_all_iff dest: in_set_takeD)
qed

lemma per_node_job_name_cases:
  assumes "sha_ok env"
  obtains hash where "per_node_job_name env b n = Ok ((if length b \<le> 56 then b
      else trim_right (CHR ''-'') (take 56 b)) @ ''-'' @ hash)"
    and "length hash = 6" and "list_all hex_char hash"
proof
  let ?d = "k_sha256 env n"
  have d: "length ?d = 64" "list_all hex_char ?d" using assms by (simp_all add: sha_ok_def)
  show "per_node_job_name env b n = Ok ((if length b \<le> 56 then b
      else trim_right (CHR ''-'') (take 56 b)) @ ''-'' @ take 6 ?d)"
    using d(1) by (simp add: per_node_job_name_def Let_def)
  show "length (take 6 ?d) = 6" using d(1) by simp
  show "list_all hex_char (take 6 ?d)" using d(2) by (auto simp: list_all_iff dest: in_set_takeD)
qed

section \<open>Facts about prefixes\<close>

definition secret_char :: "char \<Rightarrow> bool" where
  "secret_char c \<longleftrightarrow> c \<in> set ''abcdefghijklmnopqrstuvwxyz0123456789-.''"

definition env_char :: "char \<Rightarrow> bool" where
  "env_char c \<longleftrightarrow> c \<in> set ''ABCDEFGHIJKLMNOPQRSTUVWXYZ0123456789_''"

lemma env_chars_sanitized:
  "list_all (\<lambda>c. env_char (sanitize_char (upper_char c))) ''abcdefghijklmnopqrstuvwxyz0123456789-.''"
  by code_simp

lemma env_char_sanitized: "secret_char c \<Longrightarrow> env_char (sanitize_char (upper_char c))"
  using env_chars_sanitized by (simp only: secret_char_def list_all_iff)

section \<open>Properties\<close>

text \<open>\<open>hookJobName\<close> never slices out of range, and turns valid names of a plan and a hook of
  any length into a valid Kubernetes name of at most 63 characters.\<close>

lemma hook_job_name_valid:
  assumes "sha_ok env" and "label_shape planName" and "label_shape hookName"
  shows "\<exists>n. hook_job_name env planName hookName = Ok n \<and> dns1123_label n"
proof (cases "length (planName @ ''-rh-'' @ hookName) \<le> 63")
  case True
  have "label_shape (planName @ ''-rh-'' @ hookName)"
    using assms(2,3) by (intro label_shape_joined) (auto simp: label_shape_def alnum_def)
  with True show ?thesis by (simp add: hook_job_name_def dns1123_label_def)
next
  case False
  with assms(1) obtain hash
    where n: "hook_job_name env planName hookName = Ok (shorten planName @ ''-rh-'' @ shorten hookName @ ''-'' @ hash)"
      and hash: "length hash = 8" "list_all hex_char hash"
    by (rule hook_job_name_long)
  have mid: "list_all (\<lambda>c. alnum c \<or> c = CHR ''-'') (''-rh-'' @ shorten hookName)"
    using label_shape_shorten [OF assms(3)] by (simp add: label_shape_def alnum_def)
  have "label_shape (shorten planName @ (''-rh-'' @ shorten hookName @ ''-'' @ hash))"
    using mid hex_tail [OF hash(1) _ hash(2)] label_shape_shorten [OF assms(2)]
    by (intro label_shape_joined) (auto simp: hash)
  moreover have "length (shorten planName @ (''-rh-'' @ shorten hookName @ ''-'' @ hash)) \<le> 63"
    using length_shorten [of planName] length_shorten [of hookName] hash(1) by simp
  ultimately show ?thesis using n by (simp add: dns1123_label_def)
qed

text \<open>The per-node job name is valid and at most 63 characters long, for every valid base
  name and every node name.\<close>

lemma per_node_job_name_valid:
  assumes "sha_ok env" and "label_shape baseJobName"
  shows "\<exists>n. per_node_job_name env baseJobName nodeName = Ok n \<and> dns1123_label n"
proof -
  let ?b = "if length baseJobName \<le> 56 then baseJobName
      else trim_right (CHR ''-'') (take 56 baseJobName)"
  obtain hash where n: "per_node_job_name env baseJobName nodeName = Ok (?b @ ''-'' @ hash)"
    and hash: "length hash = 6" "list_all hex_char hash"
    using assms(1) by (rule per_node_job_name_cases)
  have "label_shape ?b" using assms(2) by (simp add: label_shape_cut)
  then have "label_shape (?b @ CHR ''-'' # hash)"
    using hex_tail [OF hash(1) _ hash(2)] by (intro label_shape_joined) auto
  moreover have "length ?b \<le> 56"
    using length_trim_right_le [of "CHR ''-''" "take 56 baseJobName"] by auto
  ultimately show ?thesis using n hash(1) by (simp add: dns1123_label_def)
qed

text \<open>C38: For a plan and a hook with valid names of any length and a node of any name, the name of the hook's
  job, and the name of its job on the node, are valid Kubernetes names of at most 63 characters; no
  slice is out of range.\<close>

theorem job_names_valid:
  assumes "sha_ok env" and "label_shape planName" and "label_shape hookName"
  shows "\<exists>n. hook_job_name env planName hookName = Ok n \<and> dns1123_label n
    \<and> (\<exists>m. per_node_job_name env n nodeName = Ok m \<and> dns1123_label m)"
proof -
  from hook_job_name_valid [OF assms] obtain n where "hook_job_name env planName hookName = Ok n" and n: "dns1123_label n" by blast
  moreover from n have "label_shape n" by (simp add: dns1123_label_def)
  ultimately show ?thesis using per_node_job_name_valid [OF assms(1), of n nodeName] by blast
qed

text \<open>C39: The bytes hashed for a checksum determine the concatenation of command and arguments
  when no string contains a zero byte, and nothing more: the boundary between the command and
  the arguments is lost.\<close>

theorem checksum_payload_iff:
  assumes "\<forall>x \<in> set (c @ a @ c' @ a'). CHR 0x00 \<notin> set x"
  shows "checksum_payload c a = checksum_payload c' a' \<longleftrightarrow> c @ a = c' @ a'"
proof
  assume "checksum_payload c a = checksum_payload c' a'"
  then show "c @ a = c' @ a'"
    unfolding checksum_payload_eq using assms by (intro concat_terminated_inject) auto
qed (simp only: checksum_payload_eq)

text \<open>Moving a string from the end of the command to the front of the arguments leaves the
  hook's checksum as it was, so a mutable hook changed in this way is not seen as changed.\<close>

lemma hook_checksum_boundary:
  "hook_checksum env (command @ [x]) args = hook_checksum env command (x # args)"
  by (simp add: hook_checksum_def checksum_payload_def)

text \<open>Job names are not unique: two hooks of two plans whose names are split differently
  around the separator get the same job, config map and service account name.\<close>

lemma hook_job_name_collision:
  assumes "length planName + length part + length hookName \<le> 55"
  shows "hook_job_name env planName (part @ ''-rh-'' @ hookName)
       = hook_job_name env (planName @ ''-rh-'' @ part) hookName"
  using assms by (simp add: hook_job_name_def)

text \<open>The default prefix of a secret with a valid name is its name in upper snake case: only
  upper-case letters, digits and underscores, one character per character of the name, and a
  trailing underscore.\<close>

lemma default_env_prefix_spec:
  assumes "list_all secret_char secretName"
  shows "list_all env_char (default_env_prefix secretName)
       \<and> length (default_env_prefix secretName) = Suc (length secretName)
       \<and> normalize_prefix (default_env_prefix secretName) = default_env_prefix secretName"
proof -
  have "list_all env_char (map (sanitize_char \<circ> upper_char) secretName)"
    using assms by (auto simp: list_all_iff intro: env_char_sanitized)
  moreover have "env_char CHR ''_''" by (simp add: env_char_def)
  ultimately show ?thesis
    by (auto simp: default_env_prefix_def Let_def normalize_prefix_def has_suffix_iff list_all_iff)
qed

text \<open>A custom prefix always ends in an underscore after normalisation, normalising again
  changes nothing, and a prefix that ends in one already is kept.\<close>

lemma normalize_prefix_spec:
  "has_suffix (normalize_prefix p) ''_'' \<and> normalize_prefix (normalize_prefix p) = normalize_prefix p
   \<and> normalize_prefix (p @ ''_'') = p @ ''_''"
  by (auto simp: normalize_prefix_def has_suffix_iff)

end
