(* ===== verification/Hooks.thy ===== *)
theory Hooks
  imports Status_Manager Hook_Names
begin

text \<open>
  \<open>internal/hooks\<close>: the Kubernetes jobs a plan runs before and after the restore.  For each
  hook the operator fixes its command in a config map, provisions a service account (and a
  role, or host access, when the hook asks for it), creates a job, waits for it and records
  the outcome in the status; a hook that succeeded is not run again.  The functions that
  run as goroutines of an errgroup are \<open>proc\<close>s, cut at their calls.
\<close>

definition hook_job_ttl_seconds :: int where
  "hook_job_ttl_seconds = 30"

definition hook_job_backoff_limit :: int where
  "hook_job_backoff_limit = 0"

definition hook_poll_interval :: int where
  "hook_poll_interval = 5 * time_second"

definition hook_poll_timeout :: int where
  "hook_poll_timeout = 10 * time_minute"

record hook_job_settings =
  hj_name :: string
  hj_namespace :: string
  hj_args :: "string list"
  hj_checksum :: string
  hj_command :: "string list"
  hj_event :: restore_event
  hj_extraSecrets :: "extra_secret_ref list"
  hj_image :: string
  hj_mutable :: bool
  hj_ownerMeta :: owner_reference
  hj_planName :: string
  hj_privileges :: "hook_privileges option"
  hj_resolvedNodeName :: string
  hj_restartPolicy :: policy
  hj_timeout :: "int option"

definition node_access :: "hook_job_settings \<Rightarrow> node_access_privilege option" where
  "node_access h = (case hj_privileges h of None \<Rightarrow> None | Some p \<Rightarrow> hp_nodeAccess p)"

section \<open>The hooks of an event\<close>

text \<open>
  The names of plans and hooks are collected in the order of a map and then sorted, so the
  order of the map does not matter.
\<close>

definition hook_job ::
  "'w env \<Rightarrow> restore_event \<Rightarrow> string \<Rightarrow> owner_reference \<Rightarrow> string \<Rightarrow> string \<Rightarrow> hook_settings \<Rightarrow>
   hook_job_settings out" where
  "hook_job env event namespace ownerRef planName hookName st =
     obind (hook_job_name env planName hookName) (\<lambda>name.
     obind (hook_checksum env (hs_command st) (hs_args st)) (\<lambda>checksum.
     Ok \<lparr>hj_name = name, hj_namespace = namespace, hj_args = hs_args st, hj_checksum = checksum,
         hj_command = hs_command st, hj_event = event, hj_extraSecrets = hs_extraSecrets st,
         hj_image = hs_image st, hj_mutable = hs_mutable st, hj_ownerMeta = ownerRef,
         hj_planName = planName, hj_privileges = hs_privileges st, hj_resolvedNodeName = [],
         hj_restartPolicy = hs_restartPolicy st, hj_timeout = hs_timeout st\<rparr>))"

fun setup_plan_hooks ::
  "'w env \<Rightarrow> restore_event \<Rightarrow> string \<Rightarrow> owner_reference \<Rightarrow> string \<Rightarrow> hook_settings option gomap \<Rightarrow>
   string list \<Rightarrow> hook_job_settings list \<Rightarrow> hook_job_settings list out" where
  "setup_plan_hooks env event namespace ownerRef planName hooks [] hJS = Ok hJS"
| "setup_plan_hooks env event namespace ownerRef planName hooks (hookName # names) hJS =
     (case gm_get hooks hookName of
        Some (Some hookSettings) \<Rightarrow>
          if hs_event hookSettings = event then
            obind (hook_job env event namespace ownerRef planName hookName hookSettings) (\<lambda>h.
              setup_plan_hooks env event namespace ownerRef planName hooks names (hJS @ [h]))
          else setup_plan_hooks env event namespace ownerRef planName hooks names hJS
      | _ \<Rightarrow> Panic ''nil pointer dereference'')"

fun setup_plans ::
  "'w env \<Rightarrow> restore_event \<Rightarrow> string \<Rightarrow> owner_reference \<Rightarrow> restore_plan gomap \<Rightarrow> string list \<Rightarrow>
   hook_job_settings list \<Rightarrow> hook_job_settings list out" where
  "setup_plans env event namespace ownerRef plans [] hJS = Ok hJS"
| "setup_plans env event namespace ownerRef plans (planName # names) hJS =
     (let hooks = (case gm_get plans planName of None \<Rightarrow> None | Some plan \<Rightarrow> rp_hooks plan)
      in obind (setup_plan_hooks env event namespace ownerRef planName hooks (sort (gm_keys hooks)) hJS)
           (setup_plans env event namespace ownerRef plans names))"

definition setup_restore_hooks :: "'w env \<Rightarrow> restore_event \<Rightarrow> ('w st, hook_job_settings list) go" where
  "setup_restore_hooks env event =
     gbind (gets obj) (\<lambda>cr.
     gbind (lift_sum (k_gvk_cr env)) (\<lambda>ownerGVK.
     let ownerRef = \<lparr>or_apiVersion = fst ownerGVK, or_kind = snd ownerGVK, or_name = esr_name cr,
           or_uid = esr_uid cr, or_controller = Some True, or_blockOwnerDeletion = Some True\<rparr>;
         plans = sp_restorePlans (esr_spec cr)
     in lift_out (setup_plans env event (esr_namespace cr) ownerRef plans (sort (gm_keys plans)) [])))"

section \<open>Which hooks are skipped\<close>

fun scan_hooks ::
  "string \<Rightarrow> restore_event \<Rightarrow> bool \<Rightarrow> string \<Rightarrow> restore_hook_status list \<Rightarrow> bool \<times> string" where
  "scan_hooks hookName event mutable checksum [] = (False, ''no prior status for this hook'')"
| "scan_hooks hookName event mutable checksum (h # hs) =
     (if rhs_name h \<noteq> hookName \<or> rhs_event h \<noteq> event then scan_hooks hookName event mutable checksum hs
      else if rhs_succeeded h = 0 then (False, ''previous run not successful'')
      else if mutable \<and> event = PostRestore \<and> rhs_checksum h \<noteq> checksum then
        (False, ''checksum changed '' @ rhs_checksum h @ '' -> '' @ checksum)
      else (True, ''already succeeded''))"

definition hook_skip_reason ::
  "ebs_snapshot_restore \<Rightarrow> string \<Rightarrow> string \<Rightarrow> restore_event \<Rightarrow> bool \<Rightarrow> string \<Rightarrow> bool \<times> string" where
  "hook_skip_reason cr planName hookName event mutable checksum =
     (case o_plan cr planName of
        None \<Rightarrow> (False, ''no prior status for plan'')
      | Some plan \<Rightarrow>
          if rps_lock plan \<and> event = PreRestore then
            (True, ''snapshot already restored, pre-restore hooks no longer apply'')
          else scan_hooks hookName event mutable checksum (rps_hooks plan))"

section \<open>The config map of a hook\<close>

definition data_or_empty :: "config_map \<Rightarrow> string \<Rightarrow> string" where
  "data_or_empty cm k = (case gm_get (cm_data cm) k of None \<Rightarrow> [] | Some v \<Rightarrow> v)"

definition plift_sum :: "goerr + 'a \<Rightarrow> ('s, 'a) proc" where
  "plift_sum r = (case r of Inl e \<Rightarrow> pthrow e | Inr x \<Rightarrow> pret x)"

definition wrap_sum :: "string \<Rightarrow> goerr + 'a \<Rightarrow> goerr + 'a" where
  "wrap_sum p r = map_sum (Wrapf p) id r"

definition pwrap :: "string \<Rightarrow> ('s, 'a) proc \<Rightarrow> ('s, 'a) proc" where
  "pwrap p m = pbind (pattempt m) (\<lambda>res. plift_sum (wrap_sum p res))"

definition create_hook_config_map :: "'w env \<Rightarrow> hook_job_settings \<Rightarrow> ('w st, unit) proc" where
  "create_hook_config_map env h =
     pbind (plift_sum (wrap_sum (''marshal command for hook configmap '' @ hj_name h)
              (k_json_marshal env (hj_command h)))) (\<lambda>commandJSON.
     pbind (plift_sum (wrap_sum (''marshal args for hook configmap '' @ hj_name h)
              (k_json_marshal env (hj_args h)))) (\<lambda>argsJSON.
     let cm = \<lparr>cm_meta = zero_meta\<lparr>om_name := hj_name h, om_namespace := hj_namespace h,
                 om_ownerReferences := [hj_ownerMeta h]\<rparr>,
               cm_data = Some [(''command'', commandJSON), (''args'', argsJSON)],
               cm_immutable = None\<rparr>
     in pbind (pwrap (''create hook configmap '' @ hj_name h)
                 (atom (api (ECreateCM cm) (k_create_cm env cm)))) (\<lambda>_. pret ())))"

definition update_hook_config_map :: "'w env \<Rightarrow> hook_job_settings \<Rightarrow> config_map \<Rightarrow> ('w st, unit) proc" where
  "update_hook_config_map env h existing =
     pbind (plift_sum (wrap_sum (''marshal command for hook configmap '' @ hj_name h)
              (k_json_marshal env (hj_command h)))) (\<lambda>commandJSON.
     pbind (plift_sum (wrap_sum (''marshal args for hook configmap '' @ hj_name h)
              (k_json_marshal env (hj_args h)))) (\<lambda>argsJSON.
     pbind (Fin (obind (gm_set (cm_data existing) ''command'' commandJSON)
              (\<lambda>m. gm_set m ''args'' argsJSON))) (\<lambda>newData.
     let patched = existing\<lparr>cm_data := newData\<rparr>
     in pbind (pwrap (''patch hook configmap '' @ hj_name h)
                 (atom (api (EPatchCM patched) (k_patch_cm env existing patched)))) (\<lambda>_. pret ()))))"

definition ensure_hook_config_map :: "'w env \<Rightarrow> hook_job_settings \<Rightarrow> ('w st, unit) proc" where
  "ensure_hook_config_map env h =
     (let n = hj_name h; ns = hj_namespace h
      in pbind (pattempt (atom (api (EGetCM n ns) (k_get_cm env n ns)))) (\<lambda>res.
         case res of
           Inl err \<Rightarrow>
             if is_not_found err then create_hook_config_map env h
             else pthrow (Wrapf (''get hook configmap '' @ n) err)
         | Inr existing \<Rightarrow>
             if \<not> hj_mutable h then pret ()
             else
               pbind (plift_sum (wrap_sum (''unmarshal stored command for hook configmap '' @ n)
                        (k_json_unmarshal env (data_or_empty existing ''command'')))) (\<lambda>storedCommand.
               pbind (plift_sum (wrap_sum (''unmarshal stored args for hook configmap '' @ n)
                        (k_json_unmarshal env (data_or_empty existing ''args'')))) (\<lambda>storedArgs.
               pbind (Fin (hook_checksum env (hj_command h) (hj_args h))) (\<lambda>current.
               pbind (Fin (hook_checksum env storedCommand storedArgs)) (\<lambda>stored.
               if current = stored then pret () else update_hook_config_map env h existing))))))"

definition read_hook_config_map ::
  "'w env \<Rightarrow> hook_job_settings \<Rightarrow> ('w st, string list \<times> string list \<times> string) proc" where
  "read_hook_config_map env h =
     (let n = hj_name h; ns = hj_namespace h
      in pbind (pwrap (''get hook configmap '' @ n) (atom (api (EGetCM n ns) (k_get_cm env n ns)))) (\<lambda>cm.
         pbind (plift_sum (wrap_sum (''unmarshal command from hook configmap '' @ n)
                  (k_json_unmarshal env (data_or_empty cm ''command'')))) (\<lambda>command.
         pbind (plift_sum (wrap_sum (''unmarshal args from hook configmap '' @ n)
                  (k_json_unmarshal env (data_or_empty cm ''args'')))) (\<lambda>args.
         pbind (Fin (hook_checksum env command args)) (\<lambda>checksum.
         pret (command, args, checksum))))))"

definition resolve_hook_from_config_map ::
  "'w env \<Rightarrow> hook_job_settings \<Rightarrow> ('w st, hook_job_settings) go" where
  "resolve_hook_from_config_map env hook =
     (if hj_mutable hook then gret hook
      else gbind (attempt (prun (read_hook_config_map env hook))) (\<lambda>res.
        case res of
          Inl err \<Rightarrow>
            if \<not> is_not_found err then gthrow (Wrapf (''read hook configmap '' @ hj_name hook) err)
            else gret hook
        | Inr (command, args, checksum) \<Rightarrow>
            gret (hook\<lparr>hj_command := command, hj_args := args, hj_checksum := checksum\<rparr>)))"

section \<open>Privileges and the job\<close>

definition hook_meta :: "hook_job_settings \<Rightarrow> object_meta" where
  "hook_meta h = zero_meta\<lparr>om_name := hj_name h, om_namespace := hj_namespace h,
     om_ownerReferences := [hj_ownerMeta h]\<rparr>"

text \<open>Create an object; one that exists already is fine.\<close>

definition create_if_missing :: "string \<Rightarrow> ('w st, 'a) go \<Rightarrow> ('w st, unit) proc" where
  "create_if_missing p create =
     pbind (pattempt (atom create)) (\<lambda>res.
       case res of
         Inl err \<Rightarrow> if \<not> is_already_exists err then pthrow (Wrapf p err) else pret ()
       | Inr x \<Rightarrow> pret ())"

definition ensure_hook_service_account :: "'w env \<Rightarrow> hook_job_settings \<Rightarrow> ('w st, unit) proc" where
  "ensure_hook_service_account env h =
     create_if_missing (''create service account '' @ hj_name h)
       (api (ECreateSA (hook_meta h)) (k_create_sa env (hook_meta h)))"

definition pod_exec_rules :: "policy_rule list" where
  "pod_exec_rules =
     [\<lparr>pr_apiGroups = [[]], pr_resources = [''pods''], pr_verbs = [''get'', ''list'']\<rparr>,
      \<lparr>pr_apiGroups = [[]], pr_resources = [''pods/exec''], pr_verbs = [''create'']\<rparr>]"

definition pod_exec_binding :: "hook_job_settings \<Rightarrow> role_binding" where
  "pod_exec_binding h =
     \<lparr>rb_meta = hook_meta h,
      rb_subjects = [(''ServiceAccount'', hj_name h, hj_namespace h)],
      rb_roleRef = (''rbac.authorization.k8s.io'', ''Role'', hj_name h)\<rparr>"

definition ensure_pod_exec_rbac :: "'w env \<Rightarrow> hook_job_settings \<Rightarrow> ('w st, unit) proc" where
  "ensure_pod_exec_rbac env h =
     pbind (create_if_missing (''create role '' @ hj_name h)
              (api (ECreateRole (hook_meta h)) (k_create_role env (hook_meta h) pod_exec_rules))) (\<lambda>_.
     create_if_missing (''create role binding '' @ hj_name h)
       (api (ECreateRoleBinding (pod_exec_binding h)) (k_create_role_binding env (pod_exec_binding h))))"

definition apply_privileges ::
  "'w env \<Rightarrow> hook_job_settings \<Rightarrow> pod_spec \<Rightarrow> container \<Rightarrow> ('w st, pod_spec \<times> container) proc" where
  "apply_privileges env h pod0 container0 =
     pbind (pwrap (''provision service account for hook '' @ hj_name h) (ensure_hook_service_account env h)) (\<lambda>_.
     let pod = pod0\<lparr>ps_serviceAccountName := hj_name h\<rparr>
     in case hj_privileges h of
          None \<Rightarrow> pret (pod, container0)
        | Some privileges \<Rightarrow>
            pbind (pwhen (hp_podExec privileges)
                     (pwrap (''provision pod-exec rbac for hook '' @ hj_name h) (ensure_pod_exec_rbac env h))) (\<lambda>_.
            pret (if hp_nodeAccess privileges \<noteq> None then
                    (pod\<lparr>ps_nodeName := hj_resolvedNodeName h, ps_hostPID := True,
                         ps_tolerations := ps_tolerations pod @ [''Exists'']\<rparr>,
                     container0\<lparr>c_privileged := Some True\<rparr>)
                  else (pod, container0))))"

definition secret_source :: "extra_secret_ref \<Rightarrow> env_from" where
  "secret_source secret =
     \<lparr>ef_prefix = (if es_prefix secret = [] then default_env_prefix (es_name secret)
                   else normalize_prefix (es_prefix secret)),
      ef_secretName = es_name secret\<rparr>"

definition hook_container :: "hook_job_settings \<Rightarrow> container" where
  "hook_container h =
     \<lparr>c_name = hj_name h, c_image = hj_image h, c_command = hj_command h, c_args = hj_args h,
      c_env = [EnvFieldRef ''NODE_NAME'' ''spec.nodeName'',
               EnvValue ''RESTORE_PLAN_NAME'' (hj_planName h),
               EnvValue ''RESTORE_EVENT'' (event_text (hj_event h)),
               EnvValue ''RESTORE_CR_NAME'' (or_name (hj_ownerMeta h))],
      c_envFrom = map secret_source (hj_extraSecrets h),
      c_privileged = None\<rparr>"

definition hook_labels :: "hook_job_settings \<Rightarrow> string gomap" where
  "hook_labels h = Some [(''app'', hj_name h), (''hook-type'', event_text (hj_event h)),
     (''owner'', or_name (hj_ownerMeta h)), (''hook-checksum'', hj_checksum h)]"

definition hook_pod :: "hook_job_settings \<Rightarrow> pod_spec" where
  "hook_pod h =
     \<lparr>ps_restartPolicy = (if hj_restartPolicy h = RestartPolicyUnset then RestartPolicyNever
        else hj_restartPolicy h),
      ps_containers = [], ps_serviceAccountName = [], ps_nodeName = [], ps_hostPID = False,
      ps_tolerations = []\<rparr>"

definition build_job :: "'w env \<Rightarrow> hook_job_settings \<Rightarrow> ('w st, job) proc" where
  "build_job env h =
     pbind (plift_sum (k_gvk_job env)) (\<lambda>gvk.
     let labels = hook_labels h
     in pbind (apply_privileges env h (hook_pod h) (hook_container h)) (\<lambda>(pod, container).
        pret \<lparr>j_kind = snd gvk, j_apiVersion = fst gvk,
              j_meta = zero_meta\<lparr>om_name := hj_name h, om_namespace := hj_namespace h, om_labels := labels,
                om_ownerReferences := [(hj_ownerMeta h)\<lparr>or_controller := Some True,
                                         or_blockOwnerDeletion := Some True\<rparr>]\<rparr>,
              j_ttlSecondsAfterFinished = Some hook_job_ttl_seconds,
              j_backoffLimit = Some hook_job_backoff_limit,
              j_templateLabels = labels,
              j_podSpec = pod\<lparr>ps_containers := [container]\<rparr>,
              j_active = 0, j_succeeded = 0, j_failed = 0\<rparr>))"

section \<open>Waiting for a job\<close>

fun nat_text :: "nat \<Rightarrow> string" where
  "nat_text n = (if n < 10 then [char_of (48 + n)] else nat_text (n div 10) @ [char_of (48 + n mod 10)])"

definition int_text :: "int \<Rightarrow> string" where
  "int_text n = (if n < 0 then CHR ''-'' # nat_text (nat (- n)) else nat_text (nat n))"

text \<open>
  \<open>seen\<close> is a variable of the call that its polling closure assigns.  The wait is one atomic
  step of a goroutine: \<open>poll_run\<close> lets the world change at will between two evaluations of
  the condition, which covers what the other goroutines do meanwhile.
\<close>

definition job_condition :: "'w env \<Rightarrow> string \<Rightarrow> string \<Rightarrow> ('w st, bool) go" where
  "job_condition env n ns =
     gbind (attempt (api (EGetJob n ns) (k_get_job env n ns))) (\<lambda>res.
       case res of
         Inl err \<Rightarrow>
           if is_not_found err then
             gbind (gets seen) (\<lambda>sn.
             if sn then gthrow (Errorf (''job '' @ ns @ ''/'' @ n @ '' was deleted externally''))
             else gret False)
           else gthrow err
       | Inr current \<Rightarrow>
           gbind (modify (\<lambda>s. s\<lparr>seen := True\<rparr>)) (\<lambda>_.
           if j_succeeded current > 0 then gret True
           else if j_failed current > 0 \<and> j_active current = 0 then
             gthrow (Errorf (''job failed after '' @ int_text (j_failed current) @ '' attempt(s)''))
           else gret False))"

definition wait_for_job :: "'w env \<Rightarrow> job \<Rightarrow> int option \<Rightarrow> ('w st, unit) go" where
  "wait_for_job env job timeout =
     (let pollTimeoutWaitForJob = (case timeout of None \<Rightarrow> hook_poll_timeout | Some d \<Rightarrow> d)
      in gbind (modify (\<lambda>s. s\<lparr>seen := False\<rparr>)) (\<lambda>_.
         poll_until env hook_poll_interval pollTimeoutWaitForJob
           (job_condition env (om_name (j_meta job)) (om_namespace (j_meta job)))))"

section \<open>One job\<close>

definition hook_status0 :: "hook_job_settings \<Rightarrow> restore_hook_status" where
  "hook_status0 hook =
     \<lparr>rhs_name = hj_name hook, rhs_namespace = hj_namespace hook, rhs_checksum = [],
      rhs_event = hj_event hook, rhs_failed = 0, rhs_image = hj_image hook, rhs_mutable = hj_mutable hook,
      rhs_restartPolicy = hj_restartPolicy hook, rhs_succeeded = 0,
      rhs_configMapRef = Some \<lparr>cr_refName = hj_name hook, cr_refNamespace = hj_namespace hook\<rparr>\<rparr>"

definition await_hook_job ::
  "'w env \<Rightarrow> restore_hook_status \<Rightarrow> int option \<Rightarrow> job \<Rightarrow> ('w st, restore_hook_status \<times> goerr option) proc" where
  "await_hook_job env hookStatus timeout job =
     pbind (pattempt (atom (wait_for_job env job timeout))) (\<lambda>res.
       case res of
         Inl err \<Rightarrow> pret (hookStatus\<lparr>rhs_failed := 1\<rparr>, Some (Wrapf (''hook job '' @ om_name (j_meta job)) err))
       | Inr _ \<Rightarrow> pret (hookStatus\<lparr>rhs_succeeded := 1\<rparr>, None))"

text \<open>From the creation of the job on; \<open>checksum\<close> is the one its label must carry.\<close>

definition launch_hook_job ::
  "'w env \<Rightarrow> restore_hook_status \<Rightarrow> string \<Rightarrow> int option \<Rightarrow> job \<Rightarrow>
   ('w st, restore_hook_status \<times> goerr option) proc" where
  "launch_hook_job env hookStatus checksum timeout job =
     (let n = om_name (j_meta job); ns = om_namespace (j_meta job)
      in pbind (pattempt (atom (api (ECreateJob job) (k_create_job env job)))) (\<lambda>res.
         case res of
           Inr created \<Rightarrow> await_hook_job env hookStatus timeout created
         | Inl err \<Rightarrow>
             if \<not> is_already_exists err then
               pret (hookStatus, Some (Wrapf (''create hook job '' @ n) err))
             else
               pbind (pattempt (atom (api (EGetJob n ns) (k_get_job env n ns)))) (\<lambda>got.
                 case got of
                   Inl getErr \<Rightarrow> await_hook_job env hookStatus timeout job
                 | Inr existing \<Rightarrow>
                     if (case gm_get (om_labels (j_meta existing)) ''hook-checksum'' of
                           None \<Rightarrow> [] | Some c \<Rightarrow> c) \<noteq> checksum then
                       pret (hookStatus, Some (Errorf (''hook job '' @ n
                         @ '' is stale (checksum mismatch), will retry after TTL'')))
                     else await_hook_job env hookStatus timeout job)))"

definition execute_hook_job ::
  "'w env \<Rightarrow> hook_job_settings \<Rightarrow> ('w st, restore_hook_status \<times> goerr option) proc" where
  "execute_hook_job env hook0 =
     (let hookStatus = hook_status0 hook0
      in pbind (pattempt (ensure_hook_config_map env hook0)) (\<lambda>ensured.
         case ensured of
           Inl err \<Rightarrow> pret (hookStatus, Some (Wrapf (''ensure hook configmap '' @ hj_name hook0) err))
         | Inr _ \<Rightarrow>
             pbind (pattempt (read_hook_config_map env hook0)) (\<lambda>rd.
               case rd of
                 Inl err \<Rightarrow> pret (hookStatus, Some err)
               | Inr (command, args, checksum) \<Rightarrow>
                   let hook = hook0\<lparr>hj_command := command, hj_args := args, hj_checksum := checksum\<rparr>;
                       hookStatus1 = hookStatus\<lparr>rhs_checksum := checksum\<rparr>
                   in pbind (pattempt (build_job env hook)) (\<lambda>built.
                      case built of
                        Inl err \<Rightarrow> pret (hookStatus1, Some (Wrapf (''build hook job '' @ hj_name hook) err))
                      | Inr job \<Rightarrow> launch_hook_job env hookStatus1 checksum (hj_timeout hook) job))))"

section \<open>The hooks of a plan\<close>

definition run_hook :: "'w env \<Rightarrow> string \<Rightarrow> hook_job_settings \<Rightarrow> ('w st, unit) go" where
  "run_hook env planName hook =
     gbind (prun (execute_hook_job env hook)) (\<lambda>(hookStatus, err).
     gbind (set_hooks_restore_from_plan env planName hookStatus) (\<lambda>_.
     case err of None \<Rightarrow> gret () | Some e \<Rightarrow> gthrow e))"

definition resolve_node_names :: "'w env \<Rightarrow> label_selector option \<Rightarrow> ('w st, string list) go" where
  "resolve_node_names env selector =
     gbind (wrap_err ''invalid nodeSelector'' (lift_sum (k_selector env selector))) (\<lambda>labelSelector.
     wrap_err ''list nodes'' (api EListNodes (k_list_nodes env labelSelector)))"

fun pending_nodes ::
  "'w env \<Rightarrow> string \<Rightarrow> hook_job_settings \<Rightarrow> string list \<Rightarrow> hook_job_settings list \<Rightarrow>
   ('w st, hook_job_settings list) go" where
  "pending_nodes env planName hook [] pendingNodes = gret pendingNodes"
| "pending_nodes env planName hook (nodeName # nodeNames) pendingNodes =
     gbind (lift_out (per_node_job_name env (hj_name hook) nodeName)) (\<lambda>name.
     gbind (resolve_hook_from_config_map env (hook\<lparr>hj_name := name, hj_resolvedNodeName := nodeName\<rparr>)) (\<lambda>resolved.
     gbind (gets obj) (\<lambda>cr.
     if fst (hook_skip_reason cr planName (hj_name resolved) (hj_event resolved) (hj_mutable resolved) (hj_checksum resolved))
     then pending_nodes env planName hook nodeNames pendingNodes
     else pending_nodes env planName hook nodeNames (pendingNodes @ [resolved]))))"

definition run_node_access_hook :: "'w env \<Rightarrow> string \<Rightarrow> hook_job_settings \<Rightarrow> node_access_privilege \<Rightarrow> ('w st, unit) go" where
  "run_node_access_hook env planName hook nodeAccess =
     gbind (wrap_err (''resolve nodes for hook '' @ hj_name hook)
              (resolve_node_names env (na_nodeSelector nodeAccess))) (\<lambda>nodeNames.
     if nodeNames = [] then gret ()
     else
     gbind (pending_nodes env planName hook nodeNames []) (\<lambda>pendingNodes.
     if pendingNodes = [] then gret ()
     else
     gbind (k_group env (map (execute_hook_job env) pendingNodes)) (\<lambda>(results, waitErr).
     gbind (for_each (\<lambda>hookStatus. gbind (attempt (set_hooks_restore_from_plan env planName hookStatus))
                                      (\<lambda>_. gret ())) results) (\<lambda>_.
     case waitErr of None \<Rightarrow> gret () | Some e \<Rightarrow> gthrow e))))"

definition run_plan_hooks :: "'w env \<Rightarrow> string \<Rightarrow> hook_job_settings list \<Rightarrow> ('w st, unit) go" where
  "run_plan_hooks env planName hooks =
     for_each (\<lambda>hook. case node_access hook of
         Some na \<Rightarrow> run_node_access_hook env planName hook na
       | None \<Rightarrow> run_hook env planName hook) hooks"

fun pending_hooks ::
  "'w env \<Rightarrow> string \<Rightarrow> hook_job_settings list \<Rightarrow> hook_job_settings list \<Rightarrow> ('w st, hook_job_settings list) go" where
  "pending_hooks env planName [] pending = gret pending"
| "pending_hooks env planName (hook # hooks) pending =
     (if node_access hook \<noteq> None then pending_hooks env planName hooks (pending @ [hook])
      else
        gbind (resolve_hook_from_config_map env hook) (\<lambda>resolved.
        gbind (gets obj) (\<lambda>cr.
        if fst (hook_skip_reason cr planName (hj_name resolved) (hj_event resolved) (hj_mutable resolved) (hj_checksum resolved))
        then pending_hooks env planName hooks pending
        else pending_hooks env planName hooks (pending @ [resolved]))))"

definition run_hooks_of_plan :: "'w env \<Rightarrow> string \<times> hook_job_settings list \<Rightarrow> ('w st, unit) go" where
  "run_hooks_of_plan env kv =
     (let planName = fst kv; planHooks = snd kv
      in gbind (pending_hooks env planName planHooks []) (\<lambda>pending.
         gbind (attempt (run_plan_hooks env planName pending)) (\<lambda>res.
         case res of
           Inl err \<Rightarrow> gbind (set_phase env PhaseFailed) (\<lambda>_. gthrow err)
         | Inr _ \<Rightarrow> gret ())))"

definition group_by_plan :: "hook_job_settings list \<Rightarrow> hook_job_settings list gomap out" where
  "group_by_plan hooks =
     foldl (\<lambda>r h. obind r (\<lambda>byPlan.
         gm_set byPlan (hj_planName h)
           ((case gm_get byPlan (hj_planName h) of None \<Rightarrow> [] | Some l \<Rightarrow> l) @ [h])))
       (Ok make_map) hooks"

definition run_hooks :: "'w env \<Rightarrow> hook_job_settings list \<Rightarrow> ('w st, unit) go" where
  "run_hooks env hooks =
     gbind (lift_out (group_by_plan hooks)) (\<lambda>byPlan.
     gbind (range_map env byPlan) (\<lambda>kvs. for_each (run_hooks_of_plan env) kvs))"

end
