(* ===== verification/Hook_Facts.thy ===== *)
theory Hook_Facts
  imports Hooks
begin

text \<open>
  What the hook functions do: which calls they make (nothing but config maps, accounts,
  roles, jobs and the status of the resource), that they never panic, which hooks are
  skipped, what privileges a job gets, what a wait ends with and what is recorded.
\<close>

section \<open>Calls\<close>

fun hook_call :: "event \<Rightarrow> bool" where
  "hook_call (EPatchStatus new) = True"
| "hook_call (ECreateJob j) = True"
| "hook_call (ECreateCM c) = True"
| "hook_call (EPatchCM c) = True"
| "hook_call (ECreateSA m) = True"
| "hook_call (ECreateRole m) = True"
| "hook_call (ECreateRoleBinding b) = True"
| "hook_call e = False"

text \<open>The calls above but for the status patches.\<close>

abbreviation object_call :: "event \<Rightarrow> bool" where
  "object_call e \<equiv> hook_call e \<and> \<not> is_status_patch e"

text \<open>
  A hook changes the hook statuses and may set the phase to \<open>Failed\<close>; nothing else of the resource, in
  memory and in the patches it sends.
\<close>

definition same_but_hooks :: "ebs_snapshot_restore \<Rightarrow> ebs_snapshot_restore \<Rightarrow> bool" where
  "same_but_hooks r r' \<longleftrightarrow> r' = r\<lparr>esr_status := esr_status r'\<rparr>
     \<and> rs_activePlan (esr_status r') = rs_activePlan (esr_status r) \<and> o_phase r' \<in> {o_phase r, PhaseFailed}
     \<and> (\<forall>k. (or_zero (o_plan r' k))\<lparr>rps_hooks := []\<rparr> = (or_zero (o_plan r k))\<lparr>rps_hooks := []\<rparr>)
     \<and> (\<forall>k. o_plan r k \<noteq> None \<longrightarrow> o_plan r' k \<noteq> None)"

definition hook_write :: "ebs_snapshot_restore \<Rightarrow> event \<Rightarrow> bool" where
  "hook_write r e \<longleftrightarrow> hook_call e \<and> (\<forall>new. e = EPatchStatus new \<longrightarrow> same_but_hooks r new)"

definition hooking :: "'w st \<Rightarrow> 'w st \<Rightarrow> bool" where
  "hooking s t \<longleftrightarrow> same_but_hooks (obj s) (obj t) \<and> emits (hook_write (obj s)) s t"

lemma same_but_hooks_refl [simp]: "same_but_hooks r r"
  by (simp add: same_but_hooks_def)

lemma same_but_hooks_trans:
  assumes "same_but_hooks a b" and "same_but_hooks b c"
  shows "same_but_hooks a c"
proof -
  have "c = a\<lparr>esr_status := esr_status c\<rparr>"
    using assms unfolding same_but_hooks_def
    by (metis ebs_snapshot_restore.surjective ebs_snapshot_restore.update_convs(5))
  moreover have "o_phase c \<in> {o_phase a, PhaseFailed}" using assms by (auto simp: same_but_hooks_def)
  ultimately show ?thesis using assms by (simp add: same_but_hooks_def)
qed

lemma hook_write_object [simp]: "object_call e \<Longrightarrow> hook_write r e"
  by (auto simp: hook_write_def)

lemma hook_write_trans: "same_but_hooks r r' \<Longrightarrow> hook_write r' e \<Longrightarrow> hook_write r e"
  unfolding hook_write_def by (blast intro: same_but_hooks_trans)

lemma hookingD:
  assumes "hooking s t"
  shows "same_but_hooks (obj s) (obj t)" and "emits hook_call s t"
proof -
  show "same_but_hooks (obj s) (obj t)" using assms by (simp add: hooking_def)
  have "emits (hook_write (obj s)) s t" using assms by (simp add: hooking_def)
  then show "emits hook_call s t" by (rule emits_mono) (simp add: hook_write_def)
qed

lemma hooking_written:
  assumes "written f s t"
    and "rs_activePlan (f (the_status s)) = rs_activePlan (the_status s)"
    and "rs_phase (f (the_status s)) \<in> {rs_phase (the_status s), PhaseFailed}"
    and "\<And>k. (or_zero (plan_status (f (the_status s)) k))\<lparr>rps_hooks := []\<rparr> = (or_zero (the_plan s k))\<lparr>rps_hooks := []\<rparr>"
    and "\<And>k. the_plan s k \<noteq> None \<Longrightarrow> plan_status (f (the_status s)) k \<noteq> None"
  shows "hooking s t"
proof -
  have same: "same_but_hooks (obj s) (obj t)"
    using assms(2-5) writtenD(1-3) [OF assms(1)] assms(1)
    by (auto simp: same_but_hooks_def written_def)
  have "evolves (hook_write (obj s)) s t"
    by (rule written_evolves [OF assms(1)]) (simp add: hook_write_def same)
  with same show ?thesis by (simp add: hooking_def evolves_def)
qed

interpretation hooking: world_frame hooking
proof
  fix s t u :: "'a st"
  assume st: "hooking s t" and tu: "hooking t u"
  then have same: "same_but_hooks (obj s) (obj t)" "same_but_hooks (obj t) (obj u)" by (simp_all add: hooking_def)
  have "emits (hook_write (obj s)) t u"
    using tu hook_write_trans [OF same(1)] by (auto simp: hooking_def intro: emits_mono)
  with st same show "hooking s u"
    unfolding hooking_def by (blast intro: same_but_hooks_trans emits_trans)
qed (auto simp: hooking_def)

lemma acts_hooking: "acts object_call s t \<Longrightarrow> hooking s t"
  unfolding acts_def hooking_def by (auto intro: emits_mono)

lemma hooking_acts: "keeps (acts object_call) m \<Longrightarrow> keeps hooking m"
  by (simp add: keeps_def acts_hooking)

lemma hooking_api: "quiet ev \<or> object_call ev \<Longrightarrow> keeps hooking (api ev f)"
  by (rule hooking_acts [OF acts_api])

lemma hooking_set_hooks:
  assumes "status_env env"
  shows "keeps hooking (set_hooks_restore_from_plan env k h)"
  unfolding keeps_def
proof
  fix s :: "'a st"
  obtain r t where run: "set_hooks_restore_from_plan env k h s = (r, t)" by force
  with hooked.writes [OF assms] have w: "written (put_plan k (\<lambda>p. p\<lparr>rps_hooks := upsert_hook h (rps_hooks p)\<rparr>)) s t"
    by blast
  have "hooking s t"
    by (rule hooking_written [OF w]) (auto simp: plan_status_put_plan or_zero_def split: option.splits)
  then show "hooking s (snd (set_hooks_restore_from_plan env k h s))" by (simp add: run)
qed

lemma hooking_set_phase:
  assumes "status_env env"
  shows "keeps hooking (set_phase env PhaseFailed)"
  unfolding keeps_def
proof
  fix s :: "'a st"
  obtain r t where run: "set_phase env PhaseFailed s = (r, t)" by force
  with phase.writes [OF assms] have w: "written (\<lambda>st. st\<lparr>rs_phase := PhaseFailed\<rparr>) s t" by blast
  have "hooking s t" by (rule hooking_written [OF w]) simp_all
  then show "hooking s (snd (set_phase env PhaseFailed s))" by (simp add: run)
qed

text \<open>The functions that leave the resource alone, by the rules of the frame.\<close>

lemma acts_hook_plift_sum: "pkeeps (acts object_call) (plift_sum r)"
  by (cases r) (simp_all add: plift_sum_def pkeeps_pret pkeeps_pthrow)

lemma acts_hook_call: "quiet ev \<or> object_call ev \<Longrightarrow> pkeeps (acts object_call) (atom (api ev f))"
  by (rule pkeeps_atom [OF acts_api])

lemma acts_hook_pwrap: "pkeeps (acts object_call) p \<Longrightarrow> pkeeps (acts object_call) (pwrap t p)"
  unfolding pwrap_def by (intro pkeeps_rules acts_hook_plift_sum)

lemmas acts_hook_rules = pkeeps_rules acts_hook_plift_sum acts_hook_pwrap pkeeps.Fin

lemma acts_hook_create_cm: "pkeeps (acts object_call) (create_hook_config_map env h)"
  unfolding create_hook_config_map_def Let_def by (intro acts_hook_rules acts_hook_call) simp

lemma acts_hook_update_cm: "pkeeps (acts object_call) (update_hook_config_map env h existing)"
  unfolding update_hook_config_map_def Let_def by (intro acts_hook_rules acts_hook_call) simp

lemma acts_hook_ensure_cm: "pkeeps (acts object_call) (ensure_hook_config_map env h)"
  unfolding ensure_hook_config_map_def Let_def
  by (intro acts_hook_rules acts_hook_call acts_hook_create_cm acts_hook_update_cm) simp

lemma acts_hook_read_cm: "pkeeps (acts object_call) (read_hook_config_map env h)"
  unfolding read_hook_config_map_def Let_def by (intro acts_hook_rules acts_hook_call) simp

lemma acts_hook_create: "quiet ev \<or> object_call ev \<Longrightarrow> pkeeps (acts object_call) (create_if_missing t (api ev f))"
  unfolding create_if_missing_def by (intro acts_hook_rules acts_hook_call)

lemma acts_hook_privileges: "pkeeps (acts object_call) (apply_privileges env h pod c)"
  unfolding apply_privileges_def ensure_hook_service_account_def ensure_pod_exec_rbac_def Let_def
  by (intro acts_hook_rules acts_hook_create) simp_all

lemma acts_hook_build_job: "pkeeps (acts object_call) (build_job env h)"
  unfolding build_job_def Let_def by (intro acts_hook_rules acts_hook_privileges)

lemma acts_hook_wait: "poll_ok env \<Longrightarrow> keeps (acts object_call) (wait_for_job env j timeout)"
  unfolding wait_for_job_def job_condition_def Let_def
  by (intro acting.world_rules acting.poll_until acts_api) simp_all

lemma acts_hook_await: "poll_ok env \<Longrightarrow> pkeeps (acts object_call) (await_hook_job env st timeout j)"
  unfolding await_hook_job_def by (intro acts_hook_rules pkeeps_atom [OF acts_hook_wait])

lemma acts_hook_launch: "poll_ok env \<Longrightarrow> pkeeps (acts object_call) (launch_hook_job env st c timeout j)"
  unfolding launch_hook_job_def Let_def
  by (intro acts_hook_rules acts_hook_call acts_hook_await) simp_all

lemma acts_hook_execute: "poll_ok env \<Longrightarrow> pkeeps (acts object_call) (execute_hook_job env h)"
  unfolding execute_hook_job_def Let_def
  by (intro acts_hook_rules acts_hook_ensure_cm acts_hook_read_cm acts_hook_build_job acts_hook_launch)

lemma acts_hook_resolve: "keeps (acts object_call) (resolve_hook_from_config_map env h)"
  unfolding resolve_hook_from_config_map_def
  by (intro acting.rules acting.prun_keeps acts_hook_read_cm)

lemma acts_hook_pending_nodes: "keeps (acts object_call) (pending_nodes env k h ns acc)"
  by (induction env k h ns acc rule: pending_nodes.induct)
    (auto intro!: acting.rules acts_hook_resolve)

lemma acts_hook_pending_hooks: "keeps (acts object_call) (pending_hooks env k hs acc)"
  by (induction env k hs acc rule: pending_hooks.induct)
    (auto intro!: acting.rules acts_hook_resolve)

lemma pkeeps_mono: "pkeeps R p \<Longrightarrow> (\<And>s t. R s t \<Longrightarrow> R' s t) \<Longrightarrow> pkeeps R' p"
  by (induction rule: pkeeps.induct) (auto intro: pkeeps.intros)

lemma hooking_execute: "poll_ok env \<Longrightarrow> pkeeps hooking (execute_hook_job env h)"
  by (erule pkeeps_mono [OF acts_hook_execute], rule acts_hooking)

lemmas hooking_pending = hooking_acts [OF acts_hook_pending_nodes] hooking_acts [OF acts_hook_pending_hooks]

lemma hooking_node_hook:
  "status_env env \<Longrightarrow> poll_ok env \<Longrightarrow> group_ok env \<Longrightarrow> keeps hooking (run_node_access_hook env k h na)"
  unfolding run_node_access_hook_def resolve_node_names_def
  by (intro hooking.rules hooking_api hooking_pending hooking.group hooking_set_hooks)
    (auto intro: hooking_execute)

lemma hooking_run_hook: "status_env env \<Longrightarrow> poll_ok env \<Longrightarrow> keeps hooking (run_hook env k h)"
  unfolding run_hook_def
  by (intro hooking.rules hooking.prun_keeps hooking_execute hooking_set_hooks)

lemma hooking_run_hooks:
  assumes "status_env env" and "poll_ok env" and "group_ok env"
  shows "keeps hooking (run_hooks env hs)"
  unfolding run_hooks_def run_hooks_of_plan_def run_plan_hooks_def Let_def
  by (intro hooking.world_rules hooking_pending hooking_node_hook hooking_run_hook
      hooking_set_phase assms)

section \<open>No panic\<close>

lemma pcalm_plift_sum: "pcalm (plift_sum r)"
  by (cases r) (simp_all add: plift_sum_def pcalm_basic)

lemma pcalm_pwrap: "pcalm p \<Longrightarrow> pcalm (pwrap t p)"
  unfolding pwrap_def by (intro pcalm_rules pcalm_plift_sum)

lemma pcalm_call: "pcalm (atom (api ev f))"
  by (rule pcalm_atom [OF calm_world(1)])

lemma pcalm_checksum: "sha_ok env \<Longrightarrow> pcalm (Fin (hook_checksum env c a))"
  by (rule pcalm.Fin) (metis hook_checksum_ok out.distinct(3))

lemmas pcalm_hook_rules = pcalm_rules pcalm_plift_sum pcalm_pwrap pcalm_call pcalm_checksum

lemma pcalm_create_cm: "pcalm (create_hook_config_map env h)"
  unfolding create_hook_config_map_def Let_def by (intro pcalm_hook_rules)

lemma pcalm_update_cm: "cm_data existing \<noteq> None \<Longrightarrow> pcalm (update_hook_config_map env h existing)"
  unfolding update_hook_config_map_def Let_def by (intro pcalm_hook_rules pcalm.Fin) auto

lemma pcalm_ensure_cm:
  assumes "sha_ok env" and "json_ok env"
  shows "pcalm (ensure_hook_config_map env h)"
proof -
  let ?text = "''unmarshal stored command for hook configmap '' @ hj_name h"
  have mutable: "pcalm (pbind (plift_sum (wrap_sum ?text (k_json_unmarshal env (data_or_empty existing ''command'')))) (\<lambda>storedCommand.
         pbind (plift_sum (wrap_sum (''unmarshal stored args for hook configmap '' @ hj_name h)
                  (k_json_unmarshal env (data_or_empty existing ''args'')))) (\<lambda>storedArgs.
         pbind (Fin (hook_checksum env (hj_command h) (hj_args h))) (\<lambda>current.
         pbind (Fin (hook_checksum env storedCommand storedArgs)) (\<lambda>stored.
         if current = stored then pret () else update_hook_config_map env h existing)))))" for existing
  proof (cases "cm_data existing")
    case None
    then obtain e where "k_json_unmarshal env (data_or_empty existing ''command'') = Inl e"
      using assms(2) by (cases "k_json_unmarshal env []") (auto simp: json_ok_def data_or_empty_def)
    then show ?thesis by (simp add: wrap_sum_def plift_sum_def pthrow_def pcalm.Fin)
  next
    case (Some al)
    then show ?thesis by (intro pcalm_hook_rules assms pcalm_update_cm) simp
  qed
  show ?thesis
    unfolding ensure_hook_config_map_def Let_def
    by (intro pcalm_pbind [OF pcalm_pattempt [OF pcalm_call]] pcalm_case_sum pcalm_if pcalm_create_cm
        pcalm_basic mutable)
qed

lemma pcalm_read_cm: "sha_ok env \<Longrightarrow> pcalm (read_hook_config_map env h)"
  unfolding read_hook_config_map_def Let_def by (intro pcalm_hook_rules)

lemma pcalm_create: "pcalm (create_if_missing t (api ev f))"
  unfolding create_if_missing_def by (intro pcalm_hook_rules)

lemma pcalm_build_job: "pcalm (build_job env h)"
  unfolding build_job_def apply_privileges_def ensure_hook_service_account_def ensure_pod_exec_rbac_def Let_def
  by (intro pcalm_hook_rules pcalm_create)

lemma calm_wait: "poll_ok env \<Longrightarrow> calm (wait_for_job env j timeout)"
  unfolding wait_for_job_def job_condition_def Let_def by (intro calm_api_rules calm_poll)

lemma pcalm_await: "poll_ok env \<Longrightarrow> pcalm (await_hook_job env st timeout j)"
  unfolding await_hook_job_def by (intro pcalm_hook_rules pcalm_atom [OF calm_wait])

lemma pcalm_execute:
  assumes "poll_ok env" and "sha_ok env" and "json_ok env"
  shows "pcalm (execute_hook_job env h)"
  unfolding execute_hook_job_def launch_hook_job_def Let_def
  by (intro pcalm_hook_rules pcalm_ensure_cm pcalm_read_cm pcalm_build_job pcalm_await assms)

lemma calm_resolve: "sha_ok env \<Longrightarrow> calm (resolve_hook_from_config_map env h)"
  unfolding resolve_hook_from_config_map_def by (intro calm_rules calm_prun pcalm_read_cm)

lemma per_node_no_panic: "sha_ok env \<Longrightarrow> per_node_job_name env b n \<noteq> Panic p"
  by (metis per_node_job_name_cases out.distinct(3))

lemma calm_pending_nodes: "sha_ok env \<Longrightarrow> calm (pending_nodes env k h ns acc)"
  by (induction env k h ns acc rule: pending_nodes.induct)
    (auto intro!: calm_rules calm_resolve calm_lift_out simp: per_node_no_panic)

lemma calm_pending_hooks: "sha_ok env \<Longrightarrow> calm (pending_hooks env k hs acc)"
  by (induction env k hs acc rule: pending_hooks.induct) (auto intro!: calm_rules calm_resolve)

lemma calm_set_hooks: "status_env env \<Longrightarrow> calm (set_hooks_restore_from_plan env k h)"
  unfolding calm_def using hooked.writes by blast

lemma calm_set_phase: "status_env env \<Longrightarrow> calm (set_phase env p)"
  unfolding calm_def using phase.writes by blast

lemma calm_node_hook:
  assumes "status_env env" and "poll_ok env" and "group_ok env" and "sha_ok env" and "json_ok env"
  shows "calm (run_node_access_hook env k h na)"
  unfolding run_node_access_hook_def resolve_node_names_def
  by (intro calm_rules calm_world calm_pending_nodes calm_group calm_set_hooks assms)
    (auto intro: pcalm_execute assms)

lemma calm_run_hook:
  assumes "status_env env" and "poll_ok env" and "sha_ok env" and "json_ok env"
  shows "calm (run_hook env k h)"
  unfolding run_hook_def by (intro calm_rules calm_prun pcalm_execute calm_set_hooks assms)

text \<open>Grouping by plan never writes to a nil map, and keeps the hooks and their order.\<close>

definition bucket :: "(string \<times> 'a list) list \<Rightarrow> string \<Rightarrow> 'a list" where
  "bucket al k = (case map_of al k of None \<Rightarrow> [] | Some l \<Rightarrow> l)"

lemma group_by_plan_foldl:
  "\<exists>m. foldl (\<lambda>r h. obind r (\<lambda>byPlan. gm_set byPlan (hj_planName h)
           ((case gm_get byPlan (hj_planName h) of None \<Rightarrow> [] | Some l \<Rightarrow> l) @ [h]))) (Ok (Some al)) hooks = Ok (Some m)
     \<and> (\<forall>k. bucket m k = bucket al k @ filter (\<lambda>h. hj_planName h = k) hooks)
     \<and> dom (map_of m) = dom (map_of al) \<union> hj_planName ` set hooks"
proof (induction hooks arbitrary: al)
  case (Cons h hooks)
  let ?al = "(hj_planName h, bucket al (hj_planName h) @ [h]) # filter (\<lambda>b. fst b \<noteq> hj_planName h) al"
  have bucket: "bucket ?al k = bucket al k @ (if hj_planName h = k then [h] else [])" for k
    by (simp add: bucket_def map_of_filter_neq)
  have dom: "dom (map_of ?al) = insert (hj_planName h) (dom (map_of al))"
    by (auto simp: map_of_filter_neq)
  from Cons.IH [of ?al] obtain m where "foldl (\<lambda>r h. obind r (\<lambda>byPlan. gm_set byPlan (hj_planName h)
       ((case gm_get byPlan (hj_planName h) of None \<Rightarrow> [] | Some l \<Rightarrow> l) @ [h]))) (Ok (Some ?al)) hooks = Ok (Some m)"
    and "\<And>k. bucket m k = bucket ?al k @ filter (\<lambda>h. hj_planName h = k) hooks"
    and "dom (map_of m) = dom (map_of ?al) \<union> hj_planName ` set hooks"
    by blast
  then show ?case
    unfolding bucket dom by (intro exI [of _ m]) (simp add: bucket_def [of al "hj_planName h", symmetric])
qed simp

lemma group_by_plan_ok:
  obtains m where "group_by_plan hooks = Ok (Some m)"
    and "\<And>k. bucket m k = filter (\<lambda>h. hj_planName h = k) hooks"
    and "dom (map_of m) = hj_planName ` set hooks"
  using group_by_plan_foldl [of "[]" hooks] by (auto simp: group_by_plan_def make_map_def bucket_def [of "[]"])

lemma calm_run_hooks:
  assumes "status_env env" and "poll_ok env" and "group_ok env" and "sha_ok env" and "json_ok env"
  shows "calm (run_hooks env hs)"
proof -
  have "group_by_plan hs \<noteq> Panic p" for p by (metis group_by_plan_ok out.distinct(3))
  then show ?thesis
    unfolding run_hooks_def run_hooks_of_plan_def run_plan_hooks_def Let_def
    by (intro calm_rules calm_lift_out calm_world calm_pending_hooks calm_node_hook calm_run_hook
        calm_set_phase assms)
qed

section \<open>The hooks of an event\<close>

text \<open>
  The reference: all hooks of all plans, by name of the plan and then of the hook, those of
  the event.  The hook settings are pointers; a hook without settings is excluded.
\<close>

fun the_out :: "'a out \<Rightarrow> 'a" where
  "the_out (Ok x) = x"
| "the_out _ = undefined"

definition plan_hooks :: "restore_plan gomap \<Rightarrow> string \<Rightarrow> hook_settings option gomap" where
  "plan_hooks plans k = (case gm_get plans k of None \<Rightarrow> None | Some plan \<Rightarrow> rp_hooks plan)"

definition event_hooks :: "restore_event \<Rightarrow> hook_settings option gomap \<Rightarrow> (string \<times> hook_settings) list" where
  "event_hooks event hooks = filter (\<lambda>(h, st). hs_event st = event)
     (map (\<lambda>h. (h, the (the (gm_get hooks h)))) (sort (gm_keys hooks)))"

definition no_nil_hooks :: "ebs_snapshot_restore \<Rightarrow> bool" where
  "no_nil_hooks r \<longleftrightarrow> (\<forall>k h. gm_get (plan_hooks (sp_restorePlans (esr_spec r)) k) h \<noteq> Some None)"

definition owner_ref :: "'w env \<Rightarrow> ebs_snapshot_restore \<Rightarrow> gvk \<Rightarrow> owner_reference" where
  "owner_ref env r g = \<lparr>or_apiVersion = fst g, or_kind = snd g, or_name = esr_name r,
     or_uid = esr_uid r, or_controller = Some True, or_blockOwnerDeletion = Some True\<rparr>"

definition hooks_of :: "'w env \<Rightarrow> restore_event \<Rightarrow> ebs_snapshot_restore \<Rightarrow> gvk \<Rightarrow> hook_job_settings list" where
  "hooks_of env event r g =
     (let plans = sp_restorePlans (esr_spec r)
      in concat (map (\<lambda>k. map (\<lambda>(h, st). the_out (hook_job env event (esr_namespace r) (owner_ref env r g) k h st))
                   (event_hooks event (plan_hooks plans k))) (sort (gm_keys plans))))"

lemma hook_job_name_ok: "sha_ok env \<Longrightarrow> \<exists>n. hook_job_name env p h = Ok n"
  by (cases "length (p @ ''-rh-'' @ h) \<le> 63") (auto simp: hook_job_name_def intro: hook_job_name_long)

lemma hook_job_ok:
  assumes "sha_ok env"
  obtains x where "hook_job env event ns ow k h st = Ok x"
proof -
  obtain n where "hook_job_name env k h = Ok n" using hook_job_name_ok [OF assms] by blast
  moreover obtain c where "hook_checksum env (hs_command st) (hs_args st) = Ok c" using hook_checksum_ok [OF assms] by blast
  ultimately show thesis by (intro that) (simp add: hook_job_def)
qed

lemma setup_plan_hooks_ok:
  assumes "sha_ok env" and "\<And>h. h \<in> set names \<Longrightarrow> \<exists>st. gm_get hooks h = Some (Some st)"
  shows "setup_plan_hooks env event ns ow k hooks names hJS = Ok (hJS @
     map (\<lambda>(h, st). the_out (hook_job env event ns ow k h st))
       (filter (\<lambda>(h, st). hs_event st = event) (map (\<lambda>h. (h, the (the (gm_get hooks h)))) names)))"
  using assms(2)
proof (induction names arbitrary: hJS)
  case (Cons h names)
  then obtain st where st: "gm_get hooks h = Some (Some st)" by auto
  show ?case
  proof (cases "hs_event st = event")
    case True
    obtain x where "hook_job env event ns ow k h st = Ok x" using hook_job_ok [OF assms(1)] by blast
    with True show ?thesis using Cons.IH Cons.prems st by simp
  qed (use Cons st in simp)
qed simp

lemma setup_plans_ok:
  assumes "sha_ok env" and "\<And>k h. gm_get (plan_hooks plans k) h \<noteq> Some None"
  shows "setup_plans env event ns ow plans names hJS = Ok (hJS @
     concat (map (\<lambda>k. map (\<lambda>(h, st). the_out (hook_job env event ns ow k h st))
       (event_hooks event (plan_hooks plans k))) names))"
proof (induction names arbitrary: hJS)
  case (Cons k names)
  have "\<exists>st. gm_get (plan_hooks plans k) h = Some (Some st)" if "h \<in> set (sort (gm_keys (plan_hooks plans k)))" for h
    using that assms(2) [of k h] by (auto simp: set_gm_keys)
  then have "setup_plan_hooks env event ns ow k (plan_hooks plans k) (sort (gm_keys (plan_hooks plans k))) hJS =
      Ok (hJS @ map (\<lambda>(h, st). the_out (hook_job env event ns ow k h st)) (event_hooks event (plan_hooks plans k)))"
    unfolding event_hooks_def by (rule setup_plan_hooks_ok [OF assms(1)])
  with Cons show ?case by (simp add: plan_hooks_def [symmetric] Let_def)
qed simp

lemma setup_restore_hooks_ok:
  assumes "sha_ok env" and "no_nil_hooks (obj s)" and "k_gvk_cr env = Inr g"
  shows "setup_restore_hooks env event s = (Ok (hooks_of env event (obj s) g), s)"
  using setup_plans_ok [OF assms(1), of "sp_restorePlans (esr_spec (obj s))"] assms(2)
  by (simp add: setup_restore_hooks_def go_run assms(3) Let_def no_nil_hooks_def hooks_of_def owner_ref_def)

lemma setup_restore_hooks_cases:
  assumes "sha_ok env" and "no_nil_hooks (obj s)"
  obtains hs where "setup_restore_hooks env event s = (Ok hs, s)"
  | e where "k_gvk_cr env = Inl e" and "setup_restore_hooks env event s = (Err e, s)"
proof (cases "k_gvk_cr env")
  case (Inl e)
  then show thesis by (intro that(2)) (simp_all add: setup_restore_hooks_def go_run)
next
  case (Inr g)
  with setup_restore_hooks_ok [OF assms] that(1) show thesis by blast
qed

end
