(* ===== verification/Operator.thy ===== *)
theory Operator
  imports Validate Restore Scale Hook_Facts
begin

text \<open>
  What holds of the packages together.  The locale \<open>step_frame\<close> says when a relation between states
  passes through hooks and scaling, \<open>operator_frame\<close> when it passes through everything that runs
  inside one phase of a reconcile. They are interpreted on relations: only the status of the
  resource is ever written; a package leaves the phase as it is or sets it to \<open>Failed\<close>.
\<close>

section \<open>Relations kept by every package\<close>

text \<open>\<open>ok\<close> says which changes of the status the relation allows.\<close>

locale step_frame = world_frame R for R :: "'w st \<Rightarrow> 'w st \<Rightarrow> bool" +
  fixes ok :: "restore_status \<Rightarrow> restore_status \<Rightarrow> bool"
  assumes R_call: "\<not> is_status_patch ev \<Longrightarrow> \<not> claim_call ev \<Longrightarrow> R s (s\<lparr>world := w, trace := trace s @ [ev]\<rparr>)"
    and R_written: "written f s t \<Longrightarrow> ok (the_status s) (f (the_status s)) \<Longrightarrow> R s t"
    and ok_phase: "ok st (st\<lparr>rs_phase := PhaseFailed\<rparr>)"
    and ok_active: "ok st (st\<lparr>rs_activePlan := a\<rparr>)"
    and ok_scaled: "ok st (put_plan k (\<lambda>p. p\<lparr>rps_clusters := cs, rps_operators := os, rps_countScaleUp := n\<rparr>) st)"
    and ok_hooked: "ok st (put_plan k (\<lambda>p. p\<lparr>rps_hooks := upsert_hook h (rps_hooks p)\<rparr>) st)"
begin

lemma call: "\<not> is_status_patch ev \<Longrightarrow> \<not> claim_call ev \<Longrightarrow> keeps R (api ev f)"
  by (auto simp: keeps_def api_run R_call split: prod.splits sum.splits)

lemma written_keeps:
  assumes "\<And>s r t. m s = (r, t) \<Longrightarrow> written f s t" and "\<And>st. ok st (f st)"
  shows "keeps R m"
  unfolding keeps_def using assms R_written by (metis prod.collapse)

lemma setters:
  assumes "status_env env"
  shows "keeps R (set_active_plan env k)" and "keeps R (set_phase env PhaseFailed)"
    and "keeps R (set_scale_restore_plan env k n cs os)" and "keeps R (set_hooks_restore_from_plan env k h)"
  by (rule written_keeps [OF conjunct1 [OF active.writes [OF assms]] ok_active]
      written_keeps [OF conjunct1 [OF phase.writes [OF assms]] ok_phase]
      written_keeps [OF conjunct1 [OF scaled.writes [OF assms]] ok_scaled]
      written_keeps [OF conjunct1 [OF hooked.writes [OF assms]] ok_hooked], assumption)+

lemmas steps = world_rules call setters

lemma validate_targets: "(\<And>x. keeps R (check x)) \<Longrightarrow> keeps R (validate_targets check xs statuses)"
  by (induction xs arbitrary: statuses) (auto intro!: rules)

lemma fetch: "keeps R (fetch_cluster_resources env c k t)"
  unfolding fetch_cluster_resources_def Let_def by (intro steps) simp_all

lemma find_latest: "keeps R (find_latest_snapshot_time env k cs)"
proof -
  have "keeps R (find_latest_loop env k cs latest sts)" for latest sts
    by (induction env k cs latest sts rule: find_latest_loop.induct) (auto simp: Let_def intro!: rules fetch)
  then show ?thesis by (simp add: find_latest_snapshot_time_def)
qed

lemma scalers:
  assumes "poll_ok env"
  shows "keeps R (scale_cluster_down env t)" and "keeps R (scale_cluster_up env t)"
    and "keeps R (scale_operator_down env t)" and "keeps R (scale_operator_up env t)"
  unfolding scale_cluster_down_def scale_cluster_up_def scale_operator_down_def scale_operator_up_def
    recreate_sts_def sts_up_def Let_def
  by (intro steps poll_until assms; (simp; fail)?; simp add: gret gthrow split: update_strategy.split)+

lemma process_targets: "(\<And>t. keeps R (f t)) \<Longrightarrow> keeps R (process_targets f d i ts sts)"
  by (induction ts arbitrary: i sts) (auto intro!: rules)

lemma scale:
  assumes "status_env env" and "poll_ok env"
  shows "keeps R (scale_restore_plan env d)"
  unfolding scale_restore_plan_def scale_one_plan_def scale_plan_up_def scale_plan_down_def fail_scale_def Let_def
  by (intro steps assms process_targets scalers)

lemma plift_sum: "pkeeps R (plift_sum r)"
  by (cases r) (simp_all add: plift_sum_def pkeeps_pret pkeeps_pthrow)

lemma pcall: "\<not> is_status_patch ev \<Longrightarrow> \<not> claim_call ev \<Longrightarrow> pkeeps R (atom (api ev f))"
  by (rule pkeeps_atom [OF call])

lemmas psteps = pkeeps_rules plift_sum pcall pkeeps.Fin

lemma execute:
  assumes "poll_ok env"
  shows "pkeeps R (execute_hook_job env h)"
  unfolding execute_hook_job_def launch_hook_job_def await_hook_job_def build_job_def apply_privileges_def
    ensure_hook_config_map_def create_hook_config_map_def update_hook_config_map_def read_hook_config_map_def
    ensure_hook_service_account_def ensure_pod_exec_rbac_def create_if_missing_def pwrap_def
    wait_for_job_def job_condition_def Let_def
  by (intro psteps pkeeps_atom steps poll_until assms) simp_all

lemma resolve: "keeps R (resolve_hook_from_config_map env h)"
  unfolding resolve_hook_from_config_map_def read_hook_config_map_def pwrap_def Let_def
  by (intro rules prun_keeps psteps) simp_all

lemma pending_nodes: "keeps R (pending_nodes env k h ns acc)"
  by (induction env k h ns acc rule: pending_nodes.induct) (auto intro!: rules resolve)

lemma pending_hooks: "keeps R (pending_hooks env k hs acc)"
  by (induction env k hs acc rule: pending_hooks.induct) (auto intro!: rules resolve)

lemma hooks:
  assumes "status_env env" and "poll_ok env" and "group_ok env"
  shows "keeps R (run_hooks env hs)"
  unfolding run_hooks_def run_hooks_of_plan_def run_plan_hooks_def run_node_access_hook_def run_hook_def
    resolve_node_names_def Let_def
  by (intro steps pending_nodes pending_hooks prun_keeps execute group assms) (auto intro: execute assms)

end

locale claim_frame = step_frame R ok for R :: "'w st \<Rightarrow> 'w st \<Rightarrow> bool" and ok +
  assumes R_claim: "claim_call ev \<Longrightarrow> R s (s\<lparr>world := w, trace := trace s @ [ev]\<rparr>)"
begin

lemma any_call: "\<not> is_status_patch ev \<Longrightarrow> keeps R (api ev f)"
  using R_claim by (cases "claim_call ev") (auto simp: call, auto simp: keeps_def api_run split: prod.splits sum.splits)

lemmas all_steps = world_rules any_call setters

lemma restore_pvc:
  assumes "poll_ok env"
  shows "keeps R (restore_pvc env ns snap)"
  unfolding restore_pvc_def provision_pvc_def wait_pv_provisioned_def wait_pvc_bound_def wait_pvc_deleted_def
    poll_volumes_def Let_def
  by (intro all_steps poll_until assms) simp_all

end

locale operator_frame = claim_frame R ok for R :: "'w st \<Rightarrow> 'w st \<Rightarrow> bool" and ok +
  assumes ok_validated: "ok st (put_plan k (\<lambda>p. p\<lparr>rps_lock := l, rps_snapshotRestoreTime := t, rps_clusters := cs, rps_operators := os\<rparr>) st)"
    and ok_restored: "ok st (put_plan k (\<lambda>p. p\<lparr>rps_clusters := cs, rps_operators := os, rps_lock := l\<rparr>) st)"
begin

lemma plan_setters:
  assumes "status_env env"
  shows "keeps R (set_validate_restore_plan env k t l cs os)" and "keeps R (set_restore_from_plan env k l cs os)"
  by (rule written_keeps [OF conjunct1 [OF validated.writes [OF assms]] ok_validated]
      written_keeps [OF conjunct1 [OF restored.writes [OF assms]] ok_restored], assumption)+

lemmas plan_steps = all_steps plan_setters

lemma validate:
  assumes "status_env env"
  shows "keeps R (validate_list_snapshots env)"
  unfolding validate_list_snapshots_def validate_plan_def validate_known_time_def validate_snapshot_def
    validate_cluster_def validate_operator_def fail_plan_def Let_def
  by (intro plan_steps assms find_latest validate_targets fetch) simp_all

lemma restore_clusters:
  assumes "status_env env" and "poll_ok env"
  shows "keeps R (restore_clusters env k ops i cs clusters)"
  by (induction cs arbitrary: i clusters)
    (auto simp: Let_def restore_snaps_def intro!: plan_steps restore_pvc assms)

lemma restore:
  assumes "status_env env" and "poll_ok env"
  shows "keeps R (restore_from_plan env)"
  unfolding restore_from_plan_def restore_one_plan_def Let_def
  by (intro plan_steps assms restore_clusters)

end

section \<open>Only the status is written\<close>

definition same_resource :: "ebs_snapshot_restore \<Rightarrow> ebs_snapshot_restore \<Rightarrow> bool" where
  "same_resource r r' \<longleftrightarrow> r' = r\<lparr>esr_status := esr_status r'\<rparr>"

lemma same_resource_iff: "same_resource r r' \<longleftrightarrow> esr_name r' = esr_name r \<and> esr_namespace r' = esr_namespace r
    \<and> esr_uid r' = esr_uid r \<and> esr_spec r' = esr_spec r"
  by (cases r; cases r') (auto simp: same_resource_def)

definition patches_where :: "(ebs_snapshot_restore \<Rightarrow> bool) \<Rightarrow> event \<Rightarrow> bool" where
  "patches_where P e \<longleftrightarrow> (\<forall>new. e = EPatchStatus new \<longrightarrow> P new)"

lemma patches_where_simps [simp]:
  "patches_where P (EPatchStatus new) = P new"
  "\<not> is_status_patch e \<Longrightarrow> patches_where P e"
  "claim_call e \<Longrightarrow> patches_where P e"
  by (auto simp: patches_where_def)

lemma patches_where_mono: "patches_where P e \<Longrightarrow> (\<And>r. P r \<Longrightarrow> Q r) \<Longrightarrow> patches_where Q e"
  by (cases e) simp_all

lemma same_resource_trans: "same_resource a b \<Longrightarrow> same_resource b c \<Longrightarrow> same_resource a c"
  by (simp add: same_resource_iff)

lemma emits_written: "written f s t \<Longrightarrow> A (EPatchStatus (obj t)) \<Longrightarrow> emits A s t"
  by (auto simp: written_def intro: emits_snoc)

definition only_status :: "'w st \<Rightarrow> 'w st \<Rightarrow> bool" where
  "only_status s t \<longleftrightarrow> same_resource (obj s) (obj t) \<and> emits (patches_where (same_resource (obj s))) s t"

interpretation only: operator_frame only_status "\<lambda>_ _. True"
proof
  fix s t u :: "'a st"
  assume st: "only_status s t" and tu: "only_status t u"
  then have tu': "emits (patches_where (same_resource (obj t))) t u" and same: "same_resource (obj s) (obj t)"
    by (simp_all add: only_status_def)
  have "emits (patches_where (same_resource (obj s))) t u"
    by (rule emits_mono [OF tu'], elim patches_where_mono) (rule same_resource_trans [OF same])
  moreover from st tu have "emits (patches_where (same_resource (obj s))) s t" "same_resource (obj s) (obj u)"
    using same_resource_trans by (auto simp: only_status_def)
  ultimately show "only_status s u" by (simp add: only_status_def emits_trans [of _ s t u])
next
  fix f and s t :: "'a st" assume w: "written f s t"
  then have "same_resource (obj s) (obj t)" by (simp add: written_def same_resource_def)
  with emits_written [OF w] show "only_status s t" by (simp add: only_status_def)
qed (simp_all add: only_status_def same_resource_iff)

section \<open>A phase lasts until the next one or a failure\<close>

definition in_phase :: "restore_phase \<Rightarrow> ebs_snapshot_restore \<Rightarrow> bool" where
  "in_phase p r \<longleftrightarrow> o_phase r = p \<or> o_phase r = PhaseFailed"

definition holds_phase :: "'w st \<Rightarrow> 'w st \<Rightarrow> bool" where
  "holds_phase s t \<longleftrightarrow> in_phase (o_phase (obj s)) (obj t)
     \<and> emits (patches_where (in_phase (o_phase (obj s)))) s t"

interpretation holding: operator_frame holds_phase "\<lambda>st st'. rs_phase st' \<in> {rs_phase st, PhaseFailed}"
proof
  fix s t u :: "'a st"
  assume st: "holds_phase s t" and tu: "holds_phase t u"
  then have tu': "emits (patches_where (in_phase (o_phase (obj t)))) t u" and in_p: "in_phase (o_phase (obj s)) (obj t)"
    by (simp_all add: holds_phase_def)
  have "emits (patches_where (in_phase (o_phase (obj s)))) t u"
    by (rule emits_mono [OF tu'], elim patches_where_mono) (use in_p in \<open>auto simp: in_phase_def\<close>)
  moreover from st tu have "emits (patches_where (in_phase (o_phase (obj s)))) s t" "in_phase (o_phase (obj s)) (obj u)"
    by (auto simp: holds_phase_def in_phase_def)
  ultimately show "holds_phase s u" by (simp add: holds_phase_def emits_trans [of _ s t u])
next
  fix f and s t :: "'a st" assume w: "written f s t"
    and p: "rs_phase (f (the_status s)) \<in> {o_phase (obj s), PhaseFailed}"
  have "in_phase (o_phase (obj s)) (obj t)" using writtenD(1) [OF w] p by (auto simp: in_phase_def)
  with emits_written [OF w] show "holds_phase s t" by (simp add: holds_phase_def)
qed (simp_all add: holds_phase_def in_phase_def)

end
