(* ===== verification/Reconcile.thy ===== *)
theory Reconcile
  imports Operator
begin

text \<open>
  \<open>internal/controller\<close>: one reconcile of a restore resource, which goes through the phases
  in order: validate, pre-restore hooks, scale down, restore, scale up, post-restore
  hooks, completed.  The lemmas put the contracts of the packages together.
\<close>

definition frequency :: int where
  "frequency = 30 * time_second"

text \<open>
  The block around \<open>RunHooks\<close>, for both events; the value of the model is the result's
  \<open>RequeueAfter\<close>.
\<close>

definition with_hooks ::
  "'w env \<Rightarrow> restore_event \<Rightarrow> restore_phase \<Rightarrow> ('w st, int) go \<Rightarrow> ('w st, int) go" where
  "with_hooks env event phase rest =
     gbind (setup_restore_hooks env event) (\<lambda>hooksList.
     if hooksList = [] then rest
     else
       gbind (set_phase env phase) (\<lambda>_.
       gbind (attempt (run_hooks env hooksList)) (\<lambda>res.
         case res of Inl err \<Rightarrow> gret frequency | Inr _ \<Rightarrow> rest)))"

definition reconcile_resource :: "'w env \<Rightarrow> ('w st, int) go" where
  "reconcile_resource env =
     gbind (set_init_status_restore_plan env) (\<lambda>_.
     gbind (set_phase env PhaseValidating) (\<lambda>_.
     gbind (validate_list_snapshots env) (\<lambda>_.
     with_hooks env PreRestore PhaseRunningPreHooks (
     gbind (set_phase env PhaseScalingDown) (\<lambda>_.
     gbind (scale_restore_plan env down_scale) (\<lambda>_.
     gbind (set_phase env PhaseRestoring) (\<lambda>_.
     gbind (restore_from_plan env) (\<lambda>_.
     gbind (set_phase env PhaseScalingUp) (\<lambda>_.
     gbind (scale_restore_plan env up_scale) (\<lambda>_.
     with_hooks env PostRestore PhaseRunningPostHooks (
     gbind (set_phase env PhaseCompleted) (\<lambda>_.
     gret frequency))))))))))))"

definition reconcile :: "'w env \<Rightarrow> string \<Rightarrow> string \<Rightarrow> ('w st, int) go" where
  "reconcile env name namespace =
     gbind (attempt (api (EGetCR name namespace) (k_get_cr env name namespace))) (\<lambda>res.
       case res of
         Inl err \<Rightarrow> if is_not_found err then gret 0 else gthrow err
       | Inr eSR \<Rightarrow> gbind (modify (\<lambda>s. s\<lparr>obj := eSR\<rparr>)) (\<lambda>_. reconcile_resource env))"

section \<open>The calls of each phase\<close>

fun in_stage :: "restore_phase \<Rightarrow> event \<Rightarrow> bool" where
  "in_stage p (EPatchStatus new) = in_phase p new"
| "in_stage p (EPatchSTS x) = (p = PhaseScalingDown \<or> p = PhaseScalingUp)"
| "in_stage p (EPatchDeployment x) = (p = PhaseScalingDown \<or> p = PhaseScalingUp)"
| "in_stage p (EDeleteSTS x policy) = (p = PhaseScalingUp)"
| "in_stage p (ECreateSTS x) = (p = PhaseScalingUp)"
| "in_stage p (EDeletePVC x) = (p = PhaseRestoring)"
| "in_stage p (ECreatePVC x) = (p = PhaseRestoring)"
| "in_stage p (EPatchPVC x) = (p = PhaseRestoring)"
| "in_stage p e = (hook_call e \<and> (p = PhaseRunningPreHooks \<or> p = PhaseRunningPostHooks))"

text \<open>
  \<open>stagewise ps es\<close>: the calls \<open>es\<close> can be cut into consecutive pieces, one for each phase of
  \<open>ps\<close> in their order, each piece made of calls of its phase.
\<close>

fun stagewise :: "restore_phase list \<Rightarrow> event list \<Rightarrow> bool" where
  "stagewise [] es = (es = [])"
| "stagewise (p # ps) es = (\<exists>n \<le> length es. list_all (in_stage p) (take n es) \<and> stagewise ps (drop n es))"

lemma stagewise_Cons: "stagewise (p # ps) (as @ bs)" if "list_all (in_stage p) as" "stagewise ps bs"
  using that by (auto intro!: exI [of _ "length as"])

lemma stagewise_empty: "stagewise ps []"
  by (induction ps) auto

lemma stagewise_snoc: "stagewise ps es \<Longrightarrow> list_all (in_stage p) as \<Longrightarrow> stagewise (ps @ [p]) (es @ as)"
proof (induction ps arbitrary: es)
  case (Cons q ps)
  then obtain n where n: "n \<le> length es" "list_all (in_stage q) (take n es)" "stagewise ps (drop n es)" by auto
  with Cons have "stagewise (ps @ [p]) (drop n es @ as)" by blast
  from stagewise_Cons [OF n(2) this] show ?case by (metis append.assoc append_Cons append_take_drop_id)
qed auto

lemma stagewise_more: "stagewise ps es \<Longrightarrow> stagewise (ps @ qs) es"
proof (induction qs arbitrary: ps)
  case (Cons q qs)
  from stagewise_snoc [OF Cons.prems, of q "[]"] Cons.IH [of "ps @ [q]"] show ?case by simp
qed simp

lemma stagewise_extend: "stagewise (ps @ [p]) es \<Longrightarrow> list_all (in_stage p) as \<Longrightarrow> stagewise (ps @ [p]) (es @ as)"
proof (induction ps arbitrary: es)
  case Nil
  then show ?case by (auto intro!: exI [of _ "length (es @ as)"])
next
  case (Cons q ps)
  then obtain n where n: "n \<le> length es" "list_all (in_stage q) (take n es)" "stagewise (ps @ [p]) (drop n es)" by auto
  with Cons have "stagewise (ps @ [p]) (drop n es @ as)" by blast
  from stagewise_Cons [OF n(2) this] show ?case by (metis append.assoc append_Cons append_take_drop_id)
qed

lemma stagewise_sorted:
  "stagewise ps es \<Longrightarrow> sorted ps \<Longrightarrow> EPatchStatus r \<in> set es \<Longrightarrow> o_phase r \<in> set ps \<or> o_phase r = PhaseFailed"
proof (induction ps arbitrary: es)
  case (Cons p ps)
  then obtain n where n: "list_all (in_stage p) (take n es)" "stagewise ps (drop n es)" by auto
  from Cons.prems(3) have "EPatchStatus r \<in> set (take n es) \<or> EPatchStatus r \<in> set (drop n es)"
    by (metis Un_iff append_take_drop_id set_append)
  then show ?case using Cons.IH [OF n(2)] Cons.prems(2) n(1) by (auto simp: list_all_iff in_phase_def)
qed simp

section \<open>Stages of a run\<close>

definition at_stage :: "restore_phase list \<Rightarrow> ebs_snapshot_restore \<Rightarrow> event list \<Rightarrow> 'w st \<Rightarrow> bool" where
  "at_stage ps r0 M s \<longleftrightarrow> (\<exists>es. mutations s = M @ es \<and> stagewise ps es) \<and> same_resource r0 (obj s)"

lemma at_stage_start: "obj s = r0 \<Longrightarrow> mutations s = M \<Longrightarrow> at_stage ps r0 M s"
  by (simp add: at_stage_def stagewise_empty same_resource_iff)

lemma at_stage_more: "at_stage ps r0 M s \<Longrightarrow> at_stage (ps @ qs) r0 M s"
  unfolding at_stage_def using stagewise_more by blast

lemma at_stage_extend:
  assumes "at_stage (ps @ [p]) r0 M s" and "did A (mutations s) t" and "\<And>e. A e \<Longrightarrow> in_stage p e"
    and "same_resource (obj s) (obj t)"
  shows "at_stage (ps @ [p]) r0 M t"
proof -
  from assms(1) obtain es where es: "mutations s = M @ es" "stagewise (ps @ [p]) es" "same_resource r0 (obj s)"
    by (auto simp: at_stage_def)
  from assms(2) obtain ms where ms: "mutations t = mutations s @ ms" "\<forall>e \<in> set ms. A e" by (auto simp: did_def)
  with assms(3) have "stagewise (ps @ [p]) (es @ ms)"
    by (intro stagewise_extend es(2)) (simp add: list_all_iff)
  with es ms(1) same_resource_trans [OF es(3) assms(4)] show ?thesis by (auto simp: at_stage_def)
qed

lemma did_conj: "did A M s \<Longrightarrow> did B M s \<Longrightarrow> did (\<lambda>e. A e \<and> B e) M s"
  by (auto simp: did_def)

lemma emits_did: "emits A s t \<Longrightarrow> did A (mutations s) t"
  using emits_mutations [of A s t] by (auto simp: did_def)

text \<open>One package call inside a phase: its contract, with the frames of the operator.\<close>

lemma triple_package:
  assumes T: "\<And>r M'. C r \<Longrightarrow> triple (\<lambda>s. obj s = r \<and> mutations s = M') m
      (\<lambda>x s. did (A r) M' s \<and> Q r x (obj s)) (\<lambda>e s. did (A r) M' s \<and> X r e (obj s))"
    and hold: "keeps holds_phase m" and only: "keeps only_status m"
    and A: "\<And>r e. A r e \<Longrightarrow> patches_where (in_phase p) e \<Longrightarrow> in_stage p e"
  shows "triple (\<lambda>s. at_stage (ps @ [p]) r0 M s \<and> o_phase (obj s) = p \<and> C (obj s)) m
     (\<lambda>x s. at_stage (ps @ [p]) r0 M s \<and> in_phase p (obj s) \<and> (\<exists>r. C r \<and> o_phase r = p \<and> Q r x (obj s)))
     (\<lambda>e s. at_stage (ps @ [p]) r0 M s \<and> in_phase p (obj s) \<and> (\<exists>r. C r \<and> o_phase r = p \<and> X r e (obj s)))"
proof (rule tripleI)
  fix s :: "'a st" assume s: "at_stage (ps @ [p]) r0 M s \<and> o_phase (obj s) = p \<and> C (obj s)"
  obtain x t where run: "m s = (x, t)" by force
  note T' = T [OF conjunct2 [OF conjunct2 [OF s]], of "mutations s"]
  have h: "holds_phase s t" and o: "only_status s t" using hold only run by (auto dest: keepsD)
  have stage: "at_stage (ps @ [p]) r0 M t \<and> in_phase p (obj t)" if "did (A (obj s)) (mutations s) t"
  proof
    have "did (patches_where (in_phase p)) (mutations s) t"
      using h s by (intro emits_did) (simp add: holds_phase_def)
    with that have "did (\<lambda>e. A (obj s) e \<and> patches_where (in_phase p) e) (mutations s) t" by (rule did_conj)
    then show "at_stage (ps @ [p]) r0 M t"
      by (rule at_stage_extend [OF conjunct1 [OF s]]) (use A o in \<open>auto simp: only_status_def\<close>)
    show "in_phase p (obj t)" using h s by (simp add: holds_phase_def)
  qed
  show "case m s of
      (Ok x, t) \<Rightarrow> at_stage (ps @ [p]) r0 M t \<and> in_phase p (obj t) \<and> (\<exists>r. C r \<and> o_phase r = p \<and> Q r x (obj t))
    | (Err e, t) \<Rightarrow> at_stage (ps @ [p]) r0 M t \<and> in_phase p (obj t) \<and> (\<exists>r. C r \<and> o_phase r = p \<and> X r e (obj t))
    | (Panic q, t) \<Rightarrow> False"
  proof (cases x)
    case (Ok y)
    from triple_okD [OF T' _ run [unfolded Ok]] s stage run Ok show ?thesis by auto
  next
    case (Err e)
    from triple_errD [OF T' _ run [unfolded Err]] s stage run Err show ?thesis by auto
  next
    case (Panic q)
    from triple_no_panic [OF T', of s q t] run Panic show ?thesis by simp
  qed
qed

section \<open>Steps of a reconcile\<close>

text \<open>What a change of phase keeps: a statement about the spec and the plans' statuses.\<close>

definition stable :: "(ebs_snapshot_restore \<Rightarrow> bool) \<Rightarrow> bool" where
  "stable C \<longleftrightarrow> (\<forall>r r'. esr_spec r' = esr_spec r \<longrightarrow> o_plan r' = o_plan r \<longrightarrow> C r \<longrightarrow> C r')"

definition plans_are ::
  "(restore_plan \<Rightarrow> restore_plan_status \<Rightarrow> bool) \<Rightarrow> ebs_snapshot_restore \<Rightarrow> bool" where
  "plans_are P r \<longleftrightarrow> (\<forall>k plan. gm_get (sp_restorePlans (esr_spec r)) k = Some plan \<longrightarrow>
     (\<exists>ps. o_plan r k = Some ps \<and> P plan ps))"

lemma stable_plans [simp]: "stable (plans_are P)" "stable (\<lambda>_. True)"
  by (simp_all add: stable_def plans_are_def)

lemma triple_phase:
  assumes env: "status_env env" and C: "stable C"
  shows "triple (\<lambda>s. at_stage ps r0 M s \<and> C (obj s)) (set_phase env p)
     (\<lambda>_ s. at_stage (ps @ [p]) r0 M s \<and> o_phase (obj s) = p \<and> C (obj s))
     (\<lambda>_ s. at_stage (ps @ [p]) r0 M s \<and> \<not> patches_succeed env)"
proof (rule phase.rule [OF env])
  fix s t :: "'a st"
  assume s: "at_stage ps r0 M s \<and> C (obj s)" and w: "written (\<lambda>st. st\<lparr>rs_phase := p\<rparr>) s t"
  have p: "o_phase (obj t) = p" using writtenD(1) [OF w] by simp
  have "did (\<lambda>e. e = EPatchStatus (obj t)) (mutations s) t"
    using emits_written [OF w, of "\<lambda>e. e = EPatchStatus (obj t)"] emits_did by blast
  then have stage: "at_stage (ps @ [p]) r0 M t"
    by (rule at_stage_extend [OF at_stage_more [OF conjunct1 [OF s]]])
      (use p w in \<open>auto simp: in_phase_def written_def same_resource_def\<close>)
  moreover have "C (obj t)"
    using C s writtenD(3,4) [OF w] by (simp add: stable_def)
  ultimately show "at_stage (ps @ [p]) r0 M t \<and> o_phase (obj t) = p \<and> C (obj t)" using p by simp
  show "at_stage (ps @ [p]) r0 M t \<and> \<not> patches_succeed env" if "\<not> patches_succeed env" for e :: goerr
    using stage that by simp
qed

text \<open>A contract with the calls that a frame allows.\<close>

lemma triple_emits:
  assumes T: "triple (\<lambda>s. obj s = r) m Q E" and k: "keeps (emits A) m"
  shows "triple (\<lambda>s. obj s = r \<and> mutations s = M) m (\<lambda>x s. did A M s \<and> Q x s) (\<lambda>e s. did A M s \<and> E e s)"
proof (rule tripleI)
  fix s :: "'a st" assume s: "obj s = r \<and> mutations s = M"
  obtain x t where run: "m s = (x, t)" by force
  then have "did A M t" using keepsD [OF k run] emits_did s by blast
  with T s run show "case m s of (Ok x, t) \<Rightarrow> did A M t \<and> Q x t | (Err e, t) \<Rightarrow> did A M t \<and> E e t | (Panic p, t) \<Rightarrow> False"
    unfolding triple_def by (cases x) fastforce+
qed

lemma calm_triple: "calm m \<Longrightarrow> triple P m (\<lambda>_ _. True) (\<lambda>_ _. True)"
  by (auto simp: calm_def triple_def split: prod.splits out.splits)

definition ready :: "ebs_snapshot_restore \<Rightarrow> bool" where
  "ready = plans_are aligned"

text \<open>What a completed restore has recorded of every plan of the spec.\<close>

definition settled :: "ebs_snapshot_restore \<Rightarrow> bool" where
  "settled = plans_are (\<lambda>plan ps. rps_lock ps \<and> rps_countScaleUp ps > 0)"

lemma validated_ready:
  assumes "validated_all r None r'"
  shows "ready r'"
  unfolding ready_def plans_are_def
proof (intro allI impI)
  fix k plan assume "gm_get (sp_restorePlans (esr_spec r')) k = Some plan"
  with assms obtain ps where "o_plan r' k = Some ps" and "plan_checked k plan ps"
    unfolding validated_all_def plan_settled_def by metis
  moreover from \<open>plan_checked k plan ps\<close> have "aligned plan ps"
    by (auto simp: plan_checked_def aligned_def dest: list_all2_lengthD)
  ultimately show "\<exists>ps. o_plan r' k = Some ps \<and> aligned plan ps" by blast
qed

lemma validated_failed: "validated_all r (Some e) r' \<Longrightarrow> o_phase r' = PhaseFailed"
  by (simp add: validated_all_def)

lemma same_but_hooks_spec: "same_but_hooks r r' \<Longrightarrow> esr_spec r' = esr_spec r"
  unfolding same_but_hooks_def using same_resource_def same_resource_iff by blast

lemma same_plan_ready:
  assumes "same_but_hooks r r'" and "plans_are P r"
    and "\<And>plan ps ps'. P plan ps \<Longrightarrow> ps'\<lparr>rps_hooks := []\<rparr> = ps\<lparr>rps_hooks := []\<rparr> \<Longrightarrow> P plan ps'"
  shows "plans_are P r'"
  unfolding plans_are_def
proof (intro allI impI)
  fix k plan assume k: "gm_get (sp_restorePlans (esr_spec r')) k = Some plan"
  have "esr_spec r' = esr_spec r" by (rule same_but_hooks_spec [OF assms(1)])
  with k assms(2) obtain ps where ps: "o_plan r k = Some ps" "P plan ps" by (auto simp: plans_are_def)
  then obtain ps' where ps': "o_plan r' k = Some ps'" using assms(1) by (auto simp: same_but_hooks_def)
  with ps assms(1) have "ps'\<lparr>rps_hooks := []\<rparr> = ps\<lparr>rps_hooks := []\<rparr>"
    by (auto simp: same_but_hooks_def or_zero_def dest: spec [where x = k])
  with assms(3) ps(2) ps' show "\<exists>ps. o_plan r' k = Some ps \<and> P plan ps" by blast
qed

lemma unhooked: "(ps' :: restore_plan_status)\<lparr>rps_hooks := []\<rparr> = ps\<lparr>rps_hooks := []\<rparr> \<Longrightarrow>
    rps_lock ps' = rps_lock ps \<and> rps_countScaleUp ps' = rps_countScaleUp ps
    \<and> rps_clusters ps' = rps_clusters ps \<and> rps_operators ps' = rps_operators ps"
  by (cases ps; cases ps') simp

text \<open>The hypotheses on the outside that a whole reconcile rests on.\<close>

definition good_env :: "'w env \<Rightarrow> bool" where
  "good_env env \<longleftrightarrow> status_env env \<and> poll_ok env \<and> group_ok env \<and> sha_ok env \<and> json_ok env"

lemma stage_validate:
  assumes env: "status_env env"
  shows "triple (\<lambda>s. at_stage (ps @ [PhaseValidating]) r0 M s \<and> o_phase (obj s) = PhaseValidating \<and> True)
     (validate_list_snapshots env)
     (\<lambda>_ s. at_stage (ps @ [PhaseValidating]) r0 M s \<and> ready (obj s))
     (\<lambda>_ s. at_stage (ps @ [PhaseValidating]) r0 M s \<and> (patches_succeed env \<longrightarrow> o_phase (obj s) = PhaseFailed))"
proof (rule triple_post [OF triple_package [where C = "\<lambda>_. True" and A = "\<lambda>_. is_status_patch"
      and Q = "\<lambda>r _ r'. validated_all r None r'"
      and X = "\<lambda>r e r'. patches_succeed env \<longrightarrow> validated_all r (Some e) r'"]])
  show "triple (\<lambda>s. obj s = r \<and> mutations s = M') (validate_list_snapshots env)
      (\<lambda>_ s. did is_status_patch M' s \<and> validated_all r None (obj s))
      (\<lambda>e s. did is_status_patch M' s \<and> (patches_succeed env \<longrightarrow> validated_all r (Some e) (obj s)))" for r M'
    by (rule triple_emits [OF triple_validate_list [OF env] evolves_emits [OF validate_list_snapshots_evolves [OF env]]]) simp
  show "keeps holds_phase (validate_list_snapshots env)" "keeps only_status (validate_list_snapshots env)"
    using holding.validate only.validate env by blast+
  show "is_status_patch e \<Longrightarrow> patches_where (in_phase PhaseValidating) e \<Longrightarrow> in_stage PhaseValidating e" for e
    by (cases e) simp_all
qed (blast intro: validated_ready validated_failed)+

lemma ready_aligned: "ready r \<Longrightarrow> all_aligned d r"
  by (auto simp: ready_def plans_are_def all_aligned_def)

lemma aligned_scaled: "aligned plan ps \<Longrightarrow> aligned plan (scaled_plan d plan ps)"
  by (simp add: aligned_def scaled_plan_def marked_def Let_def)

lemma scale_down_stage: "scale_calls env down_scale r e \<Longrightarrow> patches_where (in_phase PhaseScalingDown) e \<Longrightarrow> in_stage PhaseScalingDown e"
  by (cases e) (auto simp: scale_calls_def scale_call_def down_sts_def down_dep_def up_scale_def down_scale_def)

lemma scale_up_stage: "scale_calls env up_scale r e \<Longrightarrow> patches_where (in_phase PhaseScalingUp) e \<Longrightarrow> in_stage PhaseScalingUp e"
  by (cases e) (auto simp: scale_calls_def scale_call_def up_sts_def up_dep_def recreation_def)

lemma scales_differ: "down_scale \<noteq> up_scale"
  by (simp add: up_scale_def down_scale_def)

lemma stage_scale:
  assumes env: "status_env env" "poll_ok env" and dir: "d = up_scale \<or> d = down_scale"
    and p: "p = (if d = up_scale then PhaseScalingUp else PhaseScalingDown)"
    and C: "\<And>r. C r \<Longrightarrow> plans_are P r" and P: "\<And>plan ps. P plan ps \<Longrightarrow> aligned plan ps"
    and Q: "\<And>plan ps. P plan ps \<Longrightarrow> Q plan (scaled_plan d plan ps)"
  shows "triple (\<lambda>s. at_stage (ps @ [p]) r0 M s \<and> o_phase (obj s) = p \<and> C (obj s)) (scale_restore_plan env d)
     (\<lambda>_ s. at_stage (ps @ [p]) r0 M s \<and> plans_are Q (obj s))
     (\<lambda>_ s. at_stage (ps @ [p]) r0 M s \<and> (patches_succeed env \<longrightarrow> o_phase (obj s) = PhaseFailed))"
proof (rule triple_post [OF triple_package [where C = C and A = "\<lambda>r. scale_calls env d r"
      and Q = "\<lambda>r _ r'. plans_are Q r'" and X = "\<lambda>r _ r'. patches_succeed env \<longrightarrow> o_phase r' = PhaseFailed"]])
  fix r M' assume "C r"
  then have r: "plans_are P r" by (rule C)
  with P have al: "all_aligned d r" by (force simp: plans_are_def all_aligned_def)
  have good: "plans_are Q r'" if sp: "esr_spec r' = esr_spec r" and plans: "\<forall>k. o_plan r' k =
      (case gm_get (sp_restorePlans (esr_spec r)) k of None \<Rightarrow> o_plan r k
         | Some plan \<Rightarrow> Some (scaled_plan d plan (or_zero (o_plan r k))))" for r'
    unfolding plans_are_def
  proof (intro allI impI)
    fix k plan assume k: "gm_get (sp_restorePlans (esr_spec r')) k = Some plan"
    with sp r obtain ps where "o_plan r k = Some ps" "P plan ps" by (auto simp: plans_are_def)
    with plans k sp Q show "\<exists>ps. o_plan r' k = Some ps \<and> Q plan ps"
      by (auto simp: or_zero_def dest: spec [where x = k])
  qed
  show "triple (\<lambda>s. obj s = r \<and> mutations s = M') (scale_restore_plan env d)
      (\<lambda>_ s. did (scale_calls env d r) M' s \<and> plans_are Q (obj s))
      (\<lambda>_ s. did (scale_calls env d r) M' s \<and> (patches_succeed env \<longrightarrow> o_phase (obj s) = PhaseFailed))"
    by (rule triple_post [OF triple_scale_restore_plan [OF env dir al]]) (use good in \<open>auto simp: gave_up_def\<close>)
next
  show "keeps holds_phase (scale_restore_plan env d)" "keeps only_status (scale_restore_plan env d)"
    using holding.scale only.scale env by blast+
  show "scale_calls env d r e \<Longrightarrow> patches_where (in_phase p) e \<Longrightarrow> in_stage p e" for r e
    using dir p scale_up_stage scale_down_stage scales_differ by (cases "d = up_scale") auto
qed blast+

lemma restore_stage_calls: "restore_stage env ns ref k calls \<Longrightarrow> e \<in> set calls \<Longrightarrow> in_stage PhaseRestoring e"
  by (induction rule: restore_stage.induct) (auto simp: delete_calls_def split: option.splits)

lemma restore_calls_stage:
  assumes "restore_call env elig e" and "patches_where (in_phase PhaseRestoring) e"
  shows "in_stage PhaseRestoring e"
  using assms restore_stage_calls by (cases e) (fastforce simp: restore_call_def)+

lemma stage_restore:
  assumes env: "status_env env" "poll_ok env"
  shows "triple (\<lambda>s. at_stage (ps @ [PhaseRestoring]) r0 M s \<and> o_phase (obj s) = PhaseRestoring \<and> ready (obj s))
     (restore_from_plan env)
     (\<lambda>_ s. at_stage (ps @ [PhaseRestoring]) r0 M s \<and> plans_are (\<lambda>plan ps. aligned plan ps \<and> rps_lock ps) (obj s))
     (\<lambda>_ s. at_stage (ps @ [PhaseRestoring]) r0 M s \<and> (patches_succeed env \<longrightarrow> o_phase (obj s) = PhaseFailed))"
proof (rule triple_post [OF triple_package [where C = ready and A = "\<lambda>r. restore_call env (eligible r)"
      and Q = "\<lambda>r _ r'. plans_are (\<lambda>plan ps. aligned plan ps \<and> rps_lock ps) r'"
      and X = "\<lambda>r _ r'. patches_succeed env \<longrightarrow> o_phase r' = PhaseFailed"]])
  fix r M' assume r: "ready r"
  have good: "plans_are (\<lambda>plan ps. aligned plan ps \<and> rps_lock ps) r'"
    if sp: "esr_spec r' = esr_spec r" and plans: "\<forall>k. o_plan r' k = map_option (plan_after r k) (o_plan r k)" for r'
    unfolding plans_are_def
  proof (intro allI impI)
    fix k plan assume "gm_get (sp_restorePlans (esr_spec r')) k = Some plan"
    with sp r obtain ps where "o_plan r k = Some ps" "aligned plan ps" by (auto simp: plans_are_def ready_def)
    with plans show "\<exists>ps. o_plan r' k = Some ps \<and> aligned plan ps \<and> rps_lock ps"
      by (simp add: plan_after_def aligned_def)
  qed
  show "triple (\<lambda>s. obj s = r \<and> mutations s = M') (restore_from_plan env)
      (\<lambda>_ s. did (restore_call env (eligible r)) M' s \<and> plans_are (\<lambda>plan ps. aligned plan ps \<and> rps_lock ps) (obj s))
      (\<lambda>_ s. did (restore_call env (eligible r)) M' s \<and> (patches_succeed env \<longrightarrow> o_phase (obj s) = PhaseFailed))"
    by (rule triple_post [OF triple_restore_from_plan [OF env]])
      (use good in \<open>auto simp: gave_up_def restore_inv_def\<close>)
next
  show "keeps holds_phase (restore_from_plan env)" "keeps only_status (restore_from_plan env)"
    using holding.restore only.restore env by blast+
  show "restore_call env (eligible r) e \<Longrightarrow> patches_where (in_phase PhaseRestoring) e \<Longrightarrow> in_stage PhaseRestoring e" for r e
    by (rule restore_calls_stage)
qed blast+

lemma hook_call_stage: "hook_call e \<Longrightarrow> p = PhaseRunningPreHooks \<or> p = PhaseRunningPostHooks \<Longrightarrow>
    patches_where (in_phase p) e \<Longrightarrow> in_stage p e"
  by (cases e) auto

text \<open>A statement about plans that does not speak of hook statuses.\<close>

definition hookless :: "(restore_plan \<Rightarrow> restore_plan_status \<Rightarrow> bool) \<Rightarrow> bool" where
  "hookless P \<longleftrightarrow> (\<forall>plan ps ps'. P plan ps \<longrightarrow> ps'\<lparr>rps_hooks := []\<rparr> = ps\<lparr>rps_hooks := []\<rparr> \<longrightarrow> P plan ps')"

lemma hookless_aligned: "hookless aligned"
  unfolding hookless_def aligned_def by (metis unhooked)

lemma hookless_settled: "hookless (\<lambda>plan ps. rps_lock ps \<and> rps_countScaleUp ps > 0)"
  unfolding hookless_def by (metis unhooked)

lemma same_plan_hookless: "same_but_hooks r r' \<Longrightarrow> plans_are P r \<Longrightarrow> hookless P \<Longrightarrow> plans_are P r'"
  by (rule same_plan_ready) (auto simp: hookless_def)

lemma stage_hooks:
  assumes env: "good_env env" and p: "p = PhaseRunningPreHooks \<or> p = PhaseRunningPostHooks" and P: "hookless P"
  shows "triple (\<lambda>s. at_stage (ps @ [p]) r0 M s \<and> o_phase (obj s) = p \<and> plans_are P (obj s)) (run_hooks env hs)
     (\<lambda>_ s. at_stage (ps @ [p]) r0 M s \<and> plans_are P (obj s))
     (\<lambda>_ s. at_stage (ps @ [p]) r0 M s \<and> in_phase p (obj s))"
proof (rule triple_post [OF triple_package [where C = "plans_are P" and A = "\<lambda>_. hook_call"
      and Q = "\<lambda>r _ r'. same_but_hooks r r'" and X = "\<lambda>r _ r'. True"]])
  have env': "status_env env" "poll_ok env" "group_ok env" "sha_ok env" "json_ok env"
    using env by (simp_all add: good_env_def)
  have k: "keeps hooking (run_hooks env hs)" by (rule hooking_run_hooks [OF env'(1-3)])
  show "triple (\<lambda>s. obj s = r \<and> mutations s = M') (run_hooks env hs)
      (\<lambda>_ s. did hook_call M' s \<and> same_but_hooks r (obj s)) (\<lambda>_ s. did hook_call M' s \<and> True)" for r M'
  proof (rule tripleI)
    fix s :: "'a st" assume s: "obj s = r \<and> mutations s = M'"
    obtain x t where run: "run_hooks env hs s = (x, t)" by force
    have "same_but_hooks r (obj t)" "did hook_call M' t"
      using hookingD [OF keepsD [OF k run]] s emits_did by auto
    moreover have "\<forall>m. x \<noteq> Panic m" using calm_run_hooks [OF env'] run by (auto simp: calm_def)
    ultimately show "case run_hooks env hs s of (Ok x, t) \<Rightarrow> did hook_call M' t \<and> same_but_hooks r (obj t)
        | (Err e, t) \<Rightarrow> did hook_call M' t \<and> True | (Panic m, t) \<Rightarrow> False"
      using run by (cases x) auto
  qed
  show "keeps holds_phase (run_hooks env hs)" "keeps only_status (run_hooks env hs)"
    using holding.hooks only.hooks env' by blast+
  show "hook_call e \<Longrightarrow> patches_where (in_phase p) e \<Longrightarrow> in_stage p e" for e
    using p by (rule hook_call_stage [rotated])
qed (use same_plan_ready P in \<open>auto simp: hookless_def\<close>)

section \<open>The whole reconcile\<close>

definition lifecycle :: "restore_phase list" where
  "lifecycle = [PhaseIdle, PhaseValidating, PhaseRunningPreHooks, PhaseScalingDown, PhaseRestoring,
     PhaseScalingUp, PhaseRunningPostHooks, PhaseCompleted]"

definition finished :: "ebs_snapshot_restore \<Rightarrow> event list \<Rightarrow> int \<Rightarrow> 'w st \<Rightarrow> bool" where
  "finished r0 M n s \<longleftrightarrow> n = frequency \<and> at_stage lifecycle r0 M s
     \<and> (o_phase (obj s) = PhaseCompleted \<longrightarrow> settled (obj s))"

definition stopped :: "'w env \<Rightarrow> ebs_snapshot_restore \<Rightarrow> event list \<Rightarrow> 'w st \<Rightarrow> bool" where
  "stopped env r0 M s \<longleftrightarrow> at_stage lifecycle r0 M s
     \<and> (patches_succeed env \<longrightarrow> (\<exists>g. k_gvk_cr env = Inr g) \<longrightarrow> o_phase (obj s) = PhaseFailed)"

lemma at_stage_lifecycle: "at_stage ps r0 M s \<Longrightarrow> lifecycle = ps @ qs \<Longrightarrow> at_stage lifecycle r0 M s"
  using at_stage_more by metis

lemma triple_setup:
  assumes "sha_ok env" and "\<And>s. P s \<Longrightarrow> no_nil_hooks (obj s)"
  shows "triple P (setup_restore_hooks env event) (\<lambda>_. P) (\<lambda>_ s. P s \<and> (\<nexists>g. k_gvk_cr env = Inr g))"
proof (rule tripleI)
  fix s assume "P s"
  with assms show "case setup_restore_hooks env event s of (Ok x, t) \<Rightarrow> P t
     | (Err e, t) \<Rightarrow> P t \<and> (\<nexists>g. k_gvk_cr env = Inr g) | (Panic p, t) \<Rightarrow> False"
    by (cases rule: setup_restore_hooks_cases [OF assms(1) assms(2) [OF \<open>P s\<close>], of event]) auto
qed

lemma no_nil_same: "same_resource r r' \<Longrightarrow> no_nil_hooks r \<Longrightarrow> no_nil_hooks r'"
  by (simp add: no_nil_hooks_def same_resource_iff)

lemma triple_with_hooks:
  assumes env: "good_env env" and nil: "no_nil_hooks r0"
    and p: "p = PhaseRunningPreHooks \<or> p = PhaseRunningPostHooks" and P: "hookless P"
    and lc: "lifecycle = (ps @ [p]) @ qs"
    and rest: "triple (\<lambda>s. at_stage (ps @ [p]) r0 M s \<and> plans_are P (obj s)) rest (finished r0 M) (\<lambda>_. stopped env r0 M)"
  shows "triple (\<lambda>s. at_stage ps r0 M s \<and> plans_are P (obj s)) (with_hooks env event p rest)
     (finished r0 M) (\<lambda>_. stopped env r0 M)"
  unfolding with_hooks_def
proof (rule triple_seq [OF triple_setup])
  show "sha_ok env" using env by (simp add: good_env_def)
  show "no_nil_hooks (obj s)" if "at_stage ps r0 M s \<and> plans_are P (obj s)" for s :: "'a st"
    using that nil no_nil_same by (auto simp: at_stage_def)
  show "stopped env r0 M s" if "(at_stage ps r0 M s \<and> plans_are P (obj s)) \<and> (\<nexists>g. k_gvk_cr env = Inr g)" for s :: "'a st"
    using that lc at_stage_lifecycle [of ps r0 M s "[p] @ qs"] by (simp add: stopped_def)
  fix hooksList
  show "triple (\<lambda>s. at_stage ps r0 M s \<and> plans_are P (obj s))
     (if hooksList = [] then rest
      else gbind (set_phase env p) (\<lambda>_. gbind (attempt (run_hooks env hooksList)) (\<lambda>res.
         case res of Inl err \<Rightarrow> gret frequency | Inr _ \<Rightarrow> rest))) (finished r0 M) (\<lambda>_. stopped env r0 M)"
  proof (rule triple_if)
    show "triple (\<lambda>s. at_stage ps r0 M s \<and> plans_are P (obj s)) rest (finished r0 M) (\<lambda>_. stopped env r0 M)"
      by (rule triple_pre [OF rest]) (simp add: at_stage_more)
  next
    have status: "status_env env" using env by (simp add: good_env_def)
    show "triple (\<lambda>s. at_stage ps r0 M s \<and> plans_are P (obj s))
       (gbind (set_phase env p) (\<lambda>_. gbind (attempt (run_hooks env hooksList)) (\<lambda>res.
         case res of Inl err \<Rightarrow> gret frequency | Inr _ \<Rightarrow> rest))) (finished r0 M) (\<lambda>_. stopped env r0 M)"
    proof (rule triple_seq [OF triple_phase [OF status]], simp)
      show "stopped env r0 M s" if "at_stage (ps @ [p]) r0 M s \<and> \<not> patches_succeed env" for s :: "'a st"
        using that at_stage_lifecycle [OF _ lc] by (auto simp: stopped_def)
      show "triple (\<lambda>s. at_stage (ps @ [p]) r0 M s \<and> o_phase (obj s) = p \<and> plans_are P (obj s))
         (gbind (attempt (run_hooks env hooksList)) (\<lambda>res. case res of Inl err \<Rightarrow> gret frequency | Inr _ \<Rightarrow> rest))
         (finished r0 M) (\<lambda>_. stopped env r0 M)"
      proof (rule triple_gbind [OF triple_attempt [where Q = "\<lambda>res s. at_stage (ps @ [p]) r0 M s \<and>
              (case res of Inl e \<Rightarrow> in_phase p (obj s) | Inr _ \<Rightarrow> plans_are P (obj s))"]])
        show "triple (\<lambda>s. at_stage (ps @ [p]) r0 M s \<and> o_phase (obj s) = p \<and> plans_are P (obj s)) (run_hooks env hooksList)
          (\<lambda>x s. at_stage (ps @ [p]) r0 M s \<and> (case Inr x of Inl e \<Rightarrow> in_phase p (obj s) | Inr _ \<Rightarrow> plans_are P (obj s)))
          (\<lambda>e s. at_stage (ps @ [p]) r0 M s \<and> (case Inl e of Inl e \<Rightarrow> in_phase p (obj s) | Inr _ \<Rightarrow> plans_are P (obj s)))"
          using stage_hooks [OF env p P] by simp
        fix res :: "goerr + unit"
        show "triple (\<lambda>s. at_stage (ps @ [p]) r0 M s \<and>
              (case res of Inl e \<Rightarrow> in_phase p (obj s) | Inr _ \<Rightarrow> plans_are P (obj s)))
           (case res of Inl err \<Rightarrow> gret frequency | Inr _ \<Rightarrow> rest) (finished r0 M) (\<lambda>_. stopped env r0 M)"
          using rest p at_stage_lifecycle [OF _ lc]
          by (cases res) (auto intro!: triple_gret simp: finished_def in_phase_def)
      qed
    qed
  qed
qed

lemma stoppedI:
  "at_stage ps r0 M s \<Longrightarrow> (patches_succeed env \<Longrightarrow> o_phase (obj s) = PhaseFailed) \<Longrightarrow> lifecycle = ps @ qs \<Longrightarrow>
    stopped env r0 M s"
  using at_stage_lifecycle by (simp add: stopped_def)

lemma triple_phase_then:
  assumes env: "status_env env" and lc: "lifecycle = (ps @ [p]) @ qs" and C: "stable C"
    and rest: "triple (\<lambda>s. at_stage (ps @ [p]) r0 M s \<and> o_phase (obj s) = p \<and> C (obj s)) rest
      (finished r0 M) (\<lambda>_. stopped env r0 M)"
  shows "triple (\<lambda>s. at_stage ps r0 M s \<and> C (obj s)) (gbind (set_phase env p) (\<lambda>_. rest))
     (finished r0 M) (\<lambda>_. stopped env r0 M)"
  by (rule triple_seq [OF triple_phase [OF env C] _ rest]) (use stoppedI [OF _ _ lc] in blast)

text \<open>A package call inside its phase, and what follows.\<close>

lemma triple_stage_then:
  assumes "triple P m (\<lambda>_ s. at_stage (ps @ [p]) r0 M s \<and> D (obj s))
      (\<lambda>_ s. at_stage (ps @ [p]) r0 M s \<and> (patches_succeed env \<longrightarrow> o_phase (obj s) = PhaseFailed))"
    and lc: "lifecycle = (ps @ [p]) @ qs"
    and "triple (\<lambda>s. at_stage (ps @ [p]) r0 M s \<and> D (obj s)) rest (finished r0 M) (\<lambda>_. stopped env r0 M)"
  shows "triple P (gbind m (\<lambda>_. rest)) (finished r0 M) (\<lambda>_. stopped env r0 M)"
  by (rule triple_seq [OF assms(1) _ assms(3)]) (use stoppedI [OF _ _ lc] in blast)

lemma triple_from_scale_up:
  assumes env: "good_env env" and nil: "no_nil_hooks r0"
  shows "triple (\<lambda>s. at_stage (take 5 lifecycle) r0 M s \<and> plans_are (\<lambda>plan ps. aligned plan ps \<and> rps_lock ps) (obj s))
     (gbind (set_phase env PhaseScalingUp) (\<lambda>_. gbind (scale_restore_plan env up_scale) (\<lambda>_.
        with_hooks env PostRestore PhaseRunningPostHooks (gbind (set_phase env PhaseCompleted) (\<lambda>_. gret frequency)))))
     (finished r0 M) (\<lambda>_. stopped env r0 M)"
proof -
  have env': "status_env env" "poll_ok env" using env by (simp_all add: good_env_def)
  let ?done = "\<lambda>plan ps. rps_lock ps \<and> rps_countScaleUp ps > 0"
  have completed: "triple (\<lambda>s. at_stage (butlast lifecycle) r0 M s \<and> plans_are ?done (obj s))
      (gbind (set_phase env PhaseCompleted) (\<lambda>_. gret frequency)) (finished r0 M) (\<lambda>_. stopped env r0 M)"
    by (rule triple_phase_then [OF env'(1), where qs = "[]"])
      (auto intro!: triple_gret simp: finished_def settled_def lifecycle_def)
  have post: "triple (\<lambda>s. at_stage (take 5 lifecycle @ [PhaseScalingUp]) r0 M s \<and> plans_are ?done (obj s))
      (with_hooks env PostRestore PhaseRunningPostHooks (gbind (set_phase env PhaseCompleted) (\<lambda>_. gret frequency)))
      (finished r0 M) (\<lambda>_. stopped env r0 M)"
    by (rule triple_with_hooks [OF env nil _ hookless_settled, where qs = "[PhaseCompleted]"])
      (use completed in \<open>simp_all add: lifecycle_def\<close>)
  show ?thesis
  proof (rule triple_phase_then [OF env'(1), where qs = "[PhaseRunningPostHooks, PhaseCompleted]"],
      simp add: lifecycle_def, simp, rule triple_stage_then [OF stage_scale [OF env'] _ post])
    show "rps_lock (scaled_plan up_scale plan ps) \<and> rps_countScaleUp (scaled_plan up_scale plan ps) > 0"
      if "aligned plan ps \<and> rps_lock ps" for plan ps
      using that scales_differ [symmetric] by (simp add: scaled_plan_def scale_skips_def Let_def)
  qed (simp_all add: lifecycle_def)
qed

lemma triple_from_scale_down:
  assumes env: "good_env env" and nil: "no_nil_hooks r0"
  shows "triple (\<lambda>s. at_stage (take 3 lifecycle) r0 M s \<and> plans_are aligned (obj s))
     (gbind (set_phase env PhaseScalingDown) (\<lambda>_. gbind (scale_restore_plan env down_scale) (\<lambda>_.
      gbind (set_phase env PhaseRestoring) (\<lambda>_. gbind (restore_from_plan env) (\<lambda>_.
      gbind (set_phase env PhaseScalingUp) (\<lambda>_. gbind (scale_restore_plan env up_scale) (\<lambda>_.
        with_hooks env PostRestore PhaseRunningPostHooks (gbind (set_phase env PhaseCompleted) (\<lambda>_. gret frequency)))))))))
     (finished r0 M) (\<lambda>_. stopped env r0 M)" (is "triple ?P (gbind _ (\<lambda>_. gbind _ (\<lambda>_. ?restore))) _ _")
proof -
  have env': "status_env env" "poll_ok env" using env by (simp_all add: good_env_def)
  let ?qs = "[PhaseScalingUp, PhaseRunningPostHooks, PhaseCompleted]"
  have restore: "triple (\<lambda>s. at_stage (take 4 lifecycle) r0 M s \<and> ready (obj s)) ?restore
      (finished r0 M) (\<lambda>_. stopped env r0 M)"
  proof (rule triple_phase_then [OF env'(1), where qs = ?qs], simp add: lifecycle_def, simp add: ready_def,
      rule triple_stage_then [OF stage_restore [OF env'], where qs = ?qs])
    show "triple (\<lambda>s. at_stage (take 4 lifecycle @ [PhaseRestoring]) r0 M s \<and> plans_are (\<lambda>plan ps. aligned plan ps \<and> rps_lock ps) (obj s))
       (gbind (set_phase env PhaseScalingUp) (\<lambda>_. gbind (scale_restore_plan env up_scale) (\<lambda>_.
        with_hooks env PostRestore PhaseRunningPostHooks (gbind (set_phase env PhaseCompleted) (\<lambda>_. gret frequency)))))
       (finished r0 M) (\<lambda>_. stopped env r0 M)"
      using triple_from_scale_up [OF env nil] by (simp add: lifecycle_def)
  qed (simp add: lifecycle_def)
  show ?thesis
  proof (rule triple_phase_then [OF env'(1), where qs = "PhaseRestoring # ?qs"], simp add: lifecycle_def, simp,
      rule triple_stage_then [OF stage_scale [OF env', where P = aligned and Q = aligned], where qs = "PhaseRestoring # ?qs"])
    show "triple (\<lambda>s. at_stage (take 3 lifecycle @ [PhaseScalingDown]) r0 M s \<and> plans_are aligned (obj s)) ?restore
       (finished r0 M) (\<lambda>_. stopped env r0 M)"
      using restore by (simp add: lifecycle_def ready_def)
  qed (use aligned_scaled scales_differ in \<open>simp_all add: lifecycle_def\<close>)
qed

lemma triple_init:
  assumes env: "status_env env"
  shows "triple (\<lambda>s. obj s = r0 \<and> mutations s = M) (set_init_status_restore_plan env)
     (\<lambda>_ s. at_stage [PhaseIdle] r0 M s \<and> True) (\<lambda>_ s. at_stage [PhaseIdle] r0 M s \<and> \<not> patches_succeed env)"
proof (rule init.rule [OF env])
  fix s t :: "'a st"
  assume s: "obj s = r0 \<and> mutations s = M" and w: "written (\<lambda>st. st\<lparr>rs_phase := PhaseIdle\<rparr>) s t"
  have p: "o_phase (obj t) = PhaseIdle" using writtenD(1) [OF w] by simp
  have "at_stage ([] @ [PhaseIdle]) r0 M s" using s by (simp add: at_stage_start)
  moreover have "did (\<lambda>e. e = EPatchStatus (obj t)) (mutations s) t"
    using emits_written [OF w, of "\<lambda>e. e = EPatchStatus (obj t)"] emits_did by blast
  ultimately have "at_stage ([] @ [PhaseIdle]) r0 M t"
    by (rule at_stage_extend) (use p w in \<open>auto simp: in_phase_def written_def same_resource_def\<close>)
  then show "at_stage [PhaseIdle] r0 M t \<and> True"
    and "\<not> patches_succeed env \<Longrightarrow> at_stage [PhaseIdle] r0 M t \<and> \<not> patches_succeed env" by simp_all
qed

lemma triple_reconcile_resource:
  assumes env: "good_env env" and nil: "no_nil_hooks r0"
  shows "triple (\<lambda>s. obj s = r0 \<and> mutations s = M) (reconcile_resource env) (finished r0 M) (\<lambda>_. stopped env r0 M)"
  unfolding reconcile_resource_def
proof (rule triple_seq [OF triple_init])
  let ?qs = "drop 2 lifecycle"
  show status: "status_env env" using env by (simp add: good_env_def)
  show "stopped env r0 M s" if "at_stage [PhaseIdle] r0 M s \<and> \<not> patches_succeed env" for s :: "'a st"
    using that by (intro stoppedI [where qs = "drop 1 lifecycle"]) (simp_all add: lifecycle_def)
  have hooks: "triple (\<lambda>s. at_stage (take 2 lifecycle) r0 M s \<and> plans_are aligned (obj s))
     (with_hooks env PreRestore PhaseRunningPreHooks (
      gbind (set_phase env PhaseScalingDown) (\<lambda>_. gbind (scale_restore_plan env down_scale) (\<lambda>_.
      gbind (set_phase env PhaseRestoring) (\<lambda>_. gbind (restore_from_plan env) (\<lambda>_.
      gbind (set_phase env PhaseScalingUp) (\<lambda>_. gbind (scale_restore_plan env up_scale) (\<lambda>_.
        with_hooks env PostRestore PhaseRunningPostHooks (gbind (set_phase env PhaseCompleted) (\<lambda>_. gret frequency))))))))))
     (finished r0 M) (\<lambda>_. stopped env r0 M)"
    by (rule triple_with_hooks [OF env nil _ hookless_aligned, where qs = "drop 3 lifecycle"])
      (use triple_from_scale_down [OF env nil] in \<open>simp_all add: lifecycle_def\<close>)
  show "triple (\<lambda>s. at_stage [PhaseIdle] r0 M s \<and> True)
     (gbind (set_phase env PhaseValidating) (\<lambda>_. gbind (validate_list_snapshots env) (\<lambda>_.
      with_hooks env PreRestore PhaseRunningPreHooks (
      gbind (set_phase env PhaseScalingDown) (\<lambda>_. gbind (scale_restore_plan env down_scale) (\<lambda>_.
      gbind (set_phase env PhaseRestoring) (\<lambda>_. gbind (restore_from_plan env) (\<lambda>_.
      gbind (set_phase env PhaseScalingUp) (\<lambda>_. gbind (scale_restore_plan env up_scale) (\<lambda>_.
        with_hooks env PostRestore PhaseRunningPostHooks (gbind (set_phase env PhaseCompleted) (\<lambda>_. gret frequency))))))))))))
     (finished r0 M) (\<lambda>_. stopped env r0 M)"
  proof (rule triple_phase_then [OF status, where qs = ?qs], simp add: lifecycle_def, simp,
      rule triple_stage_then [OF stage_validate [OF status], where qs = ?qs])
    show "triple (\<lambda>s. at_stage ([PhaseIdle] @ [PhaseValidating]) r0 M s \<and> ready (obj s))
     (with_hooks env PreRestore PhaseRunningPreHooks (
      gbind (set_phase env PhaseScalingDown) (\<lambda>_. gbind (scale_restore_plan env down_scale) (\<lambda>_.
      gbind (set_phase env PhaseRestoring) (\<lambda>_. gbind (restore_from_plan env) (\<lambda>_.
      gbind (set_phase env PhaseScalingUp) (\<lambda>_. gbind (scale_restore_plan env up_scale) (\<lambda>_.
        with_hooks env PostRestore PhaseRunningPostHooks (gbind (set_phase env PhaseCompleted) (\<lambda>_. gret frequency))))))))))
     (finished r0 M) (\<lambda>_. stopped env r0 M)"
      using hooks by (simp add: lifecycle_def ready_def)
  qed (simp add: lifecycle_def)
qed

section \<open>A completed restore is not repeated\<close>

text \<open>
  Every plan of the spec is locked and scaled up, and a status whose plan has left the spec
  has no clusters.
\<close>

definition all_settled :: "ebs_snapshot_restore \<Rightarrow> bool" where
  "all_settled r \<longleftrightarrow> settled r \<and> (\<forall>k ps. o_plan r k = Some ps \<longrightarrow> in_spec r k \<or> rps_clusters ps = [])"

text \<open>A step that keeps \<open>C\<close> and makes no other calls than those of hooks and of the status.\<close>

definition harmless :: "(ebs_snapshot_restore \<Rightarrow> bool) \<Rightarrow> ('w st, 'a) go \<Rightarrow> bool" where
  "harmless C m \<longleftrightarrow> (\<forall>M. triple (\<lambda>s. C (obj s) \<and> did hook_call M s) m
     (\<lambda>_ s. C (obj s) \<and> did hook_call M s) (\<lambda>_ s. did hook_call M s))"

lemma harmless_gbind: "harmless C m \<Longrightarrow> (\<And>x. harmless C (f x)) \<Longrightarrow> harmless C (gbind m f)"
  unfolding harmless_def by (blast intro: triple_gbind)

lemma harmless_gret: "harmless C (gret x)"
  by (simp add: harmless_def triple_gret)

lemma harmlessI:
  assumes "\<And>r M'. C r \<Longrightarrow> triple (\<lambda>s. obj s = r \<and> mutations s = M') m
      (\<lambda>_ s. did hook_call M' s \<and> C (obj s)) (\<lambda>_ s. did hook_call M' s)"
  shows "harmless C m"
  unfolding harmless_def
proof (intro allI tripleI)
  fix M and s :: "'a st" assume s: "C (obj s) \<and> did hook_call M s"
  note T = assms [OF conjunct1 [OF s], of "mutations s"]
  have *: "did hook_call M t" if "did hook_call (mutations s) t" for t using s that did_trans by blast
  obtain x t where run: "m s = (x, t)" by force
  show "case m s of (Ok x, t) \<Rightarrow> C (obj t) \<and> did hook_call M t | (Err e, t) \<Rightarrow> did hook_call M t | (Panic p, t) \<Rightarrow> False"
    using run * triple_okD [OF T, of s] triple_errD [OF T, of s] triple_no_panic [OF T, of s] by (cases x) auto
qed

lemma harmless_attempt:
  assumes "harmless C m" and "\<And>s r t. m s = (r, t) \<Longrightarrow> C (obj s) \<Longrightarrow> C (obj t)"
  shows "harmless C (attempt m)"
  unfolding harmless_def
proof (intro allI tripleI)
  fix M and s :: "'a st" assume s: "C (obj s) \<and> did hook_call M s"
  obtain x t where run: "m s = (x, t)" by force
  have "case m s of (Ok x, t) \<Rightarrow> C (obj t) \<and> did hook_call M t | (Err e, t) \<Rightarrow> did hook_call M t | (Panic p, t) \<Rightarrow> False"
    by (rule assms(1) [unfolded harmless_def triple_def, rule_format, OF s])
  with assms(2) [OF run] s run
  show "case attempt m s of (Ok x, t) \<Rightarrow> C (obj t) \<and> did hook_call M t | (Err e, t) \<Rightarrow> did hook_call M t | (Panic p, t) \<Rightarrow> False"
    by (cases x) (simp_all add: attempt_apply)
qed

lemma did_status_hook: "did is_status_patch M s \<Longrightarrow> did hook_call M s"
  by (erule did_mono) (metis hook_call.simps(1) is_status_patch.elims(2))

lemma all_settled_cong:
  "all_settled r \<Longrightarrow> esr_spec r' = esr_spec r \<Longrightarrow> o_plan r' = o_plan r \<Longrightarrow> all_settled r'"
  by (simp add: all_settled_def settled_def plans_are_def in_spec_def)

lemma settled_validated:
  assumes "validated_all r None r'" and "all_settled r"
  shows "all_settled r'"
  unfolding all_settled_def settled_def plans_are_def
proof (intro conjI allI impI)
  fix k plan assume "gm_get (sp_restorePlans (esr_spec r')) k = Some plan"
  with assms(1) have plan: "gm_get (sp_restorePlans (esr_spec r)) k = Some plan" by (simp add: validated_all_def)
  with assms(1) obtain ps K where ps: "o_plan r' k = Some ps" "plan_settled r K None k plan ps"
    unfolding validated_all_def by blast
  from plan assms(2) obtain qs where "o_plan r k = Some qs" "rps_lock qs" "rps_countScaleUp qs > 0"
    by (auto simp: all_settled_def settled_def plans_are_def)
  with ps show "\<exists>ps. o_plan r' k = Some ps \<and> rps_lock ps \<and> rps_countScaleUp ps > 0"
    by (auto simp: plan_settled_def was_locked_def or_zero_def)
next
  fix k ps assume k: "o_plan r' k = Some ps"
  show "in_spec r' k \<or> rps_clusters ps = []"
  proof (cases "gm_get (sp_restorePlans (esr_spec r)) k")
    case None
    with assms(1) k have "o_plan r k = Some ps" by (simp add: validated_all_def)
    with assms(2) None have "rps_clusters ps = []" unfolding all_settled_def in_spec_def by blast
    then show ?thesis ..
  qed (use assms(1) in \<open>simp add: validated_all_def in_spec_def\<close>)
qed

lemma settled_hooked:
  assumes "same_but_hooks r r'" and "all_settled r"
  shows "all_settled r'"
  unfolding all_settled_def
proof (intro conjI allI impI)
  have spec_eq: "esr_spec r' = esr_spec r" by (rule same_but_hooks_spec [OF assms(1)])
  show "settled r'"
    using same_plan_hookless [OF assms(1) _ hookless_settled] assms(2) by (simp add: all_settled_def settled_def)
  fix k ps assume k: "o_plan r' k = Some ps"
  have "(or_zero (o_plan r' k))\<lparr>rps_hooks := []\<rparr> = (or_zero (o_plan r k))\<lparr>rps_hooks := []\<rparr>"
    using assms(1) by (simp add: same_but_hooks_def)
  then have "rps_clusters ps = rps_clusters (or_zero (o_plan r k))" using k unhooked [of ps] by (simp add: or_zero_def)
  with assms(2) spec_eq show "in_spec r' k \<or> rps_clusters ps = []"
    by (cases "o_plan r k") (auto simp: all_settled_def in_spec_def or_zero_def zero_plan_status_def)
qed

lemma settled_no_claims: "all_settled r \<Longrightarrow> eligible r = {}"
  unfolding all_settled_def settled_def plans_are_def eligible_def in_spec_def plan_claims_def
  by fastforce

lemma locked_and_up_skips:
  "rps_lock ps \<Longrightarrow> rps_countScaleUp ps > 0 \<Longrightarrow> d = up_scale \<or> d = down_scale \<Longrightarrow> scale_skips d (Some ps)"
  by (elim disjE) (simp_all add: scale_skips_def)

lemma settled_skips:
  assumes "all_settled r" and "gm_get (sp_restorePlans (esr_spec r)) k = Some plan" and "d = up_scale \<or> d = down_scale"
  shows "\<exists>ps. o_plan r k = Some ps \<and> scale_skips d (Some ps)"
proof -
  from assms(1,2) obtain ps where "o_plan r k = Some ps" "rps_lock ps" "rps_countScaleUp ps > 0"
    unfolding all_settled_def settled_def plans_are_def by blast
  with locked_and_up_skips [OF _ _ assms(3)] show ?thesis by blast
qed

lemma settled_scaled:
  assumes "all_settled r" and "d = up_scale \<or> d = down_scale" and "esr_spec r' = esr_spec r"
    and "\<forall>k. o_plan r' k = (case gm_get (sp_restorePlans (esr_spec r)) k of None \<Rightarrow> o_plan r k
         | Some plan \<Rightarrow> Some (scaled_plan d plan (or_zero (o_plan r k))))"
  shows "all_settled r'"
proof (rule all_settled_cong [OF assms(1,3)])
  have "o_plan r' k = o_plan r k" for k
    using settled_skips [OF assms(1) _ assms(2), of k] assms(4)
    by (cases "gm_get (sp_restorePlans (esr_spec r)) k") (auto simp: scaled_plan_def or_zero_def)
  then show "o_plan r' = o_plan r" by (rule ext)
qed

lemma settled_restored:
  assumes "all_settled r" and "esr_spec r' = esr_spec r" and "\<forall>k. o_plan r' k = map_option (plan_after r k) (o_plan r k)"
  shows "all_settled r'"
proof -
  have after: "rps_lock (plan_after r k ps)" "rps_countScaleUp (plan_after r k ps) = rps_countScaleUp ps"
      "rps_clusters ps = [] \<Longrightarrow> rps_clusters (plan_after r k ps) = []" for k ps
    by (simp_all add: plan_after_def)
  have "settled r'"
    using assms after unfolding all_settled_def settled_def plans_are_def by auto
  moreover have "in_spec r' k \<or> rps_clusters ps = []" if "o_plan r' k = Some ps" for k ps
  proof -
    from that assms(3) obtain qs where "o_plan r k = Some qs" "ps = plan_after r k qs" by auto
    with assms(1,2) after(3) show ?thesis unfolding all_settled_def in_spec_def by metis
  qed
  ultimately show ?thesis unfolding all_settled_def by blast
qed

definition rested :: "ebs_snapshot_restore \<Rightarrow> bool" where
  "rested r \<longleftrightarrow> all_settled r \<and> no_nil_hooks r"

lemma restedI: "all_settled r' \<Longrightarrow> rested r \<Longrightarrow> esr_spec r' = esr_spec r \<Longrightarrow> rested r'"
  by (simp add: rested_def no_nil_hooks_def)

lemma harmless_setter:
  assumes "\<And>s r t. m s = (r, t) \<Longrightarrow> (\<exists>f. written f s t \<and> plan_status (f (the_status s)) = the_plan s) \<and> (\<forall>p. r \<noteq> Panic p)"
  shows "harmless rested m"
proof (rule harmlessI, rule tripleI)
  fix r M' and s :: "'a st" assume r: "rested r" and s: "obj s = r \<and> mutations s = M'"
  obtain x t where run: "m s = (x, t)" by force
  from assms [OF run] obtain f where w: "written f s t" "plan_status (f (the_status s)) = the_plan s" by blast
  then have "emits hook_call s t" by (intro emits_written) simp_all
  then have "did hook_call M' t" using s emits_did by blast
  moreover have "all_settled (obj t)"
    by (rule all_settled_cong [of r]) (use r s w(2) writtenD(3,4) [OF w(1)] in \<open>simp_all add: rested_def\<close>)
  then have "rested (obj t)" using r by (rule restedI) (use s writtenD(4) [OF w(1)] in simp)
  ultimately show "case m s of (Ok x, t) \<Rightarrow> did hook_call M' t \<and> rested (obj t) | (Err e, t) \<Rightarrow> did hook_call M' t
      | (Panic p, t) \<Rightarrow> False"
    using run assms [OF run] by (cases x) auto
qed

lemma harmless_phase: "status_env env \<Longrightarrow> harmless rested (set_phase env p)"
  by (rule harmless_setter) (use phase.writes in fastforce)

lemma harmless_init: "status_env env \<Longrightarrow> harmless rested (set_init_status_restore_plan env)"
  by (rule harmless_setter) (use init.writes in fastforce)

lemma harmless_validate:
  assumes "status_env env"
  shows "harmless rested (validate_list_snapshots env)"
proof (rule harmlessI)
  fix r M' assume r: "rested r"
  have "rested r'" if "validated_all r None r'" for r'
    using restedI [OF _ r] settled_validated [OF that] r that by (simp add: rested_def validated_all_def)
  then show "triple (\<lambda>s. obj s = r \<and> mutations s = M') (validate_list_snapshots env)
      (\<lambda>_ s. did hook_call M' s \<and> rested (obj s)) (\<lambda>_ s. did hook_call M' s)"
    by (intro triple_post [OF triple_emits [OF triple_validate_list [OF assms]
          evolves_emits [OF validate_list_snapshots_evolves [OF assms, where A = is_status_patch]]]])
      (auto intro: did_status_hook)
qed

lemma settled_scale_calls:
  assumes "all_settled r" and "d = up_scale \<or> d = down_scale" and "scale_calls env d r e"
  shows "hook_call e"
proof -
  have "is_status_patch e"
    using assms(3) settled_skips [OF assms(1) _ assms(2)] unfolding scale_calls_def by metis
  then show ?thesis by (cases e) simp_all
qed

lemma harmless_scale:
  assumes env: "status_env env" "poll_ok env" and dir: "d = up_scale \<or> d = down_scale"
  shows "harmless rested (scale_restore_plan env d)"
proof (rule harmlessI)
  fix r M' assume r: "rested r"
  then have set: "all_settled r" by (simp add: rested_def)
  have al: "all_aligned d r"
    unfolding all_aligned_def using settled_skips [OF set _ dir] by blast
  have rest: "rested r'" if "esr_spec r' = esr_spec r" and "\<forall>k. o_plan r' k =
      (case gm_get (sp_restorePlans (esr_spec r)) k of None \<Rightarrow> o_plan r k
         | Some plan \<Rightarrow> Some (scaled_plan d plan (or_zero (o_plan r k))))" for r'
    using restedI [OF settled_scaled [OF set dir that] r that(1)] .
  have calls: "did hook_call M' s" if "did (scale_calls env d r) M' s" for s
    using that settled_scale_calls [OF set dir] by (rule did_mono)
  show "triple (\<lambda>s. obj s = r \<and> mutations s = M') (scale_restore_plan env d)
      (\<lambda>_ s. did hook_call M' s \<and> rested (obj s)) (\<lambda>_ s. did hook_call M' s)"
    by (rule triple_post [OF triple_scale_restore_plan [OF env dir al]]) (use rest calls in \<open>auto simp: gave_up_def\<close>)
qed

lemma harmless_restore:
  assumes env: "status_env env" "poll_ok env"
  shows "harmless rested (restore_from_plan env)"
proof (rule harmlessI)
  fix r M' assume r: "rested r"
  then have set: "all_settled r" by (simp add: rested_def)
  have rest: "rested r'" if "esr_spec r' = esr_spec r" and "\<forall>k. o_plan r' k = map_option (plan_after r k) (o_plan r k)" for r'
    using restedI [OF settled_restored [OF set that] r that(1)] .
  have calls: "did hook_call M' s" if "did (restore_call env (eligible r)) M' s" for s
    by (rule did_status_hook, rule did_mono [OF that]) (simp add: restore_call_def settled_no_claims [OF set])
  show "triple (\<lambda>s. obj s = r \<and> mutations s = M') (restore_from_plan env)
      (\<lambda>_ s. did hook_call M' s \<and> rested (obj s)) (\<lambda>_ s. did hook_call M' s)"
    by (rule triple_post [OF triple_restore_from_plan [OF env]])
      (use rest calls in \<open>auto simp: gave_up_def restore_inv_def\<close>)
qed

lemma rested_hooking:
  assumes "hooking s t" and "rested (obj s)"
  shows "rested (obj t)"
proof (rule restedI [OF _ assms(2)])
  from assms(1) have same: "same_but_hooks (obj s) (obj t)" by (simp add: hooking_def)
  then show "all_settled (obj t)" by (rule settled_hooked) (use assms(2) in \<open>simp add: rested_def\<close>)
  from same show "esr_spec (obj t) = esr_spec (obj s)" by (rule same_but_hooks_spec)
qed

lemma harmless_hooks:
  assumes "good_env env"
  shows "harmless rested (attempt (run_hooks env hs))"
proof -
  have env: "status_env env" "poll_ok env" "group_ok env" "sha_ok env" "json_ok env"
    using assms by (simp_all add: good_env_def)
  note k = hooking_run_hooks [OF env(1-3), of hs]
  have "harmless rested (run_hooks env hs)"
  proof (rule harmlessI, rule tripleI)
    fix r M' and s :: "'a st" assume r: "rested r" and s: "obj s = r \<and> mutations s = M'"
    obtain x t where run: "run_hooks env hs s = (x, t)" by force
    have "rested (obj t)" "did hook_call M' t"
      using keepsD [OF k run] r s rested_hooking emits_did [OF hookingD(2) [OF keepsD [OF k run]]] by auto
    moreover have "\<forall>m. x \<noteq> Panic m" using calm_run_hooks [OF env] run by (auto simp: calm_def)
    ultimately show "case run_hooks env hs s of (Ok x, t) \<Rightarrow> did hook_call M' t \<and> rested (obj t)
        | (Err e, t) \<Rightarrow> did hook_call M' t | (Panic m, t) \<Rightarrow> False"
      using run by (cases x) auto
  qed
  then show ?thesis by (rule harmless_attempt) (use keepsD [OF k] rested_hooking in blast)
qed

lemma harmless_setup:
  assumes "sha_ok env"
  shows "harmless rested (setup_restore_hooks env event)"
proof (rule harmlessI)
  fix r M' assume "rested r"
  then show "triple (\<lambda>s. obj s = r \<and> mutations s = M') (setup_restore_hooks env event)
      (\<lambda>_ s. did hook_call M' s \<and> rested (obj s)) (\<lambda>_ s. did hook_call M' s)"
    by (intro triple_post [OF triple_setup [OF assms]]) (auto simp: rested_def)
qed

lemma harmless_with_hooks:
  assumes "good_env env" and "harmless rested rest"
  shows "harmless rested (with_hooks env event p rest)"
proof -
  have "status_env env" "sha_ok env" using assms(1) by (simp_all add: good_env_def)
  then show ?thesis
    unfolding with_hooks_def
    by (intro harmless_gbind harmless_setup) (auto intro!: harmless_gbind harmless_phase harmless_hooks harmless_gret
        assms split: sum.split)
qed

lemma harmless_reconcile:
  assumes "good_env env"
  shows "harmless rested (reconcile_resource env)"
proof -
  have "status_env env" "poll_ok env" using assms by (simp_all add: good_env_def)
  then show ?thesis
    unfolding reconcile_resource_def
    by (intro harmless_gbind harmless_init harmless_phase harmless_validate harmless_with_hooks harmless_scale
        harmless_restore harmless_gret assms) simp_all
qed

section \<open>Only the status is written\<close>

lemma only_status_written: "written f s t \<Longrightarrow> only_status s t"
proof -
  assume w: "written f s t"
  then have "same_resource (obj s) (obj t)" by (simp add: written_def same_resource_def)
  with emits_written [OF w] show "only_status s t" by (simp add: only_status_def)
qed

lemma only_status_phase: "status_env env \<Longrightarrow> keeps only_status (set_phase env p)"
  unfolding keeps_def using phase.writes only_status_written by (metis prod.collapse)

lemma only_status_init: "status_env env \<Longrightarrow> keeps only_status (set_init_status_restore_plan env)"
  unfolding keeps_def using init.writes only_status_written by (metis prod.collapse)

lemma only_status_setup: "keeps only_status (setup_restore_hooks env event)"
  unfolding setup_restore_hooks_def Let_def by (intro only.rules)

lemma only_status_with_hooks:
  "good_env env \<Longrightarrow> keeps only_status rest \<Longrightarrow> keeps only_status (with_hooks env event p rest)"
  unfolding with_hooks_def
  by (intro only.rules only_status_setup only_status_phase only.hooks) (simp_all add: good_env_def)

lemma only_status_reconcile: "good_env env \<Longrightarrow> keeps only_status (reconcile_resource env)"
  unfolding reconcile_resource_def
  by (intro only.rules only_status_with_hooks only_status_phase only_status_init only.validate only.scale only.restore)
    (simp_all add: good_env_def)

section \<open>Properties\<close>

text \<open>The resource that the first read returns, if it returns one.\<close>

definition served :: "'w env \<Rightarrow> string \<Rightarrow> string \<Rightarrow> 'w st \<Rightarrow> (ebs_snapshot_restore \<Rightarrow> bool) \<Rightarrow> bool" where
  "served env name namespace s C \<longleftrightarrow>
     (case fst (k_get_cr env name namespace (world s)) of Inr r \<Rightarrow> C r | Inl e \<Rightarrow> True)"

lemma reconcile_cases:
  obtains e w where "k_get_cr env name namespace (world s) = (Inl e, w)"
    and "reconcile env name namespace s =
      (if is_not_found e then Ok 0 else Err e, s\<lparr>world := w, trace := trace s @ [EGetCR name namespace]\<rparr>)"
  | r w where "k_get_cr env name namespace (world s) = (Inr r, w)"
    and "reconcile env name namespace s =
      reconcile_resource env (s\<lparr>world := w, trace := trace s @ [EGetCR name namespace], obj := r\<rparr>)"
proof -
  obtain x w where "k_get_cr env name namespace (world s) = (x, w)" by force
  then show thesis
    using that by (cases x) (auto simp: reconcile_def go_run)
qed

lemma reconcile_run:
  assumes "good_env env" and "served env name namespace s no_nil_hooks"
  shows "case reconcile env name namespace s of
      (Ok d, t) \<Rightarrow> d = 0 \<and> mutations t = mutations s \<and> obj t = obj s
         \<or> (\<exists>r w w'. k_get_cr env name namespace w = (Inr r, w') \<and> finished r (mutations s) d t)
    | (Err e, t) \<Rightarrow> mutations t = mutations s
         \<or> (\<exists>r w w'. k_get_cr env name namespace w = (Inr r, w') \<and> stopped env r (mutations s) t)
    | (Panic p, t) \<Rightarrow> False"
proof (cases rule: reconcile_cases [of env name namespace s])
  case (1 e w)
  then show ?thesis by simp
next
  case (2 r w)
  let ?s = "s\<lparr>world := w, trace := trace s @ [EGetCR name namespace], obj := r\<rparr>"
  have "no_nil_hooks r" using assms(2) 2(1) by (auto simp: served_def)
  moreover have "obj ?s = r \<and> mutations ?s = mutations s" by (simp add: mutations_def)
  ultimately have "case reconcile_resource env ?s of (Ok d, t) \<Rightarrow> finished r (mutations s) d t
      | (Err e, t) \<Rightarrow> stopped env r (mutations s) t | (Panic p, t) \<Rightarrow> False"
    by (rule triple_reconcile_resource [OF assms(1), unfolded triple_def, rule_format])
  with 2 show ?thesis by (auto split: prod.splits out.splits)
qed

text \<open>C4: A reconcile never panics, whatever the API server, the cluster and the clock do, as long
  as no hook of the resource lacks its settings: no index goes out of range, no nil map is written.\<close>

theorem reconcile_never_panics:
  assumes "good_env env" and "served env name namespace s no_nil_hooks"
  shows "fst (reconcile env name namespace s) \<noteq> Panic p"
  using reconcile_run [OF assms] by (auto split: prod.splits)

text \<open>C1: However a reconcile ends, the changes it made can be cut into consecutive pieces, one per
  phase in the order of the lifecycle, and each piece holds only changes of its phase: claims are
  deleted and created only while restoring, after all scaling down and before all scaling up,
  hooks run first and last, and the phase never goes back except to \<open>Failed\<close>.\<close>

theorem reconcile_in_order:
  assumes "good_env env" and "served env name namespace s no_nil_hooks"
  shows "\<exists>es. mutations (snd (reconcile env name namespace s)) = mutations s @ es \<and> stagewise lifecycle es"
  using reconcile_run [OF assms]
  by (auto simp: finished_def stopped_def at_stage_def intro: stagewise_empty split: prod.splits out.splits)

text \<open>C2: When a reconcile ends in the phase \<open>Completed\<close>, every plan of the spec is locked, so it will not be
  restored again, and is marked as scaled up. (A lock alone does not say that the plan was restored: see the
  leak of the lock in \<open>Lock_Leak\<close>.)\<close>

theorem reconcile_completed:
  assumes "good_env env" and "served env name namespace s no_nil_hooks"
    and "reconcile env name namespace s = (Ok frequency, t)" and "o_phase (obj t) = PhaseCompleted"
    and "gm_get (sp_restorePlans (esr_spec (obj t))) k = Some plan"
  shows "\<exists>ps. o_plan (obj t) k = Some ps \<and> rps_lock ps \<and> rps_countScaleUp ps > 0"
proof -
  have "frequency \<noteq> 0" by (simp add: frequency_def time_second_def)
  then have "settled (obj t)"
    using reconcile_run [OF assms(1,2)] assms(3,4) by (auto simp: finished_def)
  then show ?thesis using assms(5) by (simp add: settled_def plans_are_def)
qed

text \<open>C5: An error that a reconcile returns is recorded: either nothing was changed, because the
  resource could not be read, or the phase is \<open>Failed\<close>, provided the status can be patched and
  the resource's kind is registered.\<close>

theorem reconcile_error_recorded:
  assumes "good_env env" and "served env name namespace s no_nil_hooks" and "patches_succeed env"
    and "k_gvk_cr env = Inr g" and "reconcile env name namespace s = (Err e, t)"
  shows "mutations t = mutations s \<or> o_phase (obj t) = PhaseFailed"
  using reconcile_run [OF assms(1,2)] assms(3-5) by (auto simp: stopped_def)


text \<open>C8: The operator owns the status only: every request that patches the resource carries the
  name, the namespace and the spec that were read, whatever the run did before.\<close>

theorem reconcile_only_status:
  assumes "good_env env" and "served env name namespace s (same_resource r0)"
    and "mutations (snd (reconcile env name namespace s)) = mutations s @ es" and "EPatchStatus new \<in> set es"
  shows "esr_name new = esr_name r0 \<and> esr_namespace new = esr_namespace r0 \<and> esr_spec new = esr_spec r0"
proof (cases rule: reconcile_cases [of env name namespace s])
  case (1 err w)
  with assms(3,4) show ?thesis by simp
next
  case (2 r w)
  let ?s = "s\<lparr>world := w, trace := trace s @ [EGetCR name namespace], obj := r\<rparr>"
  have "only_status ?s (snd (reconcile env name namespace s))"
    using only_status_reconcile [OF assms(1)] unfolding keeps_def 2(2) by blast
  then have "did (patches_where (same_resource r)) (mutations s) (snd (reconcile env name namespace s))"
    using emits_did [where s = ?s] by (fastforce simp: only_status_def mutations_def)
  with assms(3,4) have "same_resource r new" by (auto simp: did_def)
  moreover have "same_resource r0 r" using assms(2) 2(1) by (simp add: served_def)
  ultimately show ?thesis by (simp add: same_resource_iff)
qed

text \<open>C6: A completed restore is not repeated: when every plan of the spec is locked and scaled up,
  and no other plan has clusters in the status, a reconcile makes no change but status patches
  and those of hooks; no claim, stateful set or deployment is touched.\<close>

theorem reconcile_idempotent:
  assumes "good_env env" and "served env name namespace s rested"
    and "mutations (snd (reconcile env name namespace s)) = mutations s @ es" and "e \<in> set es"
  shows "hook_call e"
proof (cases rule: reconcile_cases [of env name namespace s])
  case (1 err w)
  with assms(3,4) show ?thesis by simp
next
  case (2 r w)
  let ?s = "s\<lparr>world := w, trace := trace s @ [EGetCR name namespace], obj := r\<rparr>"
  have "rested r" using assms(2) 2(1) by (auto simp: served_def)
  then have "rested (obj ?s) \<and> did hook_call (mutations s) ?s" by (simp add: did_start mutations_def)
  with harmless_reconcile [OF assms(1)]
  have "did hook_call (mutations s) (snd (reconcile env name namespace s))"
    unfolding harmless_def triple_def 2(2) by (fastforce split: prod.splits out.splits)
  with assms(3,4) show ?thesis by (auto simp: did_def)
qed

end
