(* ===== verification/Sample_Env.thy ===== *)
theory Sample_Env
  imports Status_Manager
begin

text \<open>
  A small simulated cluster, on which the hypotheses of the development hold and its
  definitions compute: a store of objects answered by name and namespace, a poll that
  tries its condition a few times, goroutines run one after the other.  It shows that the
  hypotheses can be met together, and the witnesses run the operator on it.
\<close>

section \<open>Polling with fuel\<close>

fun poll_sim :: "nat \<Rightarrow> ('w st, bool) go \<Rightarrow> ('w st, unit) go" where
  "poll_sim 0 cond s = (Err (CtxErr ''context deadline exceeded''), s)"
| "poll_sim (Suc n) cond s =
     (case cond s of
        (Ok b, t) \<Rightarrow> if b then (Ok (), t) else poll_sim n cond t
      | (Err e, t) \<Rightarrow> (Err e, t)
      | (Panic p, t) \<Rightarrow> (Panic p, t))"

lemma poll_sim_run: "poll_run cond s (fst (poll_sim n cond s)) (snd (poll_sim n cond s))"
proof (induction n cond s rule: poll_sim.induct)
  case (1 cond s)
  show ?case by (simp add: poll_run.expired)
next
  case (2 n cond s)
  obtain r t where c: "cond s = (r, t)" by force
  show ?case
  proof (cases r)
    case (Ok b)
    show ?thesis
    proof (cases b)
      case True
      with c Ok show ?thesis by (simp add: poll_run.found)
    next
      case False
      with c Ok 2 have "poll_run cond (t\<lparr>world := world t\<rparr>) (fst (poll_sim n cond t)) (snd (poll_sim n cond t))"
        by simp
      with c Ok False have "poll_run cond s (fst (poll_sim n cond t)) (snd (poll_sim n cond t))"
        by (intro poll_run.again [of cond s t "world t"]) simp_all
      with c Ok False show ?thesis by simp
    qed
  qed (use c in \<open>simp_all add: poll_run.failed poll_run.crashed\<close>)
qed

section \<open>Goroutines one after the other\<close>

definition or_first :: "goerr option \<Rightarrow> goerr option \<Rightarrow> goerr option" where
  "or_first first e = (if first = None then e else first)"

text \<open>\<open>z\<close> is the zero value of a slot.\<close>

fun run_in_turn ::
  "'a \<Rightarrow> ('s, 'a \<times> goerr option) proc list \<Rightarrow> goerr option \<Rightarrow> ('s, 'a list \<times> goerr option) go" where
  "run_in_turn z [] first = gret ([], first)"
| "run_in_turn z (p # ps) first =
     gbind (attempt (prun p)) (\<lambda>res.
       case res of
         Inl e \<Rightarrow> gbind (run_in_turn z ps (or_first first (Some e))) (\<lambda>(xs, e'). gret (z # xs, e'))
       | Inr (x, d) \<Rightarrow> gbind (run_in_turn z ps (or_first first d)) (\<lambda>(xs, e'). gret (x # xs, e')))"

text \<open>One member run to its end is a sequence of steps of the group.\<close>

lemma group_run_prun:
  "\<lbrakk>prun p s = (r, t); i < length ps; ps ! i = p; first = None \<longrightarrow> failed_with p = None;
    group_run (ps[i := Fin r]) (or_first first (failed_with (Fin r :: ('s, 'a \<times> goerr option) proc))) t R u\<rbrakk>
   \<Longrightarrow> group_run ps first (s :: 's) R u"
proof (induction p arbitrary: s ps first)
  case (Fin x)
  then have "ps ! i = Fin r" by simp
  then have "ps[i := Fin r] = ps" by (metis list_update_id)
  with Fin show ?case by (auto simp: or_first_def split: if_splits)
next
  case (Atom k)
  obtain q v where k: "k s = (q, v)" by force
  then have rq: "prun q v = (r, t)" using Atom.prems(1) by simp
  have "group_run (ps[i := q]) (note_error first q) v R u"
  proof (rule Atom.IH [OF _ _ rq])
    show "(q, v) \<in> range k" using k by (metis rangeI)
    show "q \<in> Basic_BNFs.fsts (q, v)" by simp
    have "or_first (note_error first q) (failed_with (Fin r :: ('s, 'a \<times> goerr option) proc))
        = or_first first (failed_with (Fin r :: ('s, 'a \<times> goerr option) proc))"
      using rq by (cases q) (auto simp: note_error_eq or_first_def)
    then show "group_run (ps[i := q, i := Fin r])
        (or_first (note_error first q) (failed_with (Fin r :: ('s, 'a \<times> goerr option) proc))) t R u"
      using Atom.prems(5) by simp
  qed (use Atom.prems in \<open>auto simp: note_error_eq\<close>)
  with k Atom.prems(2,3) show ?case by (blast intro: group_run.step)
qed

lemma run_in_turn_group:
  "\<lbrakk>run_in_turn z ps first s = (r, t); first = None \<longrightarrow> no_error_yet ps; list_all2 fills rs xs0\<rbrakk>
   \<Longrightarrow> case r of Ok (xs, e) \<Rightarrow> group_run (map Fin rs @ ps) first s (Ok (xs0 @ xs, e)) t
     | Err e \<Rightarrow> False | Panic m \<Rightarrow> group_run (map Fin rs @ ps) first s (Panic m) t"
proof (induction ps arbitrary: first s rs xs0 r t)
  case Nil
  then show ?case by (auto simp: go_run intro: group_run.finish)
next
  case (Cons p ps)
  obtain q v where run: "prun p s = (q, v)" by force
  let ?i = "length rs"
  have upd: "(map Fin rs @ p # ps)[?i := Fin q] = map Fin (rs @ [q]) @ ps" by (simp add: list_update_append)
  note member = group_run_prun [OF run, of ?i "map Fin rs @ p # ps" first, unfolded upd]
  have p: "first = None \<longrightarrow> failed_with p = None" and ps: "first = None \<longrightarrow> no_error_yet ps"
    using Cons.prems(2) by (auto simp: no_error_yet_def)
  have group: "group_run (map Fin rs @ p # ps) first s R u"
    if "group_run (map Fin (rs @ [q]) @ ps) (or_first first (failed_with (Fin q :: ('b, 'a \<times> goerr option) proc))) v R u" for R u
    using that p by (intro member) (simp_all add: nth_append)
  have ps': "or_first first d = None \<longrightarrow> no_error_yet ps" for d using ps by (auto simp: or_first_def)
  show ?case
  proof (cases q)
    case (Ok y)
    obtain x d where y: "y = (x, d)" by force
    obtain r' where r': "run_in_turn z ps (or_first first d) v = (r', t)"
      using Cons.prems(1) run Ok y by (auto simp: go_run split: prod.splits out.splits)
    have "fills q x" using Ok y by (simp add: fills_def)
    with Cons.prems(3) have "list_all2 fills (rs @ [q]) (xs0 @ [x])" by (simp add: list_all2_appendI)
    from Cons.IH [OF r' ps' this, simplified] group Ok y r' Cons.prems(1) run show ?thesis
      by (auto simp: go_run split: out.splits)
  next
    case (Err e)
    obtain r' where r': "run_in_turn z ps (or_first first (Some e)) v = (r', t)"
      using Cons.prems(1) run Err by (auto simp: go_run split: prod.splits out.splits)
    have "fills q z" using Err by (simp add: fills_def)
    with Cons.prems(3) have "list_all2 fills (rs @ [q]) (xs0 @ [z])" by (simp add: list_all2_appendI)
    from Cons.IH [OF r' ps' this, simplified] group Err r' Cons.prems(1) run show ?thesis
      by (auto simp: go_run split: out.splits)
  next
    case (Panic m)
    with Cons.prems(1) run have "r = Panic m" "t = v" by (auto simp: go_run)
    moreover have "group_run (map Fin (rs @ [q]) @ ps) (or_first first (failed_with (Fin q :: ('b, 'a \<times> goerr option) proc))) v (Panic m) v"
      using Panic by (intro group_run.crash) simp
    ultimately show ?thesis using group by simp
  qed
qed

section \<open>The cluster\<close>

record cluster =
  cl_cr :: "ebs_snapshot_restore option"
  cl_sts :: "stateful_set list"
  cl_deployments :: "deployment list"
  cl_pvcs :: "pvc list"
  cl_snapshots :: "volume_snapshot list"
  cl_nodes :: "string list"
  cl_jobs :: "job list"
  cl_cms :: "config_map list"
  cl_accounts :: "object_meta list"
  cl_clock :: int

definition named :: "object_meta \<Rightarrow> string \<Rightarrow> string \<Rightarrow> bool" where
  "named m n ns \<longleftrightarrow> om_name m = n \<and> om_namespace m = ns"

definition same_name :: "object_meta \<Rightarrow> object_meta \<Rightarrow> bool" where
  "same_name a b \<longleftrightarrow> named a (om_name b) (om_namespace b)"

definition lookup :: "('a \<Rightarrow> object_meta) \<Rightarrow> 'a list \<Rightarrow> string \<Rightarrow> string \<Rightarrow> goerr + 'a" where
  "lookup meta xs n ns = (case find (\<lambda>x. named (meta x) n ns) xs of
     None \<Rightarrow> Inl (StatusErr NotFound (n @ '' not found'')) | Some x \<Rightarrow> Inr x)"

definition replace :: "('a \<Rightarrow> object_meta) \<Rightarrow> 'a \<Rightarrow> 'a list \<Rightarrow> 'a list" where
  "replace meta x xs = map (\<lambda>y. if same_name (meta y) (meta x) then x else y) xs"

definition insert_new :: "('a \<Rightarrow> object_meta) \<Rightarrow> 'a \<Rightarrow> 'a list \<Rightarrow> goerr + 'a list" where
  "insert_new meta x xs = (if list_ex (\<lambda>y. same_name (meta y) (meta x)) xs
     then Inl (StatusErr AlreadyExists (om_name (meta x) @ '' already exists'')) else Inr (xs @ [x]))"

definition without :: "('a \<Rightarrow> object_meta) \<Rightarrow> 'a \<Rightarrow> 'a list \<Rightarrow> 'a list" where
  "without meta x xs = filter (\<lambda>y. \<not> same_name (meta y) (meta x)) xs"

text \<open>Controllers act at once: replicas are ready, claims bound and jobs done when created.\<close>

definition settle_sts :: "stateful_set \<Rightarrow> stateful_set" where
  "settle_sts x = (let n = (case sts_replicas x of None \<Rightarrow> 1 | Some n \<Rightarrow> n)
     in x\<lparr>sts_statusReplicas := n, sts_readyReplicas := n, sts_updatedReplicas := n\<rparr>)"

definition settle_deployment :: "deployment \<Rightarrow> deployment" where
  "settle_deployment x = (let n = (case dep_replicas x of None \<Rightarrow> 1 | Some n \<Rightarrow> n)
     in x\<lparr>dep_statusReplicas := n, dep_readyReplicas := n, dep_updatedReplicas := n, dep_availableReplicas := n\<rparr>)"

definition settle_pvc :: "pvc \<Rightarrow> pvc" where
  "settle_pvc x = x\<lparr>pvc_meta := (pvc_meta x)\<lparr>om_uid := ''uid-'' @ om_name (pvc_meta x)\<rparr>, pvc_phase := ''Bound''\<rparr>"

definition volume_of :: "pvc \<Rightarrow> persistent_volume" where
  "volume_of x = \<lparr>pv_objName = ''pv-'' @ om_name (pvc_meta x),
     pv_claimRef = Some (om_name (pvc_meta x), om_namespace (pvc_meta x), om_uid (pvc_meta x))\<rparr>"

text \<open>Lists of strings as JSON, and a digest of 64 characters; both are simple stand-ins.\<close>

definition marshal :: "string list \<Rightarrow> string" where
  "marshal xs = CHR ''['' # concat (map (\<lambda>x. x @ [CHR 0x0A]) xs)"

fun split_lines :: "string \<Rightarrow> string \<Rightarrow> string list" where
  "split_lines [] acc = []"
| "split_lines (c # cs) acc = (if c = CHR 0x0A then acc # split_lines cs [] else split_lines cs (acc @ [c]))"

fun unmarshal :: "string \<Rightarrow> goerr + string list" where
  "unmarshal [] = Inl (Errorf ''unexpected end of JSON input'')"
| "unmarshal (c # cs) = (if c = CHR ''['' then Inr (split_lines cs []) else Inl (Errorf ''invalid character''))"

definition digest :: "string \<Rightarrow> string" where
  "digest x = replicate 64 (''0123456789abcdef'' ! (sum_list (map of_char x) mod 16))"

definition answer :: "goerr + 'a \<Rightarrow> 'w \<Rightarrow> (goerr + 'a) \<times> 'w" where
  "answer r w = (r, w)"

definition sim :: "cluster env" where
  "sim = \<lparr>
     k_get_cr = \<lambda>n ns w. answer (case cl_cr w of
        Some r \<Rightarrow> if esr_name r = n \<and> esr_namespace r = ns then Inr r else Inl (StatusErr NotFound ''not found'')
      | None \<Rightarrow> Inl (StatusErr NotFound ''not found'')) w,
     k_patch_status = \<lambda>old new w. (Inr new, w\<lparr>cl_cr := Some new\<rparr>),
     k_get_sts = \<lambda>n ns w. answer (lookup sts_meta (cl_sts w) n ns) w,
     k_patch_sts = \<lambda>old new w. (Inr new, w\<lparr>cl_sts := replace sts_meta (settle_sts new) (cl_sts w)\<rparr>),
     k_delete_sts = \<lambda>x policy w. (Inr (), w\<lparr>cl_sts := without sts_meta x (cl_sts w)\<rparr>),
     k_create_sts = \<lambda>x w. (Inr x, w\<lparr>cl_sts := cl_sts w @ [settle_sts x]\<rparr>),
     k_get_deployment = \<lambda>n ns w. answer (lookup dep_meta (cl_deployments w) n ns) w,
     k_patch_deployment = \<lambda>old new w.
        (Inr new, w\<lparr>cl_deployments := replace dep_meta (settle_deployment new) (cl_deployments w)\<rparr>),
     k_get_pvc = \<lambda>n ns w. answer (lookup pvc_meta (cl_pvcs w) n ns) w,
     k_list_pvc = \<lambda>ns sel w. answer (Inr (filter (\<lambda>x. om_namespace (pvc_meta x) = ns) (cl_pvcs w))) w,
     k_create_pvc = \<lambda>x w. (Inr (settle_pvc x), w\<lparr>cl_pvcs := cl_pvcs w @ [settle_pvc x]\<rparr>),
     k_delete_pvc = \<lambda>x w. (Inr (), w\<lparr>cl_pvcs := without pvc_meta x (cl_pvcs w)\<rparr>),
     k_patch_pvc = \<lambda>old new w. (Inr new, w\<lparr>cl_pvcs := replace pvc_meta new (cl_pvcs w)\<rparr>),
     k_list_pv = \<lambda>w. answer (Inr (map volume_of (cl_pvcs w))) w,
     k_list_vs = \<lambda>ns labels w. answer (Inr (cl_snapshots w)) w,
     k_list_nodes = \<lambda>sel w. answer (Inr (cl_nodes w)) w,
     k_get_job = \<lambda>n ns w. answer (lookup j_meta (cl_jobs w) n ns) w,
     k_create_job = \<lambda>x w. (let x' = x\<lparr>j_succeeded := 1\<rparr> in case insert_new j_meta x' (cl_jobs w) of
        Inl e \<Rightarrow> (Inl e, w) | Inr xs \<Rightarrow> (Inr x', w\<lparr>cl_jobs := xs\<rparr>)),
     k_get_cm = \<lambda>n ns w. answer (lookup cm_meta (cl_cms w) n ns) w,
     k_create_cm = \<lambda>x w. (case insert_new cm_meta x (cl_cms w) of
        Inl e \<Rightarrow> (Inl e, w) | Inr xs \<Rightarrow> (Inr x, w\<lparr>cl_cms := xs\<rparr>)),
     k_patch_cm = \<lambda>old new w. (Inr new, w\<lparr>cl_cms := replace cm_meta new (cl_cms w)\<rparr>),
     k_create_sa = \<lambda>x w. (case insert_new id x (cl_accounts w) of
        Inl e \<Rightarrow> (Inl e, w) | Inr xs \<Rightarrow> (Inr (), w\<lparr>cl_accounts := xs\<rparr>)),
     k_create_role = \<lambda>x rules w. (Inr (), w),
     k_create_role_binding = \<lambda>x w. (Inr (), w),
     k_selector = \<lambda>sel. Inr [],
     k_gvk_cr = Inr (''ebs.aws.edenlab.io/v1alpha1'', ''EBSSnapshotRestore''),
     k_gvk_job = Inr (''batch/v1'', ''Job''),
     k_json_marshal = \<lambda>xs. Inr (marshal xs),
     k_json_unmarshal = unmarshal,
     k_sha256 = digest,
     k_cmp_equal = status_equiv,
     k_parse_error = \<lambda>x. ''parsing time '' @ x,
     k_now = \<lambda>w. (cl_clock w, w\<lparr>cl_clock := cl_clock w + 1\<rparr>),
     k_sleep = \<lambda>d w. w\<lparr>cl_clock := cl_clock w + d\<rparr>,
     k_map_order = \<lambda>w ks. ks,
     k_operand_first = False,
     k_poll = \<lambda>iv to imm cond. poll_sim 3 cond,
     k_group = \<lambda>ps. run_in_turn \<lparr>rhs_name = [], rhs_namespace = [], rhs_checksum = [], rhs_event = OtherEvent [],
        rhs_failed = 0, rhs_image = [], rhs_mutable = False, rhs_restartPolicy = RestartPolicyUnset,
        rhs_succeeded = 0, rhs_configMapRef = None\<rparr> ps (foldl note_error None ps)\<rparr>"

section \<open>The hypotheses hold\<close>

lemma sim_status [simp]: "status_env sim" "cmp_ok sim" "patch_echo sim" "patches_succeed sim"
  by (simp_all add: status_env_def cmp_ok_def patch_echo_def patches_succeed_def sim_def)

lemma sim_poll [simp]: "poll_ok sim"
  unfolding poll_ok_def
proof (intro allI impI)
  fix iv to imm cond and s t :: "cluster st" and r assume "k_poll sim iv to imm cond s = (r, t)"
  then have "poll_sim 3 cond s = (r, t)" by (simp only: sim_def env.simps)
  with poll_sim_run [of cond s 3] show "poll_run cond s r t" by simp
qed

lemma sim_group [simp]: "group_ok sim"
  unfolding group_ok_def
proof (intro allI impI)
  fix ps s r t assume "k_group sim ps s = (r, t)"
  then have run: "run_in_turn \<lparr>rhs_name = [], rhs_namespace = [], rhs_checksum = [], rhs_event = OtherEvent [],
      rhs_failed = 0, rhs_image = [], rhs_mutable = False, rhs_restartPolicy = RestartPolicyUnset,
      rhs_succeeded = 0, rhs_configMapRef = None\<rparr> ps (foldl note_error None ps) s = (r, t)"
    by (simp only: sim_def env.simps)
  have "foldl note_error None ps = None \<longrightarrow> no_error_yet ps" by (simp add: note_errors_None)
  from run_in_turn_group [OF run this, of "[]" "[]"]
  show "group_run ps (foldl note_error None ps) s r t" by (auto split: out.splits)
qed

lemma sim_sha [simp]: "sha_ok sim"
proof -
  have "hex_char (''0123456789abcdef'' ! (n mod 16))" for n :: nat
    unfolding hex_char_def by (rule nth_mem) simp
  then have "list_all hex_char (digest x)" for x unfolding digest_def list_all_iff by (auto dest: in_set_replicate [THEN iffD1])
  moreover have "length (digest x) = 64" for x by (simp only: digest_def length_replicate)
  ultimately show ?thesis by (simp add: sha_ok_def sim_def)
qed

lemma sim_json [simp]: "json_ok sim"
  by (simp add: json_ok_def sim_def)

section \<open>A resource and the cluster around it\<close>

definition sample_selector :: label_selector where
  "sample_selector = \<lparr>ls_matchLabels = Some [(''app'', ''db'')], ls_matchExpressions = []\<rparr>"

definition sample_target :: "string \<Rightarrow> restore_target" where
  "sample_target n = \<lparr>rt_name = n, rt_type = ''cluster'', rt_replicas = 1, rt_namespace = ''ns'',
     rt_skipRestoringPVCs = [], rt_skipWaitScaleDown = False, rt_skipWaitScaleUp = False, rt_pvcStorageClass = None,
     rt_parallelPodManagement = False, rt_claimSelector = Some sample_selector\<rparr>"

definition sample_hook :: hook_settings where
  "sample_hook = \<lparr>hs_args = [''-c''], hs_command = [''sh''], hs_event = PreRestore, hs_extraSecrets = [],
     hs_image = ''busybox'', hs_mutable = False, hs_privileges = None, hs_restartPolicy = RestartPolicyUnset,
     hs_timeout = None\<rparr>"

definition sample_plan :: restore_plan where
  "sample_plan = \<lparr>rp_clusters = [sample_target ''db''], rp_operators = [sample_target ''op''],
     rp_hooks = Some [(''h'', Some sample_hook)], rp_snapshotRestoreTime = ''202601010000''\<rparr>"

definition sample_cr :: ebs_snapshot_restore where
  "sample_cr = \<lparr>esr_name = ''r'', esr_namespace = ''ns'', esr_uid = ''u'',
     esr_spec = \<lparr>sp_restorePlans = Some [(''p'', sample_plan)]\<rparr>, esr_status = zero_status\<rparr>"

definition sample_sts :: stateful_set where
  "sample_sts = \<lparr>sts_meta = zero_meta\<lparr>om_name := ''db'', om_namespace := ''ns''\<rparr>, sts_replicas = Some 1,
     sts_podManagementPolicy = OrderedReadyPodManagement, sts_updateStrategy = RollingUpdate,
     sts_statusReplicas = 1, sts_readyReplicas = 1, sts_updatedReplicas = 1, sts_currentRevision = ''1'',
     sts_updateRevision = ''1'', sts_observedGeneration = 1, sts_rest = []\<rparr>"

definition sample_deployment :: deployment where
  "sample_deployment = \<lparr>dep_meta = zero_meta\<lparr>om_name := ''op'', om_namespace := ''ns''\<rparr>, dep_replicas = Some 1,
     dep_statusReplicas = 1, dep_readyReplicas = 1, dep_updatedReplicas = 1, dep_availableReplicas = 1, dep_rest = []\<rparr>"

definition sample_claim :: pvc where
  "sample_claim = zero_pvc\<lparr>pvc_meta := zero_meta\<lparr>om_name := ''data-db-0'', om_namespace := ''ns'', om_uid := ''u1''\<rparr>,
     pvc_phase := ''Bound''\<rparr>"

definition sample_snapshot :: volume_snapshot where
  "sample_snapshot = \<lparr>vs_name = ''data-db-0-p-202601010000'', vs_uid = ''s1'', vs_status = Some (Some True)\<rparr>"

definition sample_cluster :: cluster where
  "sample_cluster = \<lparr>cl_cr = Some sample_cr, cl_sts = [sample_sts], cl_deployments = [sample_deployment],
     cl_pvcs = [sample_claim], cl_snapshots = [sample_snapshot], cl_nodes = [''n1''], cl_jobs = [], cl_cms = [],
     cl_accounts = [], cl_clock = 0\<rparr>"

definition sample_st :: "cluster st" where
  "sample_st = \<lparr>world = sample_cluster, trace = [], obj = sample_cr, seen = False, pv_name = []\<rparr>"

end
