(* ===== verification/Scenarios.thy ===== *)
theory Scenarios
  imports Reconcile Sample_Env
begin

text \<open>
  A concrete run of the operator on the simulated cluster, evaluated by the kernel: it reports
  \<open>Completed\<close> although a plan was never restored. \<open>Lock_Leak\<close> proves the general statement; the witness of
  that theorem starts from the state below.
\<close>

section \<open>Two plans, the first already restored\<close>

text \<open>
  The plan \<open>a\<close> was restored by an earlier run; the plan \<open>b\<close> was added to the spec since then.
  Every snapshot is ready.
\<close>

definition leak_plan :: "string \<Rightarrow> restore_plan" where
  "leak_plan n = \<lparr>rp_clusters = [sample_target n], rp_operators = [], rp_hooks = None,
     rp_snapshotRestoreTime = ''202601010000''\<rparr>"

definition leak_cr :: ebs_snapshot_restore where
  "leak_cr = \<lparr>esr_name = ''r'', esr_namespace = ''ns'', esr_uid = ''u'',
     esr_spec = \<lparr>sp_restorePlans = Some [(''a'', leak_plan ''db''), (''b'', leak_plan ''dc'')]\<rparr>,
     esr_status = zero_status\<lparr>rs_phase := PhaseCompleted, rs_restorePlans := Some [(''a'', zero_plan_status\<lparr>
       rps_snapshotRestoreTime := ''202601010000'', rps_lock := True, rps_countScaleUp := 1\<rparr>)]\<rparr>\<rparr>"

definition leak_claim :: "string \<Rightarrow> pvc" where
  "leak_claim n = sample_claim\<lparr>pvc_meta := zero_meta\<lparr>om_name := n, om_namespace := ''ns'', om_uid := ''u1''\<rparr>\<rparr>"

definition leak_snapshot :: "string \<Rightarrow> volume_snapshot" where
  "leak_snapshot n = \<lparr>vs_name = n, vs_uid = ''s1'', vs_status = Some (Some True)\<rparr>"

definition leak_st :: "cluster st" where
  "leak_st = sample_st\<lparr>world := sample_cluster\<lparr>cl_cr := Some leak_cr,
     cl_sts := [sample_sts, sample_sts\<lparr>sts_meta := zero_meta\<lparr>om_name := ''dc'', om_namespace := ''ns''\<rparr>\<rparr>],
     cl_pvcs := [leak_claim ''data-db-0'', leak_claim ''data-dc-0''],
     cl_snapshots := [leak_snapshot ''data-db-0-a-202601010000'', leak_snapshot ''data-dc-0-b-202601010000'']\<rparr>,
     obj := leak_cr\<rparr>"

text \<open>On the cluster below the plan \<open>b\<close> is not locked before the run, its snapshot is ready, the run ends in the
  phase \<open>Completed\<close> without an error, the plan is locked, and no claim was touched.\<close>

lemma completed_without_restore:
  "\<not> was_locked leak_cr ''b'' \<and> (case reconcile sim ''r'' ''ns'' leak_st of (res, t) \<Rightarrow>
     res = Ok frequency \<and> o_phase (obj t) = PhaseCompleted \<and> was_locked (obj t) ''b''
     \<and> list_ex (\<lambda>e. e = EListVS ''ns'') (trace t) \<and> \<not> list_ex claim_call (trace t))"
  by code_simp

end
