(* ===== verification/Lifetime.thy ===== *)
theory Lifetime
  imports Reconcile
begin

text \<open>
  A restore resource over many reconciles. The operator runs again and again on what it stored
  before, while others edit the spec. A plan that is locked and stays in the spec stays locked, and no run
  restores its claims again, whatever fails on the way; the frames below carry the two facts
  through the packages, the induction over the history puts the runs together.
\<close>

section \<open>Locks are kept\<close>

abbreviation plan_lock :: "restore_status \<Rightarrow> string \<Rightarrow> bool" where
  "plan_lock st k \<equiv> rps_lock (or_zero (plan_status st k))"

definition locked_in :: "string \<Rightarrow> ebs_snapshot_restore \<Rightarrow> bool" where
  "locked_in k r \<longleftrightarrow> in_spec r k \<and> was_locked r k"

text \<open>The resources that a list of calls sends to the server.\<close>

definition sent :: "event list \<Rightarrow> ebs_snapshot_restore set" where
  "sent es = {r. EPatchStatus r \<in> set es}"

lemma sent_simps [simp]: "sent [] = {}" "sent (es @ fs) = sent es \<union> sent fs"
  by (auto simp: sent_def)

lemma sent_quiet [simp]: "\<not> is_status_patch e \<Longrightarrow> sent [e] = {}" "sent [EPatchStatus r] = {r}"
  by (auto simp: sent_def)

lemma quiet_no_patch [simp]: "quiet e \<Longrightarrow> \<not> is_status_patch e" "claim_call e \<Longrightarrow> \<not> is_status_patch e"
  by (cases e; simp)+

lemma claim_quiet: "claim_call e \<Longrightarrow> \<not> quiet e"
  by (cases e) simp_all

text \<open>
  \<open>locking k s t\<close>: from \<open>s\<close> to \<open>t\<close> a lock of the plan \<open>k\<close> is kept, in memory and in every resource sent;
  the resource in memory is that of \<open>s\<close> or one that was sent.
\<close>

definition locking :: "string \<Rightarrow> 'w st \<Rightarrow> 'w st \<Rightarrow> bool" where
  "locking k s t \<longleftrightarrow> (locked_in k (obj s) \<longrightarrow> locked_in k (obj t)
     \<and> (\<exists>es. trace t = trace s @ es \<and> obj t \<in> insert (obj s) (sent es) \<and> (\<forall>r \<in> sent es. locked_in k r)))"

lemma locking_refl: "obj t = obj s \<Longrightarrow> trace t = trace s @ es \<Longrightarrow> sent es = {} \<Longrightarrow> locking k s t"
  by (auto simp: locking_def)

lemma locking_written:
  assumes "written f s t" and "plan_lock (the_status s) k \<Longrightarrow> plan_lock (f (the_status s)) k"
  shows "locking k s t"
  unfolding locking_def
proof
  assume locked: "locked_in k (obj s)"
  then have "locked_in k (obj t)"
    using assms(2) writtenD(3,4) [OF assms(1)] by (simp add: locked_in_def was_locked_def in_spec_def)
  with assms(1) show "locked_in k (obj t)
      \<and> (\<exists>es. trace t = trace s @ es \<and> obj t \<in> insert (obj s) (sent es) \<and> (\<forall>r \<in> sent es. locked_in k r))"
    by (auto simp: written_def)
qed

lemma plan_lock_put: "(\<And>p. rps_lock (f p) = rps_lock p) \<Longrightarrow> plan_lock (put_plan j f st) k = plan_lock st k"
  by (auto simp: plan_status_put_plan or_zero_def split: option.splits)

interpretation locking: claim_frame "locking k" "\<lambda>st st'. plan_lock st k \<longrightarrow> plan_lock st' k" for k
proof
  fix s t u :: "'a st" assume st: "locking k s t" and tu: "locking k t u"
  show "locking k s u"
    unfolding locking_def
  proof
    assume "locked_in k (obj s)"
    with st obtain es where es: "locked_in k (obj t)" "trace t = trace s @ es" "obj t \<in> insert (obj s) (sent es)"
        "\<forall>r \<in> sent es. locked_in k r" by (auto simp: locking_def)
    with tu obtain fs where "locked_in k (obj u)" "trace u = trace t @ fs" "obj u \<in> insert (obj t) (sent fs)"
        "\<forall>r \<in> sent fs. locked_in k r" by (auto simp: locking_def)
    with es show "locked_in k (obj u)
        \<and> (\<exists>es. trace u = trace s @ es \<and> obj u \<in> insert (obj s) (sent es) \<and> (\<forall>r \<in> sent es. locked_in k r))"
      by (intro conjI exI [of _ "es @ fs"]) auto
  qed
next
  fix f and s t :: "'a st" assume "written f s t" and "plan_lock (the_status s) k \<longrightarrow> plan_lock (f (the_status s)) k"
  then show "locking k s t" by (blast intro: locking_written)
qed (auto intro: locking_refl simp: plan_lock_put)

lemma plan_lock_set:
  "(\<And>p. rps_lock (f p) = l) \<Longrightarrow> l \<or> j \<noteq> k \<Longrightarrow> plan_lock st k \<longrightarrow> plan_lock (put_plan j f st) k"
  by (auto simp: plan_status_put_plan or_zero_def split: option.splits)

lemma locking_setters:
  assumes "status_env env" and "l \<or> j \<noteq> k"
  shows "keeps (locking k) (set_validate_restore_plan env j t l cs os)"
    and "keeps (locking k) (set_restore_from_plan env j l cs os)"
proof -
  show "keeps (locking k) (set_validate_restore_plan env j t l cs os)"
    by (rule locking.written_keeps [OF conjunct1 [OF validated.writes [OF assms(1)]]], assumption)
      (rule plan_lock_set [OF _ assms(2)], simp)
  show "keeps (locking k) (set_restore_from_plan env j l cs os)"
    by (rule locking.written_keeps [OF conjunct1 [OF restored.writes [OF assms(1)]]], assumption)
      (rule plan_lock_set [OF _ assms(2)], simp)
qed

text \<open>What is read from the state may be used: a lock in it is a lock of the state.\<close>

lemma locking_gets:
  assumes "\<And>s. locked_in k (obj s) \<Longrightarrow> keeps (locking k) (g (f s))"
  shows "keeps (locking k) (gbind (gets f) g)"
  unfolding keeps_def
proof
  fix s
  show "locking k s (snd (gbind (gets f) g s))"
  proof (cases "locked_in k (obj s)")
    case True
    with assms show ?thesis by (simp add: go_run keeps_def)
  qed (simp add: locking_def)
qed

lemma locking_fail_plan:
  assumes "status_env env" and "l \<or> j \<noteq> k"
  shows "keeps (locking k) (fail_plan env j t l cs os)"
  unfolding fail_plan_def by (intro locking.steps locking_setters assms)

lemma locking_known_time:
  assumes "status_env env" and "l \<or> j \<noteq> k"
  shows "keeps (locking k) (validate_known_time env j plan (e, l))"
  unfolding validate_known_time_def validate_snapshot_def validate_cluster_def validate_operator_def Let_def fst_conv snd_conv
  by (intro locking.steps locking_setters locking_fail_plan locking.validate_targets locking.fetch assms) simp_all

lemma locking_validate_plan:
  assumes "status_env env"
  shows "keeps (locking k) (validate_plan env kv v)"
  unfolding validate_plan_def Let_def
proof (rule locking_gets, goal_cases)
  case (1 s)
  then have "(if (case the_plan s (fst kv) of Some ps \<Rightarrow> rps_lock ps | None \<Rightarrow> False) then True else snd v) \<or> fst kv \<noteq> k"
    by (auto simp: locked_in_def was_locked_def or_zero_def zero_plan_status_def split: option.splits)
  then show ?case
    by (intro locking.steps locking.find_latest locking_known_time locking_fail_plan assms)
qed

lemma locking_validate: "status_env env \<Longrightarrow> keeps (locking k) (validate_list_snapshots env)"
  unfolding validate_list_snapshots_def by (intro locking.steps locking_validate_plan)

lemma locking_restore_clusters:
  assumes "status_env env" and "poll_ok env" and "j \<noteq> k"
  shows "keeps (locking k) (restore_clusters env j ops i cs clusters)"
  by (induction cs arbitrary: i clusters)
    (auto simp: Let_def restore_snaps_def intro!: locking.steps locking.restore_pvc locking_setters assms)

lemma locking_restore_one:
  assumes "status_env env" and "poll_ok env" and "fst kv = k \<Longrightarrow> rps_lock (snd kv)"
  shows "keeps (locking k) (restore_one_plan env kv)"
  unfolding restore_one_plan_def Let_def
proof (rule locking.gbind [OF locking.setters(1) [OF assms(1)] locking_gets], goal_cases)
  case (1 x s)
  show ?case
  proof (cases "fst kv = k")
    case True
    with 1 assms(3) show ?thesis by (simp add: locked_in_def in_spec_def locking.gret)
  next
    case False
    with assms(1,2) show ?thesis by (intro locking.steps locking_restore_clusters locking_setters) simp_all
  qed
qed

lemma locking_restore:
  assumes "status_env env" and "poll_ok env"
  shows "keeps (locking k) (restore_from_plan env)"
  unfolding restore_from_plan_def range_map_def gbind_assoc gbind_gret
proof (rule locking_gets, intro locking.steps locking.range_keys locking_restore_one assms, goal_cases)
  case (1 s ks kv)
  then have kv: "snd kv = the (gm_get (rs_restorePlans (the_status s)) k)" by auto
  from 1(1) show ?case
    by (auto simp: kv locked_in_def was_locked_def plan_status_def or_zero_def zero_plan_status_def split: option.splits)
qed

section \<open>Claims of other plans only\<close>

text \<open>A call on a claim that one of the resources \<open>rs\<close> lists under a plan other than \<open>k\<close>.\<close>

definition others_claim :: "'w env \<Rightarrow> string \<Rightarrow> ebs_snapshot_restore set \<Rightarrow> event \<Rightarrow> bool" where
  "others_claim env k rs e \<longleftrightarrow> (\<exists>r \<in> rs. \<exists>j ps ns ref i calls. j \<noteq> k \<and> o_plan r j = Some ps
     \<and> (ns, ref) \<in> plan_claims ps \<and> restore_stage env ns ref i calls \<and> e \<in> set calls)"

lemma others_claim_each: "others_claim env k rs e \<longleftrightarrow> (\<exists>r \<in> rs. others_claim env k {r} e)"
  unfolding others_claim_def by blast

lemma others_claim_mono: "others_claim env k rs e \<Longrightarrow> rs \<subseteq> rs' \<Longrightarrow> others_claim env k rs' e"
  unfolding others_claim_def by blast

lemma restore_run_calls:
  assumes "status_env env" and "poll_ok env" and "restore_from_plan env s = (x, t)"
  shows "did (restore_call env (eligible (obj s))) (mutations s) t"
proof -
  note T = triple_restore_from_plan [OF assms(1,2), of "obj s" "mutations s"]
  show ?thesis
  proof (cases x)
    case (Ok y)
    from triple_okD [OF T _ assms(3) [unfolded Ok]] show ?thesis by (simp add: restore_inv_def)
  next
    case (Err e)
    from triple_errD [OF T _ assms(3) [unfolded Err]] show ?thesis by (simp add: gave_up_def)
  next
    case (Panic p)
    from triple_no_panic [OF T, of s p t] assms(3) Panic show ?thesis by simp
  qed
qed

lemma eligible_others:
  assumes "locked_in k r" and "restore_call env (eligible r) e" and "claim_call e"
  shows "others_claim env k {r} e"
proof -
  from assms(2,3) obtain ns ref i calls where "(ns, ref) \<in> eligible r" "restore_stage env ns ref i calls" "e \<in> set calls"
    by (auto simp: restore_call_def)
  moreover from this(1) obtain j ps where "o_plan r j = Some ps" "\<not> (in_spec r j \<and> rps_lock ps)" "(ns, ref) \<in> plan_claims ps"
    by (auto simp: eligible_def)
  moreover from this assms(1) have "j \<noteq> k" by (auto simp: locked_in_def was_locked_def or_zero_def)
  ultimately show ?thesis unfolding others_claim_def by blast
qed

interpretation unclaiming: step_frame "emits (\<lambda>e. \<not> claim_call e)" "\<lambda>_ _. True"
proof
  fix f and s t :: "'a st" assume "written f s t"
  then show "emits (\<lambda>e. \<not> claim_call e) s t" by (rule emits_written) simp
qed simp_all

section \<open>Guards: what a reconcile keeps, and which claims it may change\<close>

text \<open>
  \<open>guarding P C s t\<close>: from \<open>s\<close> to \<open>t\<close> the fact \<open>P\<close> of the resource is kept, in memory and in every resource sent,
  and a call on a claim is one that \<open>C\<close> allows for the resource at the start or one that was sent.
\<close>

definition guarding ::
  "(ebs_snapshot_restore \<Rightarrow> bool) \<Rightarrow> (ebs_snapshot_restore \<Rightarrow> event \<Rightarrow> bool) \<Rightarrow> 'w st \<Rightarrow> 'w st \<Rightarrow> bool" where
  "guarding P C s t \<longleftrightarrow> (P (obj s) \<longrightarrow> P (obj t)
     \<and> (\<exists>es. trace t = trace s @ es \<and> obj t \<in> insert (obj s) (sent es) \<and> (\<forall>r \<in> sent es. P r)
          \<and> (\<forall>e \<in> set es. claim_call e \<longrightarrow> (\<exists>r \<in> insert (obj s) (sent es). C r e))))"

lemma guarding_quiet: "obj t = obj s \<Longrightarrow> trace t = trace s @ es \<Longrightarrow> list_all quiet es \<Longrightarrow> guarding P C s t"
  unfolding guarding_def sent_def list_all_iff by (metis Un_iff claim_quiet insertI1 mem_Collect_eq quiet_no_patch(1) is_status_patch.simps(1))

lemma guarding_trans:
  assumes "guarding P C s t" and "guarding P C t u"
  shows "guarding P C s u"
  unfolding guarding_def
proof
  assume "P (obj s)"
  with assms(1) obtain es where t: "P (obj t)" "trace t = trace s @ es" "obj t \<in> insert (obj s) (sent es)"
      "\<forall>r \<in> sent es. P r" "\<forall>e \<in> set es. claim_call e \<longrightarrow> (\<exists>r \<in> insert (obj s) (sent es). C r e)"
    by (auto simp: guarding_def)
  with assms(2) obtain fs where u: "P (obj u)" "trace u = trace t @ fs" "obj u \<in> insert (obj t) (sent fs)"
      "\<forall>r \<in> sent fs. P r" "\<forall>e \<in> set fs. claim_call e \<longrightarrow> (\<exists>r \<in> insert (obj t) (sent fs). C r e)"
    by (auto simp: guarding_def)
  let ?rs = "insert (obj s) (sent (es @ fs))"
  have rs: "insert (obj s) (sent es) \<subseteq> ?rs" "insert (obj t) (sent fs) \<subseteq> ?rs" using t(3) by auto
  have "\<exists>r \<in> ?rs. C r e" if "e \<in> set (es @ fs)" "claim_call e" for e
    using that t(5) u(5) rs by (metis Un_iff set_append subsetD)
  moreover have "trace u = trace s @ (es @ fs)" "obj u \<in> ?rs" using t(2,3) u(2,3) by auto
  moreover have "\<forall>r \<in> sent (es @ fs). P r" using t(4) u(4) by auto
  ultimately show "P (obj u) \<and> (\<exists>es. trace u = trace s @ es \<and> obj u \<in> insert (obj s) (sent es) \<and> (\<forall>r \<in> sent es. P r)
          \<and> (\<forall>e \<in> set es. claim_call e \<longrightarrow> (\<exists>r \<in> insert (obj s) (sent es). C r e)))"
    using u(1) by blast
qed

lemma guarding_weaken:
  assumes "guarding Q D s t" and "P (obj s) \<Longrightarrow> Q (obj s)" and "\<And>r. Q r \<Longrightarrow> P r" and "\<And>r e. D r e \<Longrightarrow> C r e"
  shows "guarding P C s t"
  using assms unfolding guarding_def by meson

lemma guarding_unclaimed: "guarding P C s t \<Longrightarrow> emits (\<lambda>e. \<not> claim_call e) s t \<Longrightarrow> guarding P D s t"
  unfolding guarding_def emits_def by (metis claim_quiet same_append_eq)

lemma guarding_calls:
  assumes "guarding P C s t" and "P (obj s)" and "mutations t = mutations s @ es"
  shows "\<forall>r \<in> sent es. P r" and "\<forall>e \<in> set es. claim_call e \<longrightarrow> (\<exists>r \<in> insert (obj s) (sent es). C r e)"
proof -
  from assms(1,2) obtain fs where fs: "trace t = trace s @ fs" "\<forall>r \<in> sent fs. P r"
      "\<forall>e \<in> set fs. claim_call e \<longrightarrow> (\<exists>r \<in> insert (obj s) (sent fs). C r e)" by (auto simp: guarding_def)
  from fs(1) assms(3) have es: "es = filter (\<lambda>e. \<not> quiet e) fs" by (simp add: mutations_def)
  then have "sent es = sent fs" by (auto simp: sent_def)
  with fs(2,3) es show "\<forall>r \<in> sent es. P r" "\<forall>e \<in> set es. claim_call e \<longrightarrow> (\<exists>r \<in> insert (obj s) (sent es). C r e)"
    by auto
qed

text \<open>The parts of a reconcile before and after the end of the validation.\<close>

definition after_validation :: "'w env \<Rightarrow> ('w st, int) go" where
  "after_validation env =
     with_hooks env PreRestore PhaseRunningPreHooks (
     gbind (set_phase env PhaseScalingDown) (\<lambda>_.
     gbind (scale_restore_plan env down_scale) (\<lambda>_.
     gbind (set_phase env PhaseRestoring) (\<lambda>_.
     gbind (restore_from_plan env) (\<lambda>_.
     gbind (set_phase env PhaseScalingUp) (\<lambda>_.
     gbind (scale_restore_plan env up_scale) (\<lambda>_.
     with_hooks env PostRestore PhaseRunningPostHooks (
     gbind (set_phase env PhaseCompleted) (\<lambda>_.
     gret frequency)))))))))"

definition until_validation :: "'w env \<Rightarrow> ('w st, unit) go" where
  "until_validation env =
     gbind (set_init_status_restore_plan env) (\<lambda>_.
     gbind (set_phase env PhaseValidating) (\<lambda>_.
     validate_list_snapshots env))"

lemma reconcile_parts: "reconcile_resource env = gbind (until_validation env) (\<lambda>_. after_validation env)"
  by (simp add: reconcile_resource_def until_validation_def after_validation_def gbind_assoc)

lemma unclaiming_validation:
  assumes "status_env env"
  shows "keeps (emits (\<lambda>e. \<not> claim_call e)) (until_validation env)"
  unfolding until_validation_def
proof (intro emitted.gbind)
  show "keeps (emits (\<lambda>e. \<not> claim_call e)) (set_init_status_restore_plan env)"
    by (rule unclaiming.written_keeps [OF conjunct1 [OF init.writes [OF assms]]]) simp_all
  show "keeps (emits (\<lambda>e. \<not> claim_call e)) (set_phase env PhaseValidating)"
    by (rule unclaiming.written_keeps [OF conjunct1 [OF phase.writes [OF assms]]]) simp_all
  show "keeps (emits (\<lambda>e. \<not> claim_call e)) (validate_list_snapshots env)"
    by (rule evolves_emits [OF validate_list_snapshots_evolves [OF assms]]) simp
qed

text \<open>
  The interface of a guard: \<open>P\<close> follows the locks and the spec, and \<open>C\<close> allows what a restore may do where \<open>P\<close>
  holds. Then every package keeps the guard.
\<close>

locale guard =
  fixes P :: "ebs_snapshot_restore \<Rightarrow> bool" and C :: "ebs_snapshot_restore \<Rightarrow> event \<Rightarrow> bool" and env :: "'w env"
  assumes kept: "(\<And>k. locking k (s :: 'w st) t) \<Longrightarrow> only_status s t \<Longrightarrow> P (obj s) \<Longrightarrow> P (obj t)
      \<and> (\<exists>es. trace t = trace s @ es \<and> obj t \<in> insert (obj s) (sent es) \<and> (\<forall>r \<in> sent es. P r))"
    and allowed: "P r \<Longrightarrow> restore_call env (eligible r) e \<Longrightarrow> claim_call e \<Longrightarrow> C r e"

sublocale guard \<subseteq> world_frame "guarding P C"
  by unfold_locales (auto intro: guarding_trans guarding_quiet)

context guard
begin

lemma guardI:
  fixes s t :: "'w st"
  assumes "\<And>k. locking k s t" and "only_status s t"
    and "\<And>es e. P (obj s) \<Longrightarrow> trace t = trace s @ es \<Longrightarrow> e \<in> set es \<Longrightarrow> claim_call e \<Longrightarrow> C (obj s) e"
  shows "guarding P C s t"
  unfolding guarding_def
proof
  assume P: "P (obj s)"
  with kept [OF assms(1,2)] obtain es where es: "P (obj t)" "trace t = trace s @ es" "obj t \<in> insert (obj s) (sent es)"
      "\<forall>r \<in> sent es. P r" by blast
  then show "P (obj t) \<and> (\<exists>es. trace t = trace s @ es \<and> obj t \<in> insert (obj s) (sent es) \<and> (\<forall>r \<in> sent es. P r)
      \<and> (\<forall>e \<in> set es. claim_call e \<longrightarrow> (\<exists>r \<in> insert (obj s) (sent es). C r e)))"
    using assms(3) [OF P es(2)] by blast
qed

lemma quiet_claims:
  fixes m :: "('w st, 'a) go"
  assumes "\<And>k. keeps (locking k) m" and "keeps only_status m" and "keeps (emits (\<lambda>e. \<not> claim_call e)) m"
  shows "keeps (guarding P C) m"
  unfolding keeps_def
proof (intro allI guardI)
  fix s es e assume "trace (snd (m s)) = trace s @ es" and "e \<in> set es" and "claim_call e"
  moreover have "emits (\<lambda>e. \<not> claim_call e) s (snd (m s))" using assms(3) by (simp add: keeps_def)
  ultimately show "C (obj s) e" by (auto simp: emits_def dest: claim_quiet)
qed (use assms(1,2) in \<open>simp_all add: keeps_def\<close>)

lemma setter_step:
  fixes m :: "('w st, 'a) go"
  assumes "\<And>s r t. m s = (r, t) \<Longrightarrow> written f s t" and "\<And>st. plan_status (f st) = plan_status st"
  shows "keeps (guarding P C) m"
proof (rule quiet_claims)
  show "keeps (locking k) m" for k by (rule locking.written_keeps [OF assms(1)]) (simp_all add: assms(2))
  show "keeps only_status m" by (rule only.written_keeps [OF assms(1)]) simp_all
  show "keeps (emits (\<lambda>e. \<not> claim_call e)) m" by (rule unclaiming.written_keeps [OF assms(1)]) simp_all
qed

lemma phase_step: "status_env env \<Longrightarrow> keeps (guarding P C) (set_phase env p)"
  by (rule setter_step [OF conjunct1 [OF phase.writes]]) simp_all

lemma init_step: "status_env env \<Longrightarrow> keeps (guarding P C) (set_init_status_restore_plan env)"
  by (rule setter_step [OF conjunct1 [OF init.writes]]) simp_all

lemma validate_step:
  assumes "status_env env"
  shows "keeps (guarding P C) (validate_list_snapshots env)"
proof (rule quiet_claims [OF locking_validate [OF assms] only.validate [OF assms]])
  show "keeps (emits (\<lambda>e. \<not> claim_call e)) (validate_list_snapshots env)"
    by (rule evolves_emits [OF validate_list_snapshots_evolves [OF assms]]) simp
qed

lemma scale_step: "status_env env \<Longrightarrow> poll_ok env \<Longrightarrow> keeps (guarding P C) (scale_restore_plan env d)"
  by (intro quiet_claims locking.scale only.scale unclaiming.scale)

lemma hooks_step:
  "status_env env \<Longrightarrow> poll_ok env \<Longrightarrow> group_ok env \<Longrightarrow> keeps (guarding P C) (run_hooks env hs)"
  by (intro quiet_claims locking.hooks only.hooks unclaiming.hooks)

lemma restore_step:
  assumes "status_env env" and "poll_ok env"
  shows "keeps (guarding P C) (restore_from_plan env)"
  unfolding keeps_def
proof (intro allI guardI)
  fix s show "locking k s (snd (restore_from_plan env s))" for k
    using locking_restore [OF assms] by (simp add: keeps_def)
  show "only_status s (snd (restore_from_plan env s))" using only.restore [OF assms] by (simp add: keeps_def)
next
  fix s es e assume P: "P (obj s)" and es: "trace (snd (restore_from_plan env s)) = trace s @ es"
    and e: "e \<in> set es" "claim_call e"
  have "did (restore_call env (eligible (obj s))) (mutations s) (snd (restore_from_plan env s))"
    by (rule restore_run_calls [OF assms prod.collapse [symmetric]])
  with es e have "restore_call env (eligible (obj s)) e" by (auto simp: did_def mutations_def dest: claim_quiet)
  then show "C (obj s) e" by (rule allowed [OF P _ e(2)])
qed

lemma with_hooks_step:
  assumes "good_env env" and "keeps (guarding P C) rest"
  shows "keeps (guarding P C) (with_hooks env event p rest)"
  using assms unfolding with_hooks_def setup_restore_hooks_def Let_def good_env_def
  by (intro rules phase_step hooks_step) simp_all

lemma until_step: "status_env env \<Longrightarrow> keeps (guarding P C) (until_validation env)"
  unfolding until_validation_def by (intro rules phase_step init_step validate_step)

lemma later_steps: "good_env env \<Longrightarrow> keeps (guarding P C) (after_validation env)"
  unfolding after_validation_def
  by (intro rules with_hooks_step phase_step scale_step restore_step) (simp_all add: good_env_def)

lemma all_steps: "good_env env \<Longrightarrow> keeps (guarding P C) (reconcile_resource env)"
  unfolding reconcile_parts by (intro rules later_steps until_step) (simp_all add: good_env_def)

end

interpretation sparing: guard "locked_in k" "\<lambda>r. others_claim env k {r}" env for k env
proof
  fix s t :: "'a st" assume "\<And>k. locking k s t" and "locked_in k (obj s)"
  then show "locked_in k (obj t)
      \<and> (\<exists>es. trace t = trace s @ es \<and> obj t \<in> insert (obj s) (sent es) \<and> (\<forall>r \<in> sent es. locked_in k r))"
    unfolding locking_def by blast
qed (rule eligible_others)

lemma reconcile_reads:
  assumes "reconcile env n ns s = (res, t)" and "k_get_cr env n ns (world s) = (Inr r, w)"
  shows "reconcile_resource env (s\<lparr>world := w, trace := trace s @ [EGetCR n ns], obj := r\<rparr>) = (res, t)"
  using assms by (simp add: reconcile_def go_run)

lemma reconcile_spares:
  assumes "good_env env" and "reconcile env n ns s = (res, t)" and "k_get_cr env n ns (world s) = (Inr r, w)"
    and "locked_in k r" and "mutations t = mutations s @ es"
  shows "\<forall>r' \<in> sent es. locked_in k r'" and "\<forall>e \<in> set es. claim_call e \<longrightarrow> others_claim env k (insert r (sent es)) e"
proof -
  let ?s = "s\<lparr>world := w, trace := trace s @ [EGetCR n ns], obj := r\<rparr>"
  note g = keepsD [OF sparing.all_steps [OF assms(1)] reconcile_reads [OF assms(2,3)], of k]
  have es: "mutations t = mutations ?s @ es" using assms(5) by (simp add: mutations_def)
  note calls = guarding_calls [OF g _ es]
  show "\<forall>r' \<in> sent es. locked_in k r'" using calls(1) assms(4) by simp
  show "\<forall>e \<in> set es. claim_call e \<longrightarrow> others_claim env k (insert r (sent es)) e"
    using calls(2) assms(4) others_claim_each by simp blast
qed

section \<open>A history of reconciles\<close>

text \<open>
  \<open>history env n ns k r0 es rs r\<close>: starting from the resource \<open>r0\<close>, the server now stores \<open>r\<close>; the operator made the
  changes \<open>es\<close>, and \<open>rs\<close> are the resources that were stored or sent. Others edit the spec but keep the plan
  \<open>k\<close>; a reconcile reads what is stored, and leaves it or one of the resources it sent.
\<close>

inductive history ::
  "'w env \<Rightarrow> string \<Rightarrow> string \<Rightarrow> string \<Rightarrow> ebs_snapshot_restore \<Rightarrow> event list \<Rightarrow> ebs_snapshot_restore set \<Rightarrow>
   ebs_snapshot_restore \<Rightarrow> bool" for env n ns k r0 where
  start: "history env n ns k r0 [] {r0} r0"
| edit: "history env n ns k r0 es rs r \<Longrightarrow> esr_status r' = esr_status r \<Longrightarrow> in_spec r' k \<Longrightarrow>
    history env n ns k r0 es (insert r' rs) r'"
| run: "history env n ns k r0 es rs r \<Longrightarrow> k_get_cr env n ns (world s) = (Inr r, w) \<Longrightarrow>
    reconcile env n ns s = (res, t) \<Longrightarrow> mutations t = mutations s @ fs \<Longrightarrow> r' \<in> insert r (sent fs) \<Longrightarrow>
    history env n ns k r0 (es @ fs) (rs \<union> sent fs) r'"

lemma history_stored: "history env n ns k r0 es rs r \<Longrightarrow> r \<in> rs"
  by (induction rule: history.induct) auto

text \<open>C3: A restored plan is not restored again, over any number of reconciles, failed ones included, and any edits
  of the spec that keep the plan: it stays locked in every resource that is sent or stored, and every call on
  a claim is one for a claim that such a resource lists under another plan.\<close>

theorem locked_plan_survives:
  assumes "history env n ns k r0 es rs r" and "good_env env" and "locked_in k r0"
  shows "locked_in k r \<and> (\<forall>r' \<in> rs. locked_in k r') \<and> (\<forall>e \<in> set es. claim_call e \<longrightarrow> others_claim env k rs e)"
  using assms(1)
proof (induction rule: history.induct)
  case start
  with assms(3) show ?case by simp
next
  case (edit es rs r r')
  then have "locked_in k r'" by (simp add: locked_in_def was_locked_def)
  with edit.IH show ?case using others_claim_mono by (metis insert_iff subset_insertI)
next
  case (run es rs r s w res t fs r')
  then have k: "locked_in k r" and old: "\<forall>r' \<in> rs. locked_in k r'" "\<forall>e \<in> set es. claim_call e \<longrightarrow> others_claim env k rs e"
    by simp_all
  note new = reconcile_spares [OF assms(2) run.hyps(3,2) k run.hyps(4)]
  have "rs \<subseteq> rs \<union> sent fs" "insert r (sent fs) \<subseteq> rs \<union> sent fs" using history_stored [OF run.hyps(1)] by auto
  with old(2) new(2) have "\<forall>e \<in> set (es @ fs). claim_call e \<longrightarrow> others_claim env k (rs \<union> sent fs) e"
    using others_claim_mono by (metis Un_iff set_append)
  moreover have "\<forall>r' \<in> rs \<union> sent fs. locked_in k r'" using old(1) new(1) by blast
  moreover have "locked_in k r'" using run.hyps(5) k new(1) by blast
  ultimately show ?case by blast
qed

end
