(* ===== verification/Lock_Leak.thy ===== *)
theory Lock_Leak
  imports Lifetime
begin

text \<open>
  The variable \<open>lock\<close> of the validation is declared outside its loop, and once a locked plan set it, it
  is stored in the status of every plan that comes later (\<open>internal/validate\<close>, \<open>ValidateListSnapshots\<close>).
  When the first plan of the loop is a locked one, every plan of the spec is locked before the restore begins, and
  a reconcile restores none of them, those that were never restored included.
\<close>

section \<open>All plans of the spec are locked\<close>

definition all_locked :: "string \<Rightarrow> ebs_snapshot_restore \<Rightarrow> bool" where
  "all_locked j r \<longleftrightarrow> locked_in j r \<and> (\<forall>k. in_spec r k \<longrightarrow> was_locked r k)"

text \<open>A call on a claim that \<open>r\<close> lists under a plan that is not in the spec.\<close>

definition orphan_claim :: "'w env \<Rightarrow> ebs_snapshot_restore \<Rightarrow> event \<Rightarrow> bool" where
  "orphan_claim env r e \<longleftrightarrow> (\<exists>k ps ns ref i calls. \<not> in_spec r k \<and> o_plan r k = Some ps
     \<and> (ns, ref) \<in> plan_claims ps \<and> restore_stage env ns ref i calls \<and> e \<in> set calls)"

lemma sent_same_spec:
  assumes "only_status s t" and "trace t = trace s @ es" and "r \<in> insert (obj s) (sent es)"
  shows "in_spec r = in_spec (obj s)"
proof -
  have "same_resource (obj s) r"
    using assms by (auto simp: only_status_def emits_def sent_def same_resource_iff)
  then show ?thesis by (simp add: same_resource_iff in_spec_def fun_eq_iff)
qed

interpretation leaking: guard "all_locked j" "orphan_claim env" env for j env
proof
  fix s t :: "'a st"
  assume lock: "\<And>k. locking k s t" and only: "only_status s t" and all: "all_locked j (obj s)"
  have "locked_in j (obj s)" using all by (simp add: all_locked_def)
  with lock [of j] obtain es where es: "trace t = trace s @ es" "obj t \<in> insert (obj s) (sent es)"
    unfolding locking_def by blast
  have locked: "locked_in k r" if k: "in_spec (obj s) k" and r: "r \<in> insert (obj t) (sent es)" for k r
  proof -
    have "locked_in k (obj s)" using all k by (simp add: all_locked_def locked_in_def)
    with lock [of k] have "locked_in k (obj t) \<and> (\<exists>fs. trace t = trace s @ fs \<and> (\<forall>r \<in> sent fs. locked_in k r))"
      unfolding locking_def by blast
    with es(1) r show ?thesis by auto
  qed
  have all': "all_locked j r" if r: "r \<in> insert (obj t) (sent es)" for r
  proof -
    have "in_spec r = in_spec (obj s)"
      using r es(2) by (intro sent_same_spec [OF only es(1)]) auto
    with locked [OF _ r] all show ?thesis by (simp add: all_locked_def locked_in_def)
  qed
  show "all_locked j (obj t)
      \<and> (\<exists>es. trace t = trace s @ es \<and> obj t \<in> insert (obj s) (sent es) \<and> (\<forall>r \<in> sent es. all_locked j r))"
    by (intro conjI exI [of _ es] ballI all' es) simp_all
next
  fix r e assume all: "all_locked j r" and "restore_call env (eligible r) e" and "claim_call e"
  then obtain ns ref i calls where "(ns, ref) \<in> eligible r" "restore_stage env ns ref i calls" "e \<in> set calls"
    by (auto simp: restore_call_def)
  moreover from this(1) obtain k ps where "o_plan r k = Some ps" "\<not> (in_spec r k \<and> rps_lock ps)" "(ns, ref) \<in> plan_claims ps"
    by (auto simp: eligible_def)
  moreover from this all have "\<not> in_spec r k" by (auto simp: all_locked_def was_locked_def or_zero_def)
  ultimately show "orphan_claim env r e" unfolding orphan_claim_def by blast
qed

section \<open>The leak\<close>

lemma validated_lock:
  assumes "status_env env" and "validate_plan env (k, plan) (e, l) s = (Ok (e', l'), t)"
  shows "l' = (l \<or> was_locked (obj s) k)" and "esr_spec (obj t) = esr_spec (obj s)" and "was_locked (obj t) k = l'"
    and "\<And>k'. k' \<noteq> k \<Longrightarrow> was_locked (obj t) k' = was_locked (obj s) k'"
proof -
  note out' = triple_okD [where P = "\<lambda>x. obj x = obj s", OF triple_validate_plan [OF assms(1)] refl assms(2), unfolded prod.case]
  note l = conjunct1 [OF out'] and out = conjunct2 [OF out']
  from l show "l' = (l \<or> was_locked (obj s) k)" .
  from out show "esr_spec (obj t) = esr_spec (obj s)" by (simp add: plan_outcome_def)
  from out obtain ps where "o_plan (obj t) k = Some ps" "rps_lock ps = l'" unfolding plan_outcome_def by blast
  then show "was_locked (obj t) k = l'" by (simp add: was_locked_def or_zero_def)
  from out show "was_locked (obj t) k' = was_locked (obj s) k'" if "k' \<noteq> k" for k' using that by (simp add: plan_outcome_def was_locked_def)
qed

lemma leaked_fold:
  assumes env: "status_env env" and "fold_go (validate_plan env) kvs (e, True) s = (Ok v, t)"
    and "\<And>k. k \<in> K \<Longrightarrow> was_locked (obj s) k" and "k \<in> K \<union> fst ` set kvs"
  shows "was_locked (obj t) k \<and> esr_spec (obj t) = esr_spec (obj s)"
  using assms(2-)
proof (induction kvs arbitrary: s e K)
  case Nil
  then show ?case by (simp add: gret_apply)
next
  case (Cons kv kvs)
  obtain j plan where kv: "kv = (j, plan)" by force
  from Cons.prems(1) obtain y u where "validate_plan env (j, plan) (e, True) s = (Ok y, u)"
      and "fold_go (validate_plan env) kvs y u = (Ok v, t)"
    unfolding fold_go.simps kv by (elim gbind_OkE)
  moreover obtain e' l' where y: "y = (e', l')" by force
  ultimately have run: "validate_plan env (j, plan) (e, True) s = (Ok (e', l'), u)"
      and rest': "fold_go (validate_plan env) kvs (e', l') u = (Ok v, t)" by simp_all
  note one = validated_lock [OF env run]
  from rest' one(1) have rest: "fold_go (validate_plan env) kvs (e', True) u = (Ok v, t)" by simp
  have "was_locked (obj u) i" if "i \<in> insert j K" for i
    using one that Cons.prems(2) by (cases "i = j") auto
  moreover have "k \<in> insert j K \<union> fst ` set kvs" using Cons.prems(3) kv by auto
  ultimately show ?case using Cons.IH [OF rest] one(2) by metis
qed

text \<open>The loop over the plans visits \<open>j\<close> first: an order that Go may choose for a map that has \<open>j\<close>.\<close>

definition visits_first :: "'w env \<Rightarrow> restore_plan gomap \<Rightarrow> string \<Rightarrow> bool" where
  "visits_first env plans j \<longleftrightarrow> (\<forall>s. \<exists>ks. range_keys env plans s = (Ok (j # ks), s))"

lemma leaked_validation:
  assumes env: "status_env env" and "locked_in j (obj s)" and "visits_first env (sp_restorePlans (esr_spec (obj s))) j"
    and "validate_list_snapshots env s = (Ok (), t)"
  shows "all_locked j (obj t)"
proof -
  let ?plans = "sp_restorePlans (esr_spec (obj s))"
  obtain ks where ks: "range_keys env ?plans s = (Ok (j # ks), s)" using assms(3) by (auto simp: visits_first_def)
  have keys: "set (j # ks) = set (gm_keys ?plans)" using ks by (metis out.inject(1) prod.inject range_keys_cases)
  let ?kv = "\<lambda>k. (k, the (gm_get ?plans k))"
  from assms(4) ks obtain v where "fold_go (validate_plan env) (map ?kv (j # ks)) (None, False) s = (Ok v, t)"
    by (auto simp: validate_list_snapshots_def range_map_def go_run split: prod.splits out.splits option.splits)
  then obtain y u where "validate_plan env (?kv j) (None, False) s = (Ok y, u)"
      and "fold_go (validate_plan env) (map ?kv ks) y u = (Ok v, t)"
    unfolding list.map fold_go.simps by (elim gbind_OkE)
  moreover obtain e l where y: "y = (e, l)" by force
  ultimately have run: "validate_plan env (?kv j) (None, False) s = (Ok (e, l), u)"
      and rest: "fold_go (validate_plan env) (map ?kv ks) (e, l) u = (Ok v, t)" by simp_all
  note one = validated_lock [OF env run]
  have l: "l = True" using one(1) assms(2) by (simp add: locked_in_def)
  have after: "was_locked (obj t) k \<and> esr_spec (obj t) = esr_spec (obj u)" if "k \<in> set (j # ks)" for k
  proof (rule leaked_fold [OF env rest [unfolded l], where K = "{j}"])
    show "k \<in> {j} \<union> fst ` set (map ?kv ks)" using that by (simp add: image_image)
  qed (use one(3) l in simp)
  have "esr_spec (obj t) = esr_spec (obj s)" using after [of j] one(2) by simp
  then have spec: "in_spec (obj t) = in_spec (obj s)" by (simp add: in_spec_def fun_eq_iff)
  have "k \<in> set (j # ks)" if "in_spec (obj s) k" for k
    using that keys by (simp add: in_spec_def set_gm_keys)
  with after spec assms(2) show ?thesis by (auto simp: all_locked_def locked_in_def)
qed

lemma leak_steps:
  assumes env: "good_env env" and j: "locked_in j (obj s)" and first: "visits_first env (sp_restorePlans (esr_spec (obj s))) j"
    and run: "reconcile_resource env s = (res, t)"
  shows "guarding (locked_in j) (orphan_claim env) s t \<and> (\<forall>d. res = Ok d \<longrightarrow> all_locked j (obj t) \<and> in_spec (obj t) = in_spec (obj s))"
proof -
  have st: "status_env env" using env by (simp add: good_env_def)
  have only: "only_status s t" by (rule keepsD [OF only_status_reconcile [OF env] run])
  obtain x u where first_: "until_validation env s = (x, u)" by force
  have "guarding (locked_in j) (\<lambda>r. others_claim env j {r}) s u"
    using keepsD [OF sparing.until_step [OF st] first_] .
  then have su: "guarding (locked_in j) (orphan_claim env) s u"
    by (rule guarding_unclaimed) (rule keepsD [OF unclaiming_validation [OF st] first_])
  show ?thesis
  proof (cases x)
    case (Ok y)
    then have later: "after_validation env u = (res, t)" using run first_ by (simp add: reconcile_parts gbind_apply)
    let ?prepare = "gbind (set_init_status_restore_plan env) (\<lambda>_. set_phase env PhaseValidating)"
    have "gbind ?prepare (\<lambda>_. validate_list_snapshots env) s = (Ok (), u)"
      using first_ Ok by (simp add: until_validation_def gbind_assoc)
    then obtain y' v where v: "?prepare s = (Ok y', v)" and valid: "validate_list_snapshots env v = (Ok (), u)"
      by (rule gbind_OkE)
    have "keeps (guarding (locked_in j) (\<lambda>r. others_claim env j {r})) ?prepare"
      by (intro sparing.rules sparing.init_step sparing.phase_step st)
    from keepsD [OF this v] j have jv: "locked_in j (obj v)" by (simp add: guarding_def)
    have "keeps only_status ?prepare"
      by (intro only.rules only_status_init only_status_phase st)
    from keepsD [OF this v] have "esr_spec (obj v) = esr_spec (obj s)" by (simp add: only_status_def same_resource_iff)
    with first have all: "all_locked j (obj u)" by (intro leaked_validation [OF st jv _ valid]) simp
    have ut: "guarding (all_locked j) (orphan_claim env) u t" by (rule keepsD [OF leaking.later_steps [OF env] later])
    with all have "all_locked j (obj t)" by (simp add: guarding_def)
    moreover have "guarding (locked_in j) (orphan_claim env) u t"
      by (rule guarding_weaken [OF ut]) (use all in \<open>simp_all add: all_locked_def\<close>)
    with su have "guarding (locked_in j) (orphan_claim env) s t" by (rule guarding_trans)
    moreover have "in_spec (obj t) = in_spec (obj s)"
      using only by (simp add: only_status_def same_resource_iff in_spec_def fun_eq_iff)
    ultimately show ?thesis by blast
  next
    case (Err e)
    with run first_ su show ?thesis by (auto simp: reconcile_parts gbind_apply)
  next
    case (Panic p)
    with run first_ su show ?thesis by (auto simp: reconcile_parts gbind_apply)
  qed
qed

text \<open>C7: A lock leaks. When the loop of the validation visits a locked plan of the spec first, a reconcile restores no plan of
  the spec, though it may never have been restored: each call on a claim belongs to a plan that is not in the spec. Yet
  a run that ends without an error, so one that ends in the phase \<open>Completed\<close> too, leaves every plan of the
  spec locked, and a locked plan is not restored by any later run either.\<close>

theorem leaked_lock_skips_restore:
  assumes "good_env env" and "reconcile env n ns s = (res, t)" and "k_get_cr env n ns (world s) = (Inr r, w)"
    and "locked_in j r" and "visits_first env (sp_restorePlans (esr_spec r)) j" and "mutations t = mutations s @ es"
  shows "(\<forall>e \<in> set es. claim_call e \<longrightarrow> (\<exists>r' \<in> insert r (sent es). orphan_claim env r' e))
    \<and> (\<forall>d k. res = Ok d \<longrightarrow> in_spec r k \<longrightarrow> was_locked (obj t) k)"
proof -
  let ?s = "s\<lparr>world := w, trace := trace s @ [EGetCR n ns], obj := r\<rparr>"
  have es: "mutations t = mutations ?s @ es" using assms(6) by (simp add: mutations_def)
  from leak_steps [OF assms(1) _ _ reconcile_reads [OF assms(2,3)], of j] assms(4,5)
  have g: "guarding (locked_in j) (orphan_claim env) ?s t"
    and l: "\<forall>d. res = Ok d \<longrightarrow> all_locked j (obj t) \<and> in_spec (obj t) = in_spec r" by simp_all
  from guarding_calls(2) [OF g _ es] l assms(4) show ?thesis by (simp add: all_locked_def)
qed

end
