(* ===== verification/Status_Properties.thy ===== *)
theory Status_Properties
  imports Status_Manager
begin

text \<open>
  The properties of \<open>internal/status\<close>: what \<open>Patch\<close> sends, that the setters are updates of an
  abstract map from plan names to plan statuses, and that the list of hook statuses is a
  store with one entry per hook and event.
\<close>

text \<open>C28: \<open>Patch\<close> sends exactly what changed: when the mutation leaves the status as it is (up to the
  time stamp and to nil and empty maps) nothing happens, not even a request; otherwise one request is
  made, which carries the resource with the new status, and that resource is the one in memory,
  also when the server refuses it.\<close>

theorem patch_contract:
  assumes "status_env env" and "mutate (the_status s) = Ok after" and "patch env mutate s = (r, t)"
  shows "if status_equiv (the_status s) after then r = Ok () \<and> t = s
    else trace t = trace s @ [EPatchStatus (obj t)] \<and> obj t = (obj s)\<lparr>esr_status := the_status t\<rparr>
       \<and> status_equiv (the_status t) after \<and> (\<forall>p. r \<noteq> Panic p) \<and> (patches_succeed env \<longrightarrow> r = Ok ())"
proof (cases "status_equiv (the_status s) after")
  case True
  with assms patch_skips [of env mutate s after] show ?thesis by (simp add: status_env_def)
next
  case False
  from assms(1) False have cmp: "\<not> k_cmp_equal env (the_status s) after" and echo: "patch_echo env"
    by (simp_all add: status_env_def cmp_ok_def)
  obtain now w where now: "k_now env (world s) = (now, w)" by force
  let ?new = "(obj s)\<lparr>esr_status := after\<lparr>rs_lastUpdated := Some now\<rparr>\<rparr>"
  from assms(2,3) cmp now have "send_status env (obj s) ?new (s\<lparr>world := w\<rparr>) = (r, t)"
    by (simp add: patch_def go_run)
  note run = send_status_run [OF echo this]
  then have "status_equiv (the_status t) after" by (simp add: status_equiv_iff)
  with run False show ?thesis by simp
qed

context status_setter
begin

lemma twice:
  assumes "status_env env" and "\<And>st. status_equiv (effect st) (effect (effect st))"
  shows "setter env (snd (setter env s)) = (Ok (), snd (setter env s))"
  by (rule repeated [OF assms(1) prod.collapse [symmetric] assms(2)])

end

lemma upsert_hook_again: "upsert_hook h (upsert_hook h hs) = upsert_hook h hs"
proof (cases "replace_hook h hs")
  case None
  then have "replace_hook h (hs @ [h]) = Some (hs @ [h])"
    by (induction hs) (auto split: if_splits)
  with None show ?thesis by (simp add: upsert_hook_def)
next
  case (Some hs')
  then have "replace_hook h hs' = Some hs'"
    by (induction hs arbitrary: hs') (auto split: if_splits)
  with Some show ?thesis by (simp add: upsert_hook_def)
qed

text \<open>Every setter is idempotent: called again with the same arguments it changes nothing and sends
  nothing.\<close>

lemma setters_idempotent:
  assumes "status_env env"
  shows "set_init_status_restore_plan env (snd (set_init_status_restore_plan env s)) = (Ok (), snd (set_init_status_restore_plan env s))
    \<and> set_phase env p (snd (set_phase env p s)) = (Ok (), snd (set_phase env p s))
    \<and> set_active_plan env k (snd (set_active_plan env k s)) = (Ok (), snd (set_active_plan env k s))
    \<and> set_validate_restore_plan env k time l cs os (snd (set_validate_restore_plan env k time l cs os s))
        = (Ok (), snd (set_validate_restore_plan env k time l cs os s))
    \<and> set_scale_restore_plan env k n cs os (snd (set_scale_restore_plan env k n cs os s))
        = (Ok (), snd (set_scale_restore_plan env k n cs os s))
    \<and> set_restore_from_plan env k l cs os (snd (set_restore_from_plan env k l cs os s))
        = (Ok (), snd (set_restore_from_plan env k l cs os s))
    \<and> set_hooks_restore_from_plan env k h (snd (set_hooks_restore_from_plan env k h s))
        = (Ok (), snd (set_hooks_restore_from_plan env k h s))"
  by (intro conjI init.twice [OF assms] phase.twice [OF assms] active.twice [OF assms]
      validated.twice [OF assms] scaled.twice [OF assms] restored.twice [OF assms] hooked.twice [OF assms])
    (simp_all add: plan_status_put_plan status_equiv_iff upsert_hook_again)

text \<open>C29: The setters of a plan refine the update of one key of a map: the entry of the plan (the zero
  value when there is none) gets the new fields, its other fields, all other plans and the rest of
  the status stay. A nil map is created, never written to.\<close>

theorem setters_refine_map_update:
  "(\<exists>st'. mutate_validate k time l cs os st = Ok st' \<and> plan_status st' = (plan_status st)(k \<mapsto>
        (or_zero (plan_status st k))\<lparr>rps_lock := l, rps_snapshotRestoreTime := time, rps_clusters := cs, rps_operators := os\<rparr>)
      \<and> rs_phase st' = rs_phase st \<and> rs_activePlan st' = rs_activePlan st)
   \<and> (\<exists>st'. mutate_scale k n cs os st = Ok st' \<and> plan_status st' = (plan_status st)(k \<mapsto>
        (or_zero (plan_status st k))\<lparr>rps_clusters := cs, rps_operators := os, rps_countScaleUp := n\<rparr>)
      \<and> rs_phase st' = rs_phase st \<and> rs_activePlan st' = rs_activePlan st)
   \<and> (\<exists>st'. mutate_restore k l cs os st = Ok st' \<and> plan_status st' = (plan_status st)(k \<mapsto>
        (or_zero (plan_status st k))\<lparr>rps_clusters := cs, rps_operators := os, rps_lock := l\<rparr>)
      \<and> rs_phase st' = rs_phase st \<and> rs_activePlan st' = rs_activePlan st)
   \<and> (\<exists>st' hs. mutate_hooks k h st = Ok st' \<and> plan_status st' = (plan_status st)(k \<mapsto>
        (or_zero (plan_status st k))\<lparr>rps_hooks := hs\<rparr>)
      \<and> rs_phase st' = rs_phase st \<and> rs_activePlan st' = rs_activePlan st)"
proof -
  have put: "plan_status (put_plan k f st) = (plan_status st)(k \<mapsto> f (or_zero (plan_status st k)))" for f
    by (auto simp: plan_status_put_plan or_zero_def fun_eq_iff split: option.split)
  show ?thesis by (auto simp: mutate_eqs put)
qed

section \<open>The hook statuses of a plan\<close>

definition hook_key :: "restore_hook_status \<Rightarrow> string \<times> restore_event" where
  "hook_key h = (rhs_name h, rhs_event h)"

lemma replace_hook_None: "replace_hook h hs = None \<longleftrightarrow> hook_key h \<notin> hook_key ` set hs"
  by (induction hs) (auto simp: hook_key_def)

lemma replace_hook_Some:
  "replace_hook h hs = Some hs' \<Longrightarrow> map hook_key hs' = map hook_key hs
     \<and> find (\<lambda>x. hook_key x = hook_key h) hs' = Some h
     \<and> (\<forall>key. key \<noteq> hook_key h \<longrightarrow> find (\<lambda>x. hook_key x = key) hs' = find (\<lambda>x. hook_key x = key) hs)"
  by (induction hs arbitrary: hs') (auto simp: hook_key_def split: if_splits)

lemma find_append: "find P (xs @ ys) = (case find P xs of None \<Rightarrow> find P ys | Some x \<Rightarrow> Some x)"
  by (induction xs) auto

lemma upsert_hook_key:
  "find (\<lambda>x. hook_key x = hook_key h) (upsert_hook h hs) = Some h
   \<and> (\<forall>key. key \<noteq> hook_key h \<longrightarrow> find (\<lambda>x. hook_key x = key) (upsert_hook h hs) = find (\<lambda>x. hook_key x = key) hs)
   \<and> (distinct (map hook_key hs) \<longrightarrow> distinct (map hook_key (upsert_hook h hs)))"
proof (cases "replace_hook h hs")
  case None
  then have new: "hook_key h \<notin> hook_key ` set hs" by (simp add: replace_hook_None)
  then have "find (\<lambda>x. hook_key x = hook_key h) hs = None" unfolding find_None_iff by (metis image_eqI)
  with None new show ?thesis by (auto simp: upsert_hook_def find_append split: option.split)
next
  case (Some hs')
  with replace_hook_Some [OF Some] show ?thesis by (simp add: upsert_hook_def)
qed

text \<open>C31: The hook statuses of a plan are a store with at most one entry per hook name and event: what
  \<open>SetHooksRestoreFromPlan\<close> writes is what is found there afterwards, the entries of other hooks stay,
  and no key appears twice if none did before.\<close>

theorem hook_status_store:
  assumes "mutate_hooks k h st = Ok st'"
  shows "\<exists>hs'. plan_status st' k = Some ((or_zero (plan_status st k))\<lparr>rps_hooks := hs'\<rparr>)
    \<and> find (\<lambda>x. hook_key x = hook_key h) hs' = Some h
    \<and> (\<forall>key. key \<noteq> hook_key h \<longrightarrow> find (\<lambda>x. hook_key x = key) hs'
         = find (\<lambda>x. hook_key x = key) (rps_hooks (or_zero (plan_status st k))))
    \<and> (distinct (map hook_key (rps_hooks (or_zero (plan_status st k)))) \<longrightarrow> distinct (map hook_key hs'))"
proof -
  let ?hs = "rps_hooks (or_zero (plan_status st k))"
  from assms have "st' = put_plan k (\<lambda>p. p\<lparr>rps_hooks := upsert_hook h (rps_hooks p)\<rparr>) st"
    by (simp add: mutate_hooks_eq)
  then have "plan_status st' k = Some ((or_zero (plan_status st k))\<lparr>rps_hooks := upsert_hook h ?hs\<rparr>)"
    by (simp add: plan_status_put_plan or_zero_def split: option.split)
  with upsert_hook_key [of h ?hs] show ?thesis by blast
qed

end
