(* ===== verification/Validate_Properties.thy ===== *)
theory Validate_Properties
  imports Validate
begin

text \<open>
  The properties of \<open>internal/validate\<close>: the format of a snapshot time, the search for the
  latest one, the pairing of claims with snapshots, and what the validation of all plans
  leaves in the status.
\<close>

section \<open>Times and snapshots\<close>

text \<open>C27: The time format is exact: the accepted strings are the twelve-digit texts of a year below
  10000, a month, a day that exists in that month, an hour and a minute, and each is read as the
  numbers it was printed from.\<close>

theorem snapshot_time_roundtrip:
  "parse_snapshot_time s = Some (y, mo, d, h, mi) \<longleftrightarrow>
     y < 10000 \<and> in_range y mo d h mi \<and> s = format_snapshot_time y mo d h mi"
  using parse_Some parse_format by blast

text \<open>C26: The search through claims and snapshots returns the greatest time suffix, in the order of
  strings, of the snapshots that are named after one of the claims and the plan, and nothing when
  there is none.\<close>

theorem latest_time_is_greatest:
  assumes "vs \<in> set vsList" and "p \<in> set pvcList"
    and "vs_name vs = pvc_objName p @ ''-'' @ planName @ ''-'' @ when"
  shows "when \<le> cluster_latest_time planName pvcList vsList
    \<and> (cluster_latest_time planName pvcList vsList = []
       \<or> (\<exists>p' \<in> set pvcList. \<exists>vs' \<in> set vsList. vs_name vs' =
            pvc_objName p' @ ''-'' @ planName @ ''-'' @ cluster_latest_time planName pvcList vsList))"
proof -
  from assms have "when \<in> when_set planName pvcList vsList" by (auto simp: when_set_def)
  then show ?thesis using cluster_latest_time_max [of planName pvcList vsList] by (auto simp: when_set_def)
qed

text \<open>C25: The two loops over snapshots and claims compute a selection: they fail exactly when a snapshot
  named after a claim, the plan and the time is not ready to use, and otherwise return one reference
  for each such pair, in the order of the snapshots and then of the claims.\<close>

theorem collect_refs_selection:
  "collect_refs cluster planName t (snapshot_pairs vsList pvcList) [] =
     (let chosen = filter (\<lambda>(vs, p). vs_name vs = pvc_objName p @ ''-'' @ planName @ ''-'' @ t)
            (List.product vsList pvcList)
      in case find (\<lambda>(vs, p). \<not> snapshot_ready vs) chosen of
           Some (vs, p) \<Rightarrow> Inl (Errorf (''snapshot '' @ vs_name vs @ '' is not ready to use''))
         | None \<Rightarrow> Inr (map (\<lambda>(vs, p). snapshot_ref cluster vs p) chosen))"
proof -
  have pairs: "snapshot_pairs vsList pvcList = List.product vsList pvcList"
    by (simp add: snapshot_pairs_def product_concat_map)
  have "collect_refs cluster planName t ps acc =
     (let chosen = filter (\<lambda>(vs, p). vs_name vs = pvc_objName p @ ''-'' @ planName @ ''-'' @ t) ps
      in case find (\<lambda>(vs, p). \<not> snapshot_ready vs) chosen of
           Some (vs, p) \<Rightarrow> Inl (Errorf (''snapshot '' @ vs_name vs @ '' is not ready to use''))
         | None \<Rightarrow> Inr (acc @ map (\<lambda>(vs, p). snapshot_ref cluster vs p) chosen))" for ps acc
    by (induction cluster planName t ps acc rule: collect_refs.induct) (auto simp: Let_def split: option.splits)
  from this [of "List.product vsList pvcList" "[]"] pairs show ?thesis by (simp only: append_Nil)
qed

section \<open>All plans\<close>

text \<open>C23: A validation that succeeds has found, for every plan of the spec, a time in the right format
  and, for every cluster, in the order of the spec, at least one snapshot, each named after its
  claim, the plan and that time; every operator's deployment was found; the phase is as it was.\<close>

theorem validation_outcome:
  assumes "status_env env" and "validate_list_snapshots env s = (Ok (), t)"
    and "gm_get (sp_restorePlans (esr_spec (obj s))) k = Some plan"
  shows "o_phase (obj t) = o_phase (obj s)
    \<and> (\<exists>ps. the_plan t k = Some ps \<and> parse_snapshot_time (rps_snapshotRestoreTime ps) \<noteq> None
         \<and> list_all2 (cluster_checked k (rps_snapshotRestoreTime ps)) (rp_clusters plan) (rps_clusters ps)
         \<and> list_all2 operator_checked (rp_operators plan) (rps_operators ps))"
proof -
  from triple_okD [OF triple_validate_list [OF assms(1)] _ assms(2), of "obj s"]
  have "validated_all (obj s) None (obj t)" by simp
  with assms(3) show ?thesis
    unfolding validated_all_def plan_settled_def plan_checked_def by (simp, metis)
qed

text \<open>C24: A validation, failed or not, keeps what earlier runs recorded: the hook statuses and the
  scale-up mark of every plan stay, a locked plan stays locked and keeps the time it was restored
  to, a plan that is not in the spec is not touched; it fails only with the phase \<open>Failed\<close>, never
  panics, and changes nothing but the status.\<close>

theorem validation_keeps:
  assumes "status_env env" and "patches_succeed env" and "validate_list_snapshots env s = (res, t)"
  shows "(\<forall>p. res \<noteq> Panic p) \<and> (\<forall>e. res = Err e \<longrightarrow> o_phase (obj t) = PhaseFailed)
    \<and> (\<exists>es. mutations t = mutations s @ es \<and> (\<forall>ev \<in> set es. is_status_patch ev))
    \<and> (if gm_get (sp_restorePlans (esr_spec (obj s))) k = None then the_plan t k = the_plan s k
       else \<exists>ps. the_plan t k = Some ps
         \<and> rps_hooks ps = rps_hooks (or_zero (the_plan s k))
         \<and> rps_countScaleUp ps = rps_countScaleUp (or_zero (the_plan s k))
         \<and> (rps_lock (or_zero (the_plan s k)) \<longrightarrow> rps_lock ps
              \<and> (rps_snapshotRestoreTime (or_zero (the_plan s k)) \<noteq> [] \<longrightarrow>
                   rps_snapshotRestoreTime ps = rps_snapshotRestoreTime (or_zero (the_plan s k)))))"
proof -
  note T = triple_validate_list [OF assms(1), of "obj s"]
  have calls: "\<exists>es. mutations t = mutations s @ es \<and> (\<forall>ev \<in> set es. is_status_patch ev)"
    using keepsD [OF validate_list_snapshots_evolves [OF assms(1), where A = is_status_patch] assms(3)]
    by (auto simp: evolves_def dest: emits_mutations)
  obtain err where all: "validated_all (obj s) err (obj t)" and err: "\<And>e. res = Err e \<Longrightarrow> err \<noteq> None"
    and np: "\<forall>p. res \<noteq> Panic p"
  proof (cases res)
    case (Ok x)
    with triple_okD [OF T _ assms(3) [unfolded Ok]] show thesis by (intro that) auto
  next
    case (Err e)
    with triple_errD [OF T _ assms(3) [unfolded Err]] assms(2) show thesis by (intro that) auto
  next
    case (Panic p)
    with triple_no_panic [OF T, of s p t] assms(3) show thesis by simp
  qed
  from all err have failed: "\<forall>e. res = Err e \<longrightarrow> o_phase (obj t) = PhaseFailed"
    by (auto simp: validated_all_def)
  have kept: "if gm_get (sp_restorePlans (esr_spec (obj s))) k = None then the_plan t k = the_plan s k
       else \<exists>ps. the_plan t k = Some ps
         \<and> rps_hooks ps = rps_hooks (or_zero (the_plan s k))
         \<and> rps_countScaleUp ps = rps_countScaleUp (or_zero (the_plan s k))
         \<and> (rps_lock (or_zero (the_plan s k)) \<longrightarrow> rps_lock ps
              \<and> (rps_snapshotRestoreTime (or_zero (the_plan s k)) \<noteq> [] \<longrightarrow>
                   rps_snapshotRestoreTime ps = rps_snapshotRestoreTime (or_zero (the_plan s k))))"
  proof (cases "gm_get (sp_restorePlans (esr_spec (obj s))) k")
    case (Some plan)
    with all obtain ps where "the_plan t k = Some ps"
      and "plan_settled (obj s) {k. gm_get (sp_restorePlans (esr_spec (obj s))) k \<noteq> None} err k plan ps"
      unfolding validated_all_def by metis
    with Some show ?thesis by (auto simp: plan_settled_def known_time_def was_locked_def)
  qed (use all in \<open>simp add: validated_all_def\<close>)
  from np failed calls kept show ?thesis by (intro conjI)
qed

text \<open>The lock of one plan leaks into the next ones of the loop: once a locked plan has been seen, a
  plan that was never restored is recorded as locked too.\<close>

lemma lock_leaks:
  assumes "status_env env" and "validate_plan env (k, plan) (lastErr, True) s = (Ok v, t)"
  shows "\<exists>ps. the_plan t k = Some ps \<and> rps_lock ps"
proof -
  from triple_okD [OF triple_validate_plan [OF assms(1)] _ assms(2), of "obj s"]
  show ?thesis by (auto simp: plan_outcome_def split: prod.splits)
qed

end
