(* ===== verification/Restore_Properties.thy ===== *)
theory Restore_Properties
  imports Restore
begin

text \<open>
  The properties of \<open>internal/restore\<close>: what the restore of one claim does on every path,
  what a whole restore leaves in the status, and which claims it may touch.
\<close>

section \<open>One claim\<close>

text \<open>C10: Restoring one claim goes through fixed stages, whatever the server answers: the existing
  claim is deleted, then a claim rebuilt from it is created, then the claim is bound to a volume.
  Success means that all of them were made, an error leaves the calls of one of them, and the
  resource is not changed.\<close>

theorem restore_pvc_stages:
  assumes "poll_ok env" and "restore_pvc env namespace ref s = (res, t)"
  shows "(\<forall>p. res \<noteq> Panic p) \<and> obj t = obj s
    \<and> (\<exists>k calls. restore_stage env namespace ref k calls \<and> mutations t = mutations s @ calls
         \<and> (res = Ok () \<longrightarrow> k = 3))"
proof -
  note T = triple_restore_pvc [OF assms(1), of "obj s" "mutations s" namespace ref]
  show ?thesis
  proof (cases res)
    case (Ok x)
    with triple_okD [OF T _ assms(2) [unfolded Ok]] show ?thesis by auto
  next
    case (Err e)
    with triple_errD [OF T _ assms(2) [unfolded Err]] show ?thesis by (auto simp: staged_def)
  next
    case (Panic p)
    with triple_no_panic [OF T, of s p t] assms(2) show ?thesis by simp
  qed
qed

lemma poll_last_read:
  assumes "poll_ok env" and "poll_until env iv to cond s = (Ok (), t)" and "quiet ev"
    and cond: "\<And>s b t. cond s = (Ok b, t) \<Longrightarrow> trace t = trace s @ [ev] \<and> (b \<longrightarrow> G (world t))"
  obtains waits where "trace t = trace s @ waits @ [ev]" and "list_all quiet waits" and "G (world t)"
proof -
  have "\<exists>waits. trace u = trace s' @ waits @ [ev] \<and> list_all quiet waits \<and> G (world u)"
    if "poll_run cond s' r u" and "r = Ok ()" for s' r u
    using that
  proof (induction rule: poll_run.induct)
    case (found s t)
    then show ?case using cond [OF found.hyps] by (intro exI [of _ "[]"]) simp
  next
    case (again s t w r u)
    then obtain waits where "trace u = trace t @ waits @ [ev]" "list_all quiet waits" "G (world u)" by auto
    with cond [OF again.hyps(1)] assms(3) show ?case by (intro exI [of _ "ev # waits"]) simp
  qed simp_all
  moreover have "poll_run cond (s\<lparr>trace := trace s @ [EPoll iv to]\<rparr>) (Ok ()) t"
    using assms(1,2) by (simp add: poll_ok_def poll_until_run)
  ultimately obtain waits where "trace t = trace s @ (EPoll iv to # waits) @ [ev]" "list_all quiet waits" "G (world t)"
    by fastforce
  then show thesis by (intro that [of "EPoll iv to # waits"]) simp_all
qed

text \<open>The server has just answered that there is no such claim, or that it is bound.\<close>

definition gone :: "'w env \<Rightarrow> string \<Rightarrow> string \<Rightarrow> 'w \<Rightarrow> bool" where
  "gone env n ns w' \<longleftrightarrow> (\<exists>w e. k_get_pvc env n ns w = (Inl e, w') \<and> is_not_found e)"

definition is_bound :: "'w env \<Rightarrow> string \<Rightarrow> string \<Rightarrow> 'w \<Rightarrow> bool" where
  "is_bound env n ns w' \<longleftrightarrow> (\<exists>w c. k_get_pvc env n ns w = (Inr c, w') \<and> pvc_phase c = ''Bound'')"

lemma goneI: "k_get_pvc env n ns w = (Inl e, w') \<Longrightarrow> is_not_found e \<Longrightarrow> gone env n ns w'"
  unfolding gone_def by blast

lemma is_boundI: "k_get_pvc env n ns w = (Inr c, w') \<Longrightarrow> pvc_phase c = ''Bound'' \<Longrightarrow> is_bound env n ns w'"
  unfolding is_bound_def by blast

lemma wait_pvc_deleted_Ok:
  assumes "poll_ok env" and "wait_pvc_deleted env n ns s = (Ok (), t)"
  obtains waits where "trace t = trace s @ waits @ [EGetPVC n ns]" and "list_all quiet waits" and "gone env n ns (world t)"
  by (rule poll_last_read [OF assms(1) assms(2) [unfolded wait_pvc_deleted_def], where ev = "EGetPVC n ns" and G = "gone env n ns"])
    (auto simp: go_run intro: that split: prod.splits sum.splits if_splits, erule (1) goneI)

lemma wait_pvc_bound_Ok:
  assumes "poll_ok env" and "wait_pvc_bound env n ns s = (Ok (), t)"
  obtains waits where "trace t = trace s @ waits @ [EGetPVC n ns]" and "list_all quiet waits" and "is_bound env n ns (world t)"
  by (rule poll_last_read [OF assms(1) assms(2) [unfolded wait_pvc_bound_def], where ev = "EGetPVC n ns" and G = "is_bound env n ns"])
    (auto simp: go_run intro: that is_boundI split: prod.splits sum.splits)

lemma wait_pv_quiet:
  assumes "poll_ok env" and "wait_pv_provisioned env n ns uid s = (x, t)"
  obtains waits where "trace t = trace s @ waits" and "list_all quiet waits"
proof -
  have "keeps (emits (\<lambda>_. False)) (poll_volumes env n ns uid)"
    unfolding poll_volumes_def by (intro emitted.poll_until assms(1) emitted.world_rules) (auto split: option.splits intro: emitted.world_rules)
  then have "keeps (emits (\<lambda>_. False)) (wait_pv_provisioned env n ns uid)"
    unfolding wait_pv_provisioned_def by (intro emitted.world_rules)
  from keepsD [OF this assms(2)] show thesis by (auto simp: emits_def list_all_iff intro: that)
qed

lemma provision_pvc_Ok:
  assumes "poll_ok env" and "provision_pvc env ns ref new u = (Ok (), t)"
  obtains created w v listing waits where "k_create_pvc env new (world u) = (Inr created, w)"
    and "trace t = trace u @ ECreatePVC new # listing @ EPatchPVC (created\<lparr>pvc_volumeName := v\<rparr>) # waits @ [EGetPVC (sr_pvcName ref) ns]"
    and "list_all quiet listing" and "list_all quiet waits" and "is_bound env (sr_pvcName ref) ns (world t)"
  using assms(2) unfolding provision_pvc_def Let_def
proof (elim gbind_OkE)
  fix created u1 v u2 x u3
  assume create: "api (ECreatePVC new) (k_create_pvc env new) u = (Ok created, u1)"
    and listing: "wait_pv_provisioned env (sr_pvcName ref) ns (om_uid (pvc_meta created)) u1 = (Ok v, u2)"
    and patch: "api (EPatchPVC (created\<lparr>pvc_volumeName := v\<rparr>)) (k_patch_pvc env created (created\<lparr>pvc_volumeName := v\<rparr>)) u2 = (Ok x, u3)"
    and bound: "wait_pvc_bound env (sr_pvcName ref) ns u3 = (Ok (), t)"
  obtain w where "k_create_pvc env new (world u) = (Inr created, w)" "trace u1 = trace u @ [ECreatePVC new]"
    using create by (auto simp: api_run split: prod.splits sum.splits)
  moreover obtain ls where "trace u2 = trace u1 @ ls" "list_all quiet ls"
    by (rule wait_pv_quiet [OF assms(1) listing])
  moreover have "trace u3 = trace u2 @ [EPatchPVC (created\<lparr>pvc_volumeName := v\<rparr>)]"
    using patch by (auto simp: api_run split: prod.splits sum.splits)
  moreover obtain ws where "trace t = trace u3 @ ws @ [EGetPVC (sr_pvcName ref) ns]" "list_all quiet ws"
      "is_bound env (sr_pvcName ref) ns (world t)"
    by (rule wait_pvc_bound_Ok [OF assms(1) bound])
  ultimately show thesis by (intro that [of created w ls v ws]) simp_all
qed

lemma restore_pvc_Ok:
  assumes "poll_ok env" and "restore_pvc env ns ref s = (Ok (), t)"
  obtains old new u before where "provision_pvc env ns ref new u = (Ok (), t)"
    and "trace u = trace s @ before @ [EGetPVC (sr_pvcName ref) ns]" and "filter (\<lambda>e. \<not> quiet e) before = delete_calls old"
    and "new = rebuilt ref old" and "gone env (sr_pvcName ref) ns (world u)"
proof -
  obtain a w where get: "k_get_pvc env (sr_pvcName ref) ns (world s) = (a, w)" by force
  let ?s = "s\<lparr>world := w, trace := trace s @ [EGetPVC (sr_pvcName ref) ns]\<rparr>"
  show thesis
  proof (cases a)
    case (Inl e)
    with get assms(2) have nf: "is_not_found e"
      by (cases "is_not_found e") (simp_all add: restore_pvc_def go_run Let_def)
    with get Inl assms(2) have "provision_pvc env ns ref (rebuilt ref None) ?s = (Ok (), t)"
      by (simp add: restore_pvc_def go_run Let_def rebuilt_def)
    then show thesis
      by (rule that [of _ _ "[]" None]) (use get Inl nf in \<open>auto simp: goneI delete_calls_def\<close>)
  next
    case (Inr p)
    with get assms(2) have "gbind (api (EDeletePVC p) (k_delete_pvc env p)) (\<lambda>_.
        gbind (wait_pvc_deleted env (sr_pvcName ref) ns) (\<lambda>_.
        provision_pvc env ns ref (rebuilt ref (Some p)))) ?s = (Ok (), t)"
      by (simp add: restore_pvc_def Let_def gbind_apply [of "attempt m" for m] attempt_apply api_run rebuilt_def)
    then show thesis
    proof (elim gbind_OkE)
      fix x y :: unit and u v
      assume del: "api (EDeletePVC p) (k_delete_pvc env p) ?s = (Ok x, u)"
        and wait: "wait_pvc_deleted env (sr_pvcName ref) ns u = (Ok y, v)"
        and prov: "provision_pvc env ns ref (rebuilt ref (Some p)) v = (Ok (), t)"
      obtain waits where "trace v = trace u @ waits @ [EGetPVC (sr_pvcName ref) ns]" "list_all quiet waits"
          "gone env (sr_pvcName ref) ns (world v)"
        by (rule wait_pvc_deleted_Ok [OF assms(1), of "sr_pvcName ref" ns u v]) (use wait in simp)
      moreover have "trace u = trace s @ [EGetPVC (sr_pvcName ref) ns, EDeletePVC p]"
        using del by (auto simp: api_run split: prod.splits sum.splits)
      ultimately show thesis
        by (intro that [OF prov, of "[EGetPVC (sr_pvcName ref) ns, EDeletePVC p] @ waits" "Some p"])
          (auto simp: delete_calls_def list_all_iff)
    qed
  qed
qed

text \<open>C11: When the restore of a claim succeeds, the last call before the one creation is a read the server answered
  with "not found", in the state the claim is created from; before it at most the old claim was deleted.
  After the creation volumes are listed, the created claim is patched, and the run ends with a read that
  answered that the claim of that name is bound.\<close>

theorem restored_claim_bound:
  assumes "poll_ok env" and "restore_pvc env namespace ref s = (Ok (), t)"
  shows "\<exists>old u before w created v listing waits.
      trace u = trace s @ before @ [EGetPVC (sr_pvcName ref) namespace]
    \<and> filter (\<lambda>e. \<not> quiet e) before = delete_calls old
    \<and> gone env (sr_pvcName ref) namespace (world u)
    \<and> provision_pvc env namespace ref (rebuilt ref old) u = (Ok (), t)
    \<and> k_create_pvc env (rebuilt ref old) (world u) = (Inr created, w)
    \<and> trace t = trace u @ ECreatePVC (rebuilt ref old) # listing @ EPatchPVC (created\<lparr>pvc_volumeName := v\<rparr>) # waits
        @ [EGetPVC (sr_pvcName ref) namespace]
    \<and> list_all quiet listing \<and> list_all quiet waits
    \<and> is_bound env (sr_pvcName ref) namespace (world t)"
proof (rule restore_pvc_Ok [OF assms])
  fix old new u before
  assume "provision_pvc env namespace ref new u = (Ok (), t)" and "new = rebuilt ref old"
  moreover from this(1) obtain created w v listing waits where "k_create_pvc env new (world u) = (Inr created, w)"
      "trace t = trace u @ ECreatePVC new # listing @ EPatchPVC (created\<lparr>pvc_volumeName := v\<rparr>) # waits
        @ [EGetPVC (sr_pvcName ref) namespace]"
      "list_all quiet listing" "list_all quiet waits" "is_bound env (sr_pvcName ref) namespace (world t)"
    by (rule provision_pvc_Ok [OF assms(1)])
  moreover assume "trace u = trace s @ before @ [EGetPVC (sr_pvcName ref) namespace]"
    "filter (\<lambda>e. \<not> quiet e) before = delete_calls old" "gone env (sr_pvcName ref) namespace (world u)"
  ultimately show ?thesis by blast
qed

text \<open>C12: The claim is bound to a volume that the server listed as claimed by it (by name, namespace
  and UID of the claim that was created), unless the compiler reads the variable \<open>pvName\<close> before the
  call in the same return statement: then the claim is patched with an empty volume name.\<close>

theorem restored_volume:
  assumes "poll_ok env" and "restore_pvc env namespace ref s = (Ok (), t)"
    and "mutations t = mutations s @ es" and "EPatchPVC patched \<in> set es"
  shows "if k_operand_first env then pvc_volumeName patched = []
    else \<exists>w w' pvs pv. k_list_pv env w = (Inr pvs, w') \<and> pv \<in> set pvs
           \<and> pv_claimRef pv = Some (sr_pvcName ref, namespace, om_uid (pvc_meta patched))
           \<and> pvc_volumeName patched = pv_objName pv"
proof -
  from triple_okD [OF triple_restore_pvc [OF assms(1)] _ assms(2), of "obj s" "mutations s"] assms(3)
  have stage: "restore_stage env namespace ref 3 es" by auto
  then show ?thesis
  proof (rule restore_stage_doneE)
    fix before created v
    assume es: "es = delete_calls before @ [ECreatePVC (rebuilt ref before), EPatchPVC (created\<lparr>pvc_volumeName := v\<rparr>)]"
      and vol: "volume_for env (sr_pvcName ref) namespace (om_uid (pvc_meta created)) v"
    have "patched = created\<lparr>pvc_volumeName := v\<rparr>"
      using assms(4) es by (auto simp: delete_calls_def split: option.splits)
    with vol show ?thesis by (auto simp: volume_for_def claims_def)
  qed
qed

lemma keeps_provision: "poll_ok env \<Longrightarrow> keeps (acts (\<lambda>_. True)) (provision_pvc env ns ref p)"
  unfolding provision_pvc_def wait_pv_provisioned_def poll_volumes_def wait_pvc_bound_def Let_def
  by (intro acting.world_rules acting.poll_until acts_api; simp)

text \<open>C15: A claim that does not exist is not restored under its name: the claim the code then creates
  has neither a name nor a namespace.\<close>

theorem missing_claim_nameless:
  assumes "poll_ok env" and "k_get_pvc env (sr_pvcName ref) namespace (world s) = (Inl e, w)" and "is_not_found e"
  shows "\<exists>p calls. mutations (snd (restore_pvc env namespace ref s)) = mutations s @ ECreatePVC p # calls
    \<and> om_name (pvc_meta p) = [] \<and> om_namespace (pvc_meta p) = []"
proof -
  let ?p = "build_pvc_from_existing zero_pvc ref"
  let ?s = "s\<lparr>world := w, trace := trace s @ [EGetPVC (sr_pvcName ref) namespace]\<rparr>"
  have run: "restore_pvc env namespace ref s = provision_pvc env namespace ref ?p ?s"
    using assms(2,3) by (simp add: restore_pvc_def Let_def go_run)
  obtain a v where c: "k_create_pvc env ?p w = (a, v)" by force
  let ?u = "?s\<lparr>world := v, trace := trace ?s @ [ECreatePVC ?p]\<rparr>"
  have "\<exists>calls. mutations (snd (provision_pvc env namespace ref ?p ?s)) = mutations s @ ECreatePVC ?p # calls"
  proof (cases a)
    case (Inl err)
    with c show ?thesis by (simp add: provision_pvc_def go_run mutations_def)
  next
    case (Inr created)
    let ?rest = "gbind (wait_pv_provisioned env (sr_pvcName ref) namespace (om_uid (pvc_meta created))) (\<lambda>pvName.
      gbind (api (EPatchPVC (created\<lparr>pvc_volumeName := pvName\<rparr>)) (k_patch_pvc env created (created\<lparr>pvc_volumeName := pvName\<rparr>)))
        (\<lambda>_. wait_pvc_bound env (sr_pvcName ref) namespace))"
    have "keeps (acts (\<lambda>_. True)) ?rest"
      unfolding wait_pv_provisioned_def poll_volumes_def wait_pvc_bound_def
      by (intro acting.world_rules acting.poll_until acts_api assms(1); simp)
    then have "emits (\<lambda>_. True) ?u (snd (?rest ?u))" by (simp add: keeps_def acts_def)
    then obtain ms where "mutations (snd (?rest ?u)) = mutations ?u @ ms" using emits_mutations by blast
    with c Inr show ?thesis by (simp add: provision_pvc_def Let_def go_run mutations_def)
  qed
  with run show ?thesis
    by (auto simp: build_pvc_from_existing_def zero_pvc_def zero_meta_def Let_def)
qed

section \<open>All plans\<close>

lemma eligibleE:
  assumes "(ns, ref) \<in> eligible r"
  obtains k ps c where "o_plan r k = Some ps" and "\<not> (in_spec r k \<and> rps_lock ps)"
    and "c \<in> set (rps_clusters ps)" and "ref \<in> set (rts_snapshotsRef c)" and "\<not> sr_skipRestoringPVC ref"
    and "ns = rts_namespace c"
  using assms unfolding eligible_def plan_claims_def by blast

text \<open>C13: A restore that succeeds has marked every plan of the status: a plan that is locked and still in
  the spec is as it was, every other plan has all its clusters in the phase \<open>Restored\<close> and is locked;
  the phase of the resource and its spec are as they were.\<close>

theorem restore_outcome:
  assumes "status_env env" and "poll_ok env" and "restore_from_plan env s = (Ok (), t)"
  shows "the_plan t k = map_option (\<lambda>ps.
       if gm_get (sp_restorePlans (esr_spec (obj s))) k \<noteq> None \<and> rps_lock ps then ps
       else ps\<lparr>rps_clusters := map (\<lambda>c. c\<lparr>rts_phase := PhaseRestored\<rparr>) (rps_clusters ps), rps_lock := True\<rparr>)
     (the_plan s k)
    \<and> o_phase (obj t) = o_phase (obj s) \<and> esr_spec (obj t) = esr_spec (obj s)"
proof -
  from triple_okD [OF triple_restore_from_plan [OF assms(1,2)] _ assms(3), of "obj s" "mutations s"]
  have "restore_inv env (mutations s) (obj s) UNIV t" by simp
  then show ?thesis
    by (auto simp: restore_inv_def plan_after_def in_spec_def mark_restored_def fun_eq_iff map_option_case
        split: option.split)
qed

text \<open>C14: However a restore ends, it never panics, each change it made is a status patch or belongs to a
  stage of an eligible claim (one of a validated snapshot of a plan that is not both locked and in the
  spec, and not one the spec excludes), and an error leaves the phase \<open>Failed\<close> unless a patch is
  refused.\<close>

theorem restore_only_eligible:
  assumes "status_env env" and "poll_ok env" and "restore_from_plan env s = (res, t)"
  shows "(\<forall>p. res \<noteq> Panic p) \<and> (\<forall>e. res = Err e \<longrightarrow> patches_succeed env \<longrightarrow> o_phase (obj t) = PhaseFailed)
    \<and> (\<exists>es. mutations t = mutations s @ es \<and> (\<forall>ev \<in> set es. is_status_patch ev
         \<or> (\<exists>k ps c ref i calls. the_plan s k = Some ps \<and> \<not> (in_spec (obj s) k \<and> rps_lock ps)
              \<and> c \<in> set (rps_clusters ps) \<and> ref \<in> set (rts_snapshotsRef c) \<and> \<not> sr_skipRestoringPVC ref
              \<and> restore_stage env (rts_namespace c) ref i calls \<and> ev \<in> set calls)))"
proof -
  note T = triple_restore_from_plan [OF assms(1,2), of "obj s" "mutations s"]
  let ?own = "\<lambda>ev. is_status_patch ev \<or> (\<exists>k ps c ref i calls. the_plan s k = Some ps \<and> \<not> (in_spec (obj s) k \<and> rps_lock ps)
      \<and> c \<in> set (rps_clusters ps) \<and> ref \<in> set (rts_snapshotsRef c) \<and> \<not> sr_skipRestoringPVC ref
      \<and> restore_stage env (rts_namespace c) ref i calls \<and> ev \<in> set calls)"
  have own: "?own ev" if ev: "restore_call env (eligible (obj s)) ev" for ev
  proof (cases "is_status_patch ev")
    case False
    with ev obtain ns ref i calls where "(ns, ref) \<in> eligible (obj s)" "restore_stage env ns ref i calls" "ev \<in> set calls"
      by (auto simp: restore_call_def)
    then show ?thesis by (elim eligibleE) blast
  qed simp
  have log: "\<exists>es. mutations t = mutations s @ es \<and> (\<forall>ev \<in> set es. ?own ev)"
    if "logged env (eligible (obj s)) (mutations s) t"
  proof -
    from that obtain es where "mutations t = mutations s @ es" and es: "\<forall>ev \<in> set es. restore_call env (eligible (obj s)) ev"
      unfolding did_def by blast
    moreover have "\<forall>ev \<in> set es. ?own ev" by (intro ballI own) (rule bspec [OF es])
    ultimately show ?thesis by (intro exI conjI)
  qed
  show ?thesis
  proof (cases res)
    case (Ok x)
    from triple_okD [OF T _ assms(3) [unfolded Ok]] have "restore_inv env (mutations s) (obj s) UNIV t" by simp
    then have "logged env (eligible (obj s)) (mutations s) t" by (simp add: restore_inv_def)
    from log [OF this] Ok show ?thesis by (simp only: out.simps simp_thms)
  next
    case (Err e)
    from triple_errD [OF T _ assms(3) [unfolded Err]] have f: "gave_up env (restore_call env (eligible (obj s))) (mutations s) (obj s) t" by simp
    then have "logged env (eligible (obj s)) (mutations s) t"
      and phase: "patches_succeed env \<longrightarrow> o_phase (obj t) = PhaseFailed" by (simp_all add: gave_up_def)
    from log [OF this(1)] phase Err show ?thesis by (simp only: out.simps simp_thms)
  next
    case (Panic p)
    with triple_no_panic [OF T, of s p t] assms(3) show ?thesis by simp
  qed
qed

section \<open>A plan outside the spec\<close>

abbreviation grows :: "'w st \<Rightarrow> 'w st \<Rightarrow> bool" where
  "grows \<equiv> evolves (\<lambda>_. True)"

lemma grows_restore_pvc: "poll_ok env \<Longrightarrow> keeps grows (restore_pvc env ns ref)"
  unfolding restore_pvc_def provision_pvc_def wait_pv_provisioned_def wait_pvc_bound_def wait_pvc_deleted_def
    poll_volumes_def Let_def
  by (intro keeps_acts_evolves acting.world_rules acting.poll_until acts_api) simp_all

lemma grows_restore_snaps: "poll_ok env \<Longrightarrow> keeps grows (restore_snaps env ns snaps)"
  unfolding restore_snaps_def by (intro evolving.rules grows_restore_pvc)

lemma grows_restore_clusters:
  assumes "status_env env" and "poll_ok env"
  shows "keeps grows (restore_clusters env k ops i cs clusters)"
  by (induction cs arbitrary: i clusters)
    (auto simp: Let_def intro!: evolving.rules grows_restore_snaps setter_evolves assms)

lemma grows_restore_one:
  assumes "status_env env" and "poll_ok env"
  shows "keeps grows (restore_one_plan env kv)"
  unfolding restore_one_plan_def Let_def
  by (intro evolving.rules grows_restore_clusters setter_evolves assms) simp_all

text \<open>
  \<open>passes m s t\<close>: on the way from \<open>s\<close> to \<open>t\<close> the function \<open>m\<close> was run and returned a value; the calls
  before and after it are part of the same run.
\<close>

definition passes :: "('w st, 'a) go \<Rightarrow> 'w st \<Rightarrow> 'w st \<Rightarrow> bool" where
  "passes m s t \<longleftrightarrow> (\<exists>u x v. grows s u \<and> m u = (Ok x, v) \<and> grows v t)"

lemma passes_here: "m s = (Ok x, t) \<Longrightarrow> passes m s t"
  unfolding passes_def using evolving.R_refl by blast

lemma passes_within: "grows s u \<Longrightarrow> passes m u v \<Longrightarrow> grows v t \<Longrightarrow> passes m s t"
  unfolding passes_def using evolving.R_trans by blast

lemma passes_for_each:
  assumes "for_each body xs s = (Ok (), t)" and "x \<in> set xs" and "\<And>y. y \<in> set xs \<Longrightarrow> keeps grows (body y)"
  shows "passes (body x) s t"
proof -
  from assms(2) obtain ys zs where xs: "xs = ys @ x # zs" by (meson split_list)
  with assms(1) show ?thesis
    unfolding xs for_each_append for_each.simps
  proof (elim gbind_OkE)
    fix a b :: unit and u v
    assume "for_each body ys s = (Ok a, u)" and "body x u = (Ok b, v)" and "for_each body zs v = (Ok (), t)"
    moreover have "keeps grows (for_each body ys)" "keeps grows (for_each body zs)"
      using assms(3) xs by (auto intro!: evolving.for_each)
    ultimately show ?thesis unfolding passes_def by (blast dest: keepsD)
  qed
qed

lemma passes_snap:
  assumes "poll_ok env" and "restore_snaps env ns snaps s = (Ok (), t)" and "ref \<in> set snaps" and "\<not> sr_skipRestoringPVC ref"
  shows "passes (restore_pvc env ns ref) s t"
  using passes_for_each [OF assms(2) [unfolded restore_snaps_def] assms(3)] assms(4)
  by (simp add: grows_restore_pvc [OF assms(1)] evolving.gret)

lemma passes_cluster:
  assumes "status_env env" and "poll_ok env" and "restore_clusters env k ops i cs clusters s = (Ok done', t)" and "c \<in> set cs"
  shows "passes (restore_snaps env (rts_namespace c) (rts_snapshotsRef c)) s t"
  using assms(3,4)
proof (induction cs arbitrary: i clusters s)
  case (Cons d cs)
  obtain r u where run: "restore_snaps env (rts_namespace d) (rts_snapshotsRef d) s = (r, u)" by force
  have su: "grows s u" by (rule keepsD [OF grows_restore_snaps [OF assms(2)] run])
  from Cons.prems(1) run obtain x where r: "r = Ok x"
    by (cases r) (auto simp: go_run Let_def split: prod.splits out.splits)
  from Cons.prems(1) run r obtain clusters' where rest: "restore_clusters env k ops (Suc i) cs clusters' u = (Ok done', t)"
    by (auto simp: go_run)
  have ut: "grows u t" by (rule keepsD [OF grows_restore_clusters [OF assms(1,2)] rest])
  show ?case
  proof (cases "c = d")
    case True
    with run r have "passes (restore_snaps env (rts_namespace c) (rts_snapshotsRef c)) s u" by (auto intro: passes_here)
    then show ?thesis by (rule passes_within [OF evolving.R_refl _ ut])
  next
    case False
    with Cons.prems(2) have "passes (restore_snaps env (rts_namespace c) (rts_snapshotsRef c)) u t"
      by (intro Cons.IH [OF rest]) simp
    then show ?thesis by (rule passes_within [OF su _ evolving.R_refl])
  qed
qed simp

lemma passes_mono: 
  assumes "passes m s t" and "\<And>x u v. m u = (Ok x, v) \<Longrightarrow> passes n u v"
  shows "passes n s t"
proof -
  from assms(1) obtain u x v where "grows s u" "m u = (Ok x, v)" "grows v t" unfolding passes_def by blast
  with assms(2) show ?thesis by (blast intro: passes_within)
qed

lemma passes_open_plan:
  assumes "status_env env" and "poll_ok env" and run: "restore_one_plan env (k, ps) s = (Ok (), t)"
    and "\<not> (in_spec (obj s) k \<and> rps_lock ps)" and "(ns, ref) \<in> plan_claims ps"
  shows "passes (restore_pvc env ns ref) s t"
proof -
  obtain c where c: "c \<in> set (rps_clusters ps)" "ref \<in> set (rts_snapshotsRef c)" "\<not> sr_skipRestoringPVC ref" "ns = rts_namespace c"
    using assms(5) by (auto simp: plan_claims_def)
  from run obtain u where u: "set_active_plan env k s = (Ok (), u)"
    unfolding restore_one_plan_def Let_def fst_conv by (elim gbind_OkE) simp
  have su: "grows s u" by (rule keepsD [OF active.evolves [OF assms(1)] u]) simp
  then have "\<not> (gm_get (sp_restorePlans (esr_spec (obj u))) k \<noteq> None \<and> rps_lock ps)"
    using assms(4) by (simp add: evolves_spec in_spec_def)
  with run u have "gbind (restore_clusters env k (rps_operators ps) 0 (rps_clusters ps) (rps_clusters ps)) (\<lambda>clusters.
           set_restore_from_plan env k True clusters (rps_operators ps)) u = (Ok (), t)"
    by (simp add: restore_one_plan_def Let_def gbind_apply [of "set_active_plan env k"] gbind_apply [of "gets f" for f] gets_apply
        del: not_None_eq de_Morgan_conj)
  then show ?thesis
  proof (elim gbind_OkE)
    fix cs v assume run: "restore_clusters env k (rps_operators ps) 0 (rps_clusters ps) (rps_clusters ps) u = (Ok cs, v)"
      and set: "set_restore_from_plan env k True cs (rps_operators ps) v = (Ok (), t)"
    have "passes (restore_snaps env (rts_namespace c) (rts_snapshotsRef c)) u v"
      by (rule passes_cluster [OF assms(1,2) run c(1)])
    then have "passes (restore_pvc env ns ref) u v"
      by (rule passes_mono) (use passes_snap [OF assms(2) _ c(2,3)] c(4) in simp)
    then show ?thesis
      by (rule passes_within [OF su]) (rule keepsD [OF restored.evolves [OF assms(1)] set], simp)
  qed
qed

lemma passes_plan:
  assumes "status_env env" and "poll_ok env" and "restore_from_plan env s = (Ok (), t)"
    and "the_plan s k = Some ps" and "\<not> (in_spec (obj s) k \<and> rps_lock ps)" and "(ns, ref) \<in> plan_claims ps"
  shows "passes (restore_pvc env ns ref) s t"
proof -
  obtain kvs where kvs: "range_map env (rs_restorePlans (the_status s)) s = (Ok kvs, s)"
      "set kvs = {(k, v). gm_get (rs_restorePlans (the_status s)) k = Some v}"
    by (rule range_map_cases)
  with assms(3) have "for_each (restore_one_plan env) kvs s = (Ok (), t)"
    by (simp add: restore_from_plan_def go_run)
  moreover have "(k, ps) \<in> set kvs" using kvs(2) assms(4) by (simp add: plan_status_def)
  ultimately have "passes (restore_one_plan env (k, ps)) s t"
    by (rule passes_for_each) (rule grows_restore_one [OF assms(1,2)])
  then obtain u v where run: "grows s u" "restore_one_plan env (k, ps) u = (Ok (), v)" "grows v t"
    by (auto simp: passes_def)
  with assms(5) have "\<not> (in_spec (obj u) k \<and> rps_lock ps)" by (simp add: in_spec_def evolves_spec)
  from passes_open_plan [OF assms(1,2) run(2) this assms(6)] run(1,3) show ?thesis by (blast intro: passes_within)
qed

lemma passes_restore_pvc:
  assumes "poll_ok env" and "passes (restore_pvc env ns ref) s t"
  obtains u v pre calls post where "restore_pvc env ns ref u = (Ok (), v)" and "restore_stage env ns ref 3 calls"
    and "mutations u = mutations s @ pre" and "mutations v = mutations u @ calls" and "mutations t = mutations v @ post"
proof -
  from assms(2) obtain u v where run: "grows s u" "restore_pvc env ns ref u = (Ok (), v)" "grows v t"
    by (auto simp: passes_def)
  from run(1,3) obtain pre post where "mutations u = mutations s @ pre" "mutations t = mutations v @ post"
    by (auto simp: evolves_def dest!: emits_mutations)
  moreover obtain calls where "restore_stage env ns ref 3 calls" "mutations v = mutations u @ calls"
    using triple_okD [OF triple_restore_pvc [OF assms(1)] _ run(2), of "obj u" "mutations u"] by auto
  ultimately show thesis by (intro that [OF run(2)])
qed

text \<open>C16: A plan that was removed from the spec is restored by every restore that succeeds, whether it is locked or
  not: each claim of its status runs through all stages again, the claim that was restored before is deleted
  and created from the snapshot once more.\<close>

theorem orphan_restored_again:
  assumes "status_env env" and "poll_ok env" and "restore_from_plan env s = (Ok (), t)"
    and "the_plan s k = Some ps" and "gm_get (sp_restorePlans (esr_spec (obj s))) k = None"
    and "(ns, ref) \<in> plan_claims ps"
  shows "\<exists>u v pre calls post. restore_pvc env ns ref u = (Ok (), v) \<and> restore_stage env ns ref 3 calls
    \<and> mutations u = mutations s @ pre \<and> mutations v = mutations u @ calls \<and> mutations t = mutations v @ post"
proof -
  have "\<not> (in_spec (obj s) k \<and> rps_lock ps)" using assms(5) by (simp add: in_spec_def)
  with assms have "passes (restore_pvc env ns ref) s t" by (intro passes_plan)
  from passes_restore_pvc [OF assms(2) this] show ?thesis by metis
qed

end
