(* ===== verification/Scale_Properties.thy ===== *)
theory Scale_Properties
  imports Scale
begin

text \<open>
  The properties of \<open>internal/scale\<close>: the exact calls that scale one workload, what the server
  must have said before a plan counts as scaled, what a whole run leaves in the status, and
  the bounds on the replicas it asks for.
\<close>

section \<open>Runs that end with a value\<close>

lemma api_OkE:
  assumes "api ev f s = (Ok x, t)"
  obtains w where "f (world s) = (Inr x, w)" and "t = s\<lparr>world := w, trace := trace s @ [ev]\<rparr>"
  using assms by (auto simp: api_run split: prod.splits sum.splits)

lemma wrap_err_Ok: "wrap_err p m s = (Ok x, t) \<Longrightarrow> m s = (Ok x, t)"
  by (auto simp: wrap_err_def go_run split: prod.splits out.splits sum.splits)

text \<open>A wait that reads until a condition holds: it changes nothing, and the server said so.\<close>

lemma read_wait_Ok:
  assumes poll: "poll_ok env" and ev: "quiet ev"
    and g: "\<And>x s. snd (g x s) = s" "\<And>x s p. fst (g x s) \<noteq> Panic p" "\<And>x s. fst (g x s) = Ok True \<Longrightarrow> c x"
    and run: "poll_until env iv to (gbind (api ev f) g) s = (Ok (), t)"
  shows "obj t = obj s \<and> mutations t = mutations s \<and> (\<exists>w w' x. f w = (Inr x, w') \<and> c x)"
proof -
  let ?I = "\<lambda>u :: 'a st. obj u = obj s \<and> mutations u = mutations s"
  have cond: "triple ?I (gbind (api ev f) g)
      (\<lambda>b u. if b then ?I u \<and> (\<exists>w w' x. f w = (Inr x, w') \<and> c x) else ?I u) (\<lambda>_. ?I)"
  proof (rule triple_gbind [OF triple_call [where Q = "\<lambda>x u. ?I u \<and> (\<exists>w w'. f w = (Inr x, w'))"]])
    fix x
    show "triple (\<lambda>u. ?I u \<and> (\<exists>w w'. f w = (Inr x, w'))) (g x)
      (\<lambda>b u. if b then ?I u \<and> (\<exists>w w' x. f w = (Inr x, w') \<and> c x) else ?I u) (\<lambda>_. ?I)"
    proof (rule tripleI)
      fix u :: "'a st" assume u: "?I u \<and> (\<exists>w w'. f w = (Inr x, w'))"
      obtain b v where "g x u = (b, v)" by force
      with g [of x u] u show "case g x u of (Ok b, v) \<Rightarrow>
            if b then ?I v \<and> (\<exists>w w' x. f w = (Inr x, w') \<and> c x) else ?I v
          | (Err e, v) \<Rightarrow> ?I v | (Panic p, v) \<Rightarrow> False"
        by (cases b) auto
    qed
  qed (use ev in auto)
  have "triple ?I (poll_until env iv to (gbind (api ev f) g))
      (\<lambda>_ u. ?I u \<and> (\<exists>w w' x. f w = (Inr x, w') \<and> c x)) (\<lambda>_. ?I)"
    by (rule triple_poll [OF poll cond]) auto
  from triple_okD [OF this _ run] show ?thesis by simp
qed

section \<open>Scaling down\<close>

text \<open>What the server said of a target at some time.\<close>

abbreviation said_sts :: "'w env \<Rightarrow> restore_target \<Rightarrow> stateful_set \<Rightarrow> bool" where
  "said_sts env t sts \<equiv> \<exists>w w'. k_get_sts env (rt_name t) (rt_namespace t) w = (Inr sts, w')"

abbreviation said_dep :: "'w env \<Rightarrow> restore_target \<Rightarrow> deployment \<Rightarrow> bool" where
  "said_dep env t d \<equiv> \<exists>w w'. k_get_deployment env (rt_name t) (rt_namespace t) w = (Inr d, w')"

lemma optional_call_Ok:
  assumes "(if b then gbind (api ev f) (\<lambda>_. gret ()) else gret ()) s = (Ok (), t)" and "\<not> quiet ev"
  shows "obj t = obj s \<and> mutations t = mutations s @ (if b then [ev] else [])"
  using assms by (auto simp: go_run split: if_splits prod.splits sum.splits)

lemma skip_or_wait:
  assumes "poll_ok env" and "quiet ev"
    and "(if skip then gret () else poll_until env iv to (gbind (api ev f) (\<lambda>x. gret (c x)))) s = (Ok (), t)"
  shows "obj t = obj s \<and> mutations t = mutations s \<and> (\<not> skip \<longrightarrow> (\<exists>w w' x. f w = (Inr x, w') \<and> c x))"
proof (cases skip)
  case False
  with assms(3) have "poll_until env iv to (gbind (api ev f) (\<lambda>x. gret (c x))) s = (Ok (), t)" by simp
  from read_wait_Ok [OF assms(1,2) _ _ _ this, where c = c] show ?thesis
    by (auto simp: gret_apply)
qed (use assms(3) in \<open>auto simp: gret_apply\<close>)

lemma scale_cluster_down_Ok:
  assumes poll: "poll_ok env" and run: "scale_cluster_down env t s = (Ok (), u)"
  shows "obj u = obj s
    \<and> (\<exists>sts. said_sts env t sts
         \<and> mutations u = mutations s @ (if sts_replicas sts = Some 0 then [] else [EPatchSTS (sts\<lparr>sts_replicas := Some 0\<rparr>)]))
    \<and> (\<not> rt_skipWaitScaleDown t \<longrightarrow> (\<exists>sts. said_sts env t sts \<and> sts_statusReplicas sts = 0 \<and> sts_readyReplicas sts = 0))"
  using run unfolding scale_cluster_down_def Let_def
proof (elim gbind_OkE)
  fix sts v v' and x :: unit
  assume get: "api (EGetSTS (rt_name t) (rt_namespace t)) (k_get_sts env (rt_name t) (rt_namespace t)) s = (Ok sts, v)"
    and patch: "(if sts_replicas sts = None \<or> sts_replicas sts \<noteq> Some 0
       then gbind (api (EPatchSTS (sts\<lparr>sts_replicas := Some 0\<rparr>)) (k_patch_sts env sts (sts\<lparr>sts_replicas := Some 0\<rparr>)))
              (\<lambda>_. gret ()) else gret ()) v = (Ok x, v')"
    and wait: "(if rt_skipWaitScaleDown t then gret () else poll_until env scale_poll_interval scale_poll_timeout
       (gbind (api (EGetSTS (rt_name t) (rt_namespace t)) (k_get_sts env (rt_name t) (rt_namespace t)))
         (\<lambda>sts. gret (sts_statusReplicas sts = 0 \<and> sts_readyReplicas sts = 0)))) v' = (Ok (), u)"
  from get have said: "said_sts env t sts" and v: "obj v = obj s \<and> mutations v = mutations s"
    by (auto elim!: api_OkE)
  have v': "obj v' = obj v \<and> mutations v' = mutations v @
      (if sts_replicas sts = None \<or> sts_replicas sts \<noteq> Some 0 then [EPatchSTS (sts\<lparr>sts_replicas := Some 0\<rparr>)] else [])"
    by (rule optional_call_Ok) (use patch in simp_all)
  from skip_or_wait [OF poll _ wait] v v' have u: "obj u = obj s"
    "mutations u = mutations s @ (if sts_replicas sts = Some 0 then [] else [EPatchSTS (sts\<lparr>sts_replicas := Some 0\<rparr>)])"
    "\<not> rt_skipWaitScaleDown t \<longrightarrow> (\<exists>w w' x. k_get_sts env (rt_name t) (rt_namespace t) w = (Inr x, w') \<and> sts_statusReplicas x = 0 \<and> sts_readyReplicas x = 0)"
    by auto
  with said show ?thesis by blast
qed

lemma scale_operator_down_Ok:
  assumes poll: "poll_ok env" and run: "scale_operator_down env t s = (Ok (), u)"
  shows "obj u = obj s
    \<and> (\<exists>d. said_dep env t d
         \<and> mutations u = mutations s @ (if dep_replicas d = Some 0 then [] else [EPatchDeployment (d\<lparr>dep_replicas := Some 0\<rparr>)]))
    \<and> (\<not> rt_skipWaitScaleDown t \<longrightarrow> (\<exists>d. said_dep env t d
         \<and> dep_statusReplicas d = 0 \<and> dep_readyReplicas d = 0 \<and> dep_availableReplicas d = 0))"
  using run unfolding scale_operator_down_def Let_def
proof (elim gbind_OkE)
  fix d v v' and x :: unit
  assume get: "api (EGetDeployment (rt_name t) (rt_namespace t)) (k_get_deployment env (rt_name t) (rt_namespace t)) s = (Ok d, v)"
    and patch: "(if dep_replicas d = None \<or> dep_replicas d \<noteq> Some 0
       then gbind (api (EPatchDeployment (d\<lparr>dep_replicas := Some 0\<rparr>)) (k_patch_deployment env d (d\<lparr>dep_replicas := Some 0\<rparr>)))
              (\<lambda>_. gret ()) else gret ()) v = (Ok x, v')"
    and wait: "(if rt_skipWaitScaleDown t then gret () else poll_until env scale_poll_interval scale_poll_timeout
       (gbind (api (EGetDeployment (rt_name t) (rt_namespace t)) (k_get_deployment env (rt_name t) (rt_namespace t)))
         (\<lambda>d. gret (dep_statusReplicas d = 0 \<and> dep_readyReplicas d = 0 \<and> dep_availableReplicas d = 0)))) v' = (Ok (), u)"
  from get have said: "said_dep env t d" and v: "obj v = obj s \<and> mutations v = mutations s"
    by (auto elim!: api_OkE)
  have v': "obj v' = obj v \<and> mutations v' = mutations v @
      (if dep_replicas d = None \<or> dep_replicas d \<noteq> Some 0 then [EPatchDeployment (d\<lparr>dep_replicas := Some 0\<rparr>)] else [])"
    by (rule optional_call_Ok) (use patch in simp_all)
  from skip_or_wait [OF poll _ wait] v v' have u: "obj u = obj s"
    "mutations u = mutations s @ (if dep_replicas d = Some 0 then [] else [EPatchDeployment (d\<lparr>dep_replicas := Some 0\<rparr>)])"
    "\<not> rt_skipWaitScaleDown t \<longrightarrow> (\<exists>w w' x. k_get_deployment env (rt_name t) (rt_namespace t) w = (Inr x, w') \<and> dep_statusReplicas x = 0 \<and> dep_readyReplicas x = 0 \<and> dep_availableReplicas x = 0)"
    by auto
  with said show ?thesis by blast
qed

section \<open>Scaling up\<close>

definition recreate_calls :: "stateful_set \<Rightarrow> pod_policy \<Rightarrow> event list" where
  "recreate_calls sts p = [EDeleteSTS sts ''Orphan'',
     ECreateSTS (sts\<lparr>sts_meta := (sts_meta sts)\<lparr>om_resourceVersion := [], om_uid := []\<rparr>, sts_podManagementPolicy := p\<rparr>)]"

text \<open>A stateful set that has reached the target's replicas, as its update strategy counts them.\<close>

definition rolled_out :: "restore_target \<Rightarrow> stateful_set \<Rightarrow> bool" where
  "rolled_out t sts \<longleftrightarrow> sts_readyReplicas sts = rt_replicas t
     \<and> (case sts_updateStrategy sts of
          RollingUpdate \<Rightarrow> sts_updatedReplicas sts = rt_replicas t \<and> sts_currentRevision sts = sts_updateRevision sts
        | OnDelete \<Rightarrow> sts_statusReplicas sts = rt_replicas t \<and> om_generation (sts_meta sts) \<le> sts_observedGeneration sts
        | OtherStrategy x \<Rightarrow> False)"

lemma sts_up_simps:
  "snd (sts_up t sts s) = s" "fst (sts_up t sts s) \<noteq> Panic p"
  "fst (sts_up t sts s) = Ok True \<Longrightarrow> rolled_out t sts"
  by (auto simp: sts_up_def rolled_out_def go_run split: update_strategy.splits)

lemma wait_deleted_sts_Ok:
  assumes "poll_ok env"
    and "poll_until env iv to (gbind (attempt (api (EGetSTS n ns) (k_get_sts env n ns))) (\<lambda>res.
       case res of Inl err \<Rightarrow> if is_not_found err then gret True else gthrow err | Inr existing \<Rightarrow> gret False)) s = (Ok (), t)"
  shows "obj t = obj s \<and> mutations t = mutations s"
proof -
  let ?I = "\<lambda>u :: 'a st. obj u = obj s \<and> mutations u = mutations s"
  have "triple ?I (poll_until env iv to (gbind (attempt (api (EGetSTS n ns) (k_get_sts env n ns))) (\<lambda>res.
       case res of Inl err \<Rightarrow> if is_not_found err then gret True else gthrow err | Inr existing \<Rightarrow> gret False)))
     (\<lambda>_. ?I) (\<lambda>_. ?I)"
    by (rule triple_poll [OF assms(1), where I = ?I])
      (auto simp: triple_def go_run split: prod.splits sum.splits)
  from triple_okD [OF this _ assms(2)] show ?thesis by simp
qed

lemma recreate_sts_Ok:
  assumes poll: "poll_ok env" and run: "recreate_sts env sts p s = (Ok (), t)"
  shows "obj t = obj s \<and> mutations t = mutations s @ recreate_calls sts p"
  using run unfolding recreate_sts_def Let_def
proof (elim gbind_OkE; elim wrap_err_Ok [elim_format])
  fix u v w and x y :: unit and z
  assume del: "api (EDeleteSTS sts ''Orphan'') (k_delete_sts env sts ''Orphan'') s = (Ok x, u)"
    and wait: "poll_until env sts_poll_interval sts_poll_timeout
      (gbind (attempt (api (EGetSTS (om_name (sts_meta sts)) (om_namespace (sts_meta sts)))
                         (k_get_sts env (om_name (sts_meta sts)) (om_namespace (sts_meta sts)))))
        (\<lambda>res. case res of Inl err \<Rightarrow> if is_not_found err then gret True else gthrow err
           | Inr existing \<Rightarrow> gret False)) u = (Ok y, v)"
    and new: "api (ECreateSTS (sts\<lparr>sts_meta := (sts_meta sts)\<lparr>om_resourceVersion := [], om_uid := []\<rparr>, sts_podManagementPolicy := p\<rparr>))
       (k_create_sts env (sts\<lparr>sts_meta := (sts_meta sts)\<lparr>om_resourceVersion := [], om_uid := []\<rparr>, sts_podManagementPolicy := p\<rparr>)) v = (Ok z, w)"
    and fin: "gret () w = (Ok (), t)"
  from del have "obj u = obj s \<and> mutations u = mutations s @ [EDeleteSTS sts ''Orphan'']" by (auto elim!: api_OkE)
  moreover have "obj v = obj u \<and> mutations v = mutations u" by (rule wait_deleted_sts_Ok [OF poll]) (use wait in simp)
  moreover from new have "obj w = obj v \<and> mutations w = mutations v @ [ECreateSTS (sts\<lparr>sts_meta := (sts_meta sts)\<lparr>om_resourceVersion := [],
      om_uid := []\<rparr>, sts_podManagementPolicy := p\<rparr>)]" by (auto elim!: api_OkE)
  ultimately show ?thesis using fin by (simp add: gret_apply recreate_calls_def)
qed

lemma maybe_recreate_Ok:
  assumes "poll_ok env" and "gwhen b (recreate_sts env sts p) s = (Ok (), t)"
  shows "obj t = obj s \<and> mutations t = mutations s @ (if b then recreate_calls sts p else [])"
  using assms by (cases b) (auto simp: gret_apply dest: recreate_sts_Ok)

lemma scale_operator_up_Ok:
  assumes poll: "poll_ok env" and run: "scale_operator_up env t s = (Ok (), u)"
  shows "obj u = obj s
    \<and> (\<exists>d. said_dep env t d \<and> mutations u = mutations s
         @ (if fewer (dep_replicas d) (rt_replicas t) then [EPatchDeployment (d\<lparr>dep_replicas := Some (rt_replicas t)\<rparr>)] else []))
    \<and> (\<not> rt_skipWaitScaleUp t \<longrightarrow> (\<exists>d. said_dep env t d \<and> dep_readyReplicas d = rt_replicas t
         \<and> dep_updatedReplicas d = rt_replicas t \<and> dep_availableReplicas d = rt_replicas t))"
  using run unfolding scale_operator_up_def Let_def
proof (elim gbind_OkE)
  fix d :: deployment and v v' and x :: unit
  let ?d = "d\<lparr>dep_replicas := Some (rt_replicas t)\<rparr>"
  assume get: "api (EGetDeployment (rt_name t) (rt_namespace t)) (k_get_deployment env (rt_name t) (rt_namespace t)) s = (Ok d, v)"
    and patch: "(if fewer (dep_replicas d) (rt_replicas t)
       then gbind (api (EPatchDeployment ?d) (k_patch_deployment env d ?d)) (\<lambda>_. gret ()) else gret ()) v = (Ok x, v')"
    and wait: "(if rt_skipWaitScaleUp t then gret () else poll_until env scale_poll_interval scale_poll_timeout
       (gbind (api (EGetDeployment (rt_name t) (rt_namespace t)) (k_get_deployment env (rt_name t) (rt_namespace t)))
         (\<lambda>d. gret (dep_readyReplicas d = rt_replicas t \<and> dep_updatedReplicas d = rt_replicas t
            \<and> dep_availableReplicas d = rt_replicas t)))) v' = (Ok (), u)"
  from get have said: "said_dep env t d" and v: "obj v = obj s \<and> mutations v = mutations s"
    by (auto elim!: api_OkE)
  have v': "obj v' = obj v \<and> mutations v' = mutations v @ (if fewer (dep_replicas d) (rt_replicas t) then [EPatchDeployment ?d] else [])"
    by (rule optional_call_Ok) (use patch in simp_all)
  from skip_or_wait [OF poll _ wait] v v' said show ?thesis by auto
qed

text \<open>The calls of \<open>scaleClusterUp\<close> before the wait, and those of the step that undoes the replacement.\<close>

definition up_calls :: "restore_target \<Rightarrow> stateful_set \<Rightarrow> event list" where
  "up_calls t sts =
     (if rt_parallelPodManagement t \<and> sts_podManagementPolicy sts = OrderedReadyPodManagement
         \<and> fewer (sts_replicas sts) (rt_replicas t) then recreate_calls sts ParallelPodManagement else [])
     @ (if fewer (sts_replicas sts) (rt_replicas t) then [EPatchSTS (sts\<lparr>sts_replicas := Some (rt_replicas t)\<rparr>)] else [])"

definition undo_calls :: "restore_target \<Rightarrow> stateful_set \<Rightarrow> event list" where
  "undo_calls t sts =
     (if rt_parallelPodManagement t \<and> sts_podManagementPolicy sts = ParallelPodManagement
      then recreate_calls sts OrderedReadyPodManagement else [])"

lemma finish_up_Ok:
  assumes poll: "poll_ok env"
    and run: "gbind (poll_until env scale_poll_interval scale_poll_timeout
         (gbind (api (EGetSTS (rt_name t) (rt_namespace t)) (k_get_sts env (rt_name t) (rt_namespace t))) (sts_up t))) (\<lambda>_.
       gbind (api (EGetSTS (rt_name t) (rt_namespace t)) (k_get_sts env (rt_name t) (rt_namespace t))) (\<lambda>sts.
       gbind (gwhen (rt_parallelPodManagement t \<and> sts_podManagementPolicy sts = ParallelPodManagement)
               (recreate_sts env sts OrderedReadyPodManagement)) (\<lambda>_.
       time_sleep env scale_up_wait_timeout))) s = (Ok (), u)"
  shows "obj u = obj s \<and> (\<exists>sts. said_sts env t sts \<and> rolled_out t sts)
    \<and> (\<exists>sts. said_sts env t sts \<and> mutations u = mutations s @ undo_calls t sts)"
  using run
proof (elim gbind_OkE)
  fix sts :: stateful_set and v1 v2 v3 and x y :: unit
  assume wait: "poll_until env scale_poll_interval scale_poll_timeout
       (gbind (api (EGetSTS (rt_name t) (rt_namespace t)) (k_get_sts env (rt_name t) (rt_namespace t))) (sts_up t)) s = (Ok x, v1)"
    and get: "api (EGetSTS (rt_name t) (rt_namespace t)) (k_get_sts env (rt_name t) (rt_namespace t)) v1 = (Ok sts, v2)"
    and undo: "gwhen (rt_parallelPodManagement t \<and> sts_podManagementPolicy sts = ParallelPodManagement)
               (recreate_sts env sts OrderedReadyPodManagement) v2 = (Ok y, v3)"
    and sleep: "time_sleep env scale_up_wait_timeout v3 = (Ok (), u)"
  have "obj v1 = obj s \<and> mutations v1 = mutations s \<and> (\<exists>w w' sts. k_get_sts env (rt_name t) (rt_namespace t) w = (Inr sts, w') \<and> rolled_out t sts)"
    by (rule read_wait_Ok [OF poll _ sts_up_simps]) (use wait in simp_all)
  moreover from get have "said_sts env t sts" "obj v2 = obj v1 \<and> mutations v2 = mutations v1" by (auto elim!: api_OkE)
  moreover have "obj v3 = obj v2 \<and> mutations v3 = mutations v2 @ undo_calls t sts"
    unfolding undo_calls_def by (rule maybe_recreate_Ok [OF poll]) (use undo in simp)
  moreover from sleep have "obj u = obj v3 \<and> mutations u = mutations v3" by (auto simp: time_sleep_run)
  ultimately show ?thesis by auto
qed

lemma scale_cluster_up_Ok:
  assumes poll: "poll_ok env" and run: "scale_cluster_up env t s = (Ok (), u)"
  shows "obj u = obj s \<and> \<not> (rt_skipWaitScaleUp t \<and> rt_parallelPodManagement t)
    \<and> (\<exists>sts later. said_sts env t sts \<and> mutations u = mutations s @ up_calls t sts @ later
         \<and> (if rt_skipWaitScaleUp t then later = [] else (\<exists>sts'. said_sts env t sts' \<and> later = undo_calls t sts')))
    \<and> (\<not> rt_skipWaitScaleUp t \<longrightarrow> (\<exists>sts. said_sts env t sts \<and> rolled_out t sts))"
proof (cases "rt_skipWaitScaleUp t \<and> rt_parallelPodManagement t")
  case False
  let ?later = "if rt_skipWaitScaleUp t then gret () else
      gbind (poll_until env scale_poll_interval scale_poll_timeout
         (gbind (api (EGetSTS (rt_name t) (rt_namespace t)) (k_get_sts env (rt_name t) (rt_namespace t))) (sts_up t))) (\<lambda>_.
       gbind (api (EGetSTS (rt_name t) (rt_namespace t)) (k_get_sts env (rt_name t) (rt_namespace t))) (\<lambda>sts.
       gbind (gwhen (rt_parallelPodManagement t \<and> sts_podManagementPolicy sts = ParallelPodManagement)
               (recreate_sts env sts OrderedReadyPodManagement)) (\<lambda>_.
       time_sleep env scale_up_wait_timeout)))"
  obtain sts v1 v2 v3 and x y :: unit
    where get: "api (EGetSTS (rt_name t) (rt_namespace t)) (k_get_sts env (rt_name t) (rt_namespace t)) s = (Ok sts, v1)"
      and first: "gwhen (rt_parallelPodManagement t \<and> sts_podManagementPolicy sts = OrderedReadyPodManagement
                       \<and> fewer (sts_replicas sts) (rt_replicas t)) (recreate_sts env sts ParallelPodManagement) v1 = (Ok x, v2)"
      and patch: "(if fewer (sts_replicas sts) (rt_replicas t) then
                  gbind (api (EPatchSTS (sts\<lparr>sts_replicas := Some (rt_replicas t)\<rparr>)) (k_patch_sts env sts (sts\<lparr>sts_replicas := Some (rt_replicas t)\<rparr>))) (\<lambda>_. gret ())
                else gret ()) v2 = (Ok y, v3)"
      and later: "?later v3 = (Ok (), u)"
    using run unfolding scale_cluster_up_def Let_def if_not_P [OF False] by (elim gbind_OkE)
  from get have said: "said_sts env t sts" and v1: "obj v1 = obj s \<and> mutations v1 = mutations s" by (auto elim!: api_OkE)
  have v2: "obj v2 = obj v1 \<and> mutations v2 = mutations v1 @ (if rt_parallelPodManagement t \<and> sts_podManagementPolicy sts = OrderedReadyPodManagement
         \<and> fewer (sts_replicas sts) (rt_replicas t) then recreate_calls sts ParallelPodManagement else [])"
    by (rule maybe_recreate_Ok [OF poll]) (use first in simp)
  have v3: "obj v3 = obj v2 \<and> mutations v3 = mutations v2 @
      (if fewer (sts_replicas sts) (rt_replicas t) then [EPatchSTS (sts\<lparr>sts_replicas := Some (rt_replicas t)\<rparr>)] else [])"
    by (rule optional_call_Ok) (use patch in simp_all)
  from v1 v2 v3 have calls: "obj v3 = obj s" "mutations v3 = mutations s @ up_calls t sts" by (simp_all add: up_calls_def)
  show ?thesis
  proof (cases "rt_skipWaitScaleUp t")
    case True
    with later have "u = v3" by (simp add: gret_apply)
    with calls said True False show ?thesis by auto
  next
    case nowait: False
    with later have "obj u = obj v3 \<and> (\<exists>sts. said_sts env t sts \<and> rolled_out t sts)
        \<and> (\<exists>sts. said_sts env t sts \<and> mutations u = mutations v3 @ undo_calls t sts)"
      by (intro finish_up_Ok [OF poll]) simp
    then obtain sts' where "said_sts env t sts'" "mutations u = mutations s @ up_calls t sts @ undo_calls t sts'"
        "obj u = obj s" "\<exists>sts. said_sts env t sts \<and> rolled_out t sts"
      using calls by auto
    moreover from this have "\<exists>sts later. said_sts env t sts \<and> mutations u = mutations s @ up_calls t sts @ later
         \<and> (if rt_skipWaitScaleUp t then later = [] else (\<exists>sts'. said_sts env t sts' \<and> later = undo_calls t sts'))"
      using said nowait by (intro exI [of _ sts] exI [of _ "undo_calls t sts'"]) auto
    ultimately show ?thesis using nowait by blast
  qed
qed (use run in \<open>simp add: scale_cluster_up_def gthrow_apply\<close>)

section \<open>The targets of a plan\<close>

lemma process_targets_Ok:
  "process_targets f scale i ts sts s = (Ok (sts', None), u) \<Longrightarrow> t \<in> set ts \<Longrightarrow> \<exists>v v'. f t v = (Ok (), v')"
proof (induction ts arbitrary: i sts s)
  case (Cons x ts)
  from Cons.prems(1) obtain res v where at: "attempt (f x) s = (Ok res, v)"
    and cont: "(case res of Inl err \<Rightarrow> gbind (lift_out (update_at i (mark_failed err) sts)) (\<lambda>status'. gret (status', Some err))
       | Inr _ \<Rightarrow> gbind (lift_out (if scale = up_scale then update_at i mark_up sts
                            else if scale = down_scale then update_at i mark_down sts else Ok sts)) (\<lambda>status'.
           process_targets f scale (Suc i) ts status')) v = (Ok (sts', None), u)"
    unfolding process_targets.simps by (elim gbind_OkE)
  show ?case
  proof (cases res)
    case (Inl e)
    with cont show ?thesis by (auto simp: go_run split: out.splits)
  next
    case (Inr y)
    with at have x: "f x s = (Ok (), v)" by (auto simp: attempt_apply split: prod.splits out.splits)
    from cont Inr obtain sts'' v' where rest: "process_targets f scale (Suc i) ts sts'' v' = (Ok (sts', None), u)"
      by (auto elim: gbind_OkE)
    show ?thesis
    proof (cases "t = x")
      case False
      with Cons.prems(2) have "t \<in> set ts" by simp
      with rest show ?thesis by (rule Cons.IH)
    qed (use x in blast)
  qed
qed simp

lemma two_groups_Ok:
  assumes "gbind m1 (\<lambda>(x, err). case err of Some e \<Rightarrow> f1 x e
     | None \<Rightarrow> gbind m2 (\<lambda>(y, err2). case err2 of Some e \<Rightarrow> f2 x y e | None \<Rightarrow> fin x y)) s = (Ok (), t)"
    and "\<And>x e s. fst (f1 x e s) \<noteq> Ok ()" and "\<And>x y e s. fst (f2 x y e s) \<noteq> Ok ()"
  shows "(\<exists>x u. m1 s = (Ok (x, None), u)) \<and> (\<exists>y v u. m2 v = (Ok (y, None), u))"
  using assms(1)
proof (elim gbind_OkE)
  fix p u
  assume m1: "m1 s = (Ok p, u)"
    and rest: "(case p of (x, err) \<Rightarrow> (case err of Some e \<Rightarrow> f1 x e
     | None \<Rightarrow> gbind m2 (\<lambda>(y, err2). case err2 of Some e \<Rightarrow> f2 x y e | None \<Rightarrow> fin x y))) u = (Ok (), t)"
  obtain x err where p: "p = (x, err)" by force
  have none: "err = None"
  proof (cases err)
    case (Some e)
    with rest assms(2) [of x e u] show ?thesis by (simp add: p)
  qed
  with rest have "gbind m2 (\<lambda>(y, err2). case err2 of Some e \<Rightarrow> f2 x y e | None \<Rightarrow> fin x y) u = (Ok (), t)" by (simp add: p)
  then obtain q v where q: "m2 u = (Ok q, v)"
    and last: "(case q of (y, err2) \<Rightarrow> (case err2 of Some e \<Rightarrow> f2 x y e | None \<Rightarrow> fin x y)) v = (Ok (), t)"
    by (elim gbind_OkE)
  obtain y err2 where y: "q = (y, err2)" by force
  have "err2 = None"
  proof (cases err2)
    case (Some e)
    with last assms(3) [of x y e v] show ?thesis by (simp add: y)
  qed
  with m1 p none q y show ?thesis by blast
qed

lemma fail_scale_no_Ok: "fst (fail_scale env k cs os e s) \<noteq> Ok ()"
  by (auto simp: fail_scale_def go_run split: prod.splits out.splits)

lemma scale_one_plan_Ok:
  assumes env: "status_env env" and ps: "the_plan s k = Some ps" and todo: "\<not> scale_skips scale (Some ps)"
    and run: "scale_one_plan env scale (k, plan) s = (Ok (), t)"
  obtains u where "(if scale = up_scale then scale_plan_up env k plan (rps_clusters ps) (rps_operators ps)
       else if scale = down_scale then scale_plan_down env k plan (rps_clusters ps) (rps_operators ps) else gret ()) u = (Ok (), t)"
proof -
  obtain r u where act: "set_active_plan env k s = (r, u)" by force
  with active.writes [OF env] have "written (\<lambda>st. st\<lparr>rs_activePlan := k\<rparr>) s u" by blast
  with ps have "the_plan u k = Some ps" by (simp add: writtenD(3))
  with act run todo show thesis
    by (intro that [of u]) (auto simp: scale_one_plan_def Let_def gbind_apply gets_apply split: out.splits if_splits)
qed

lemma scale_plan_down_Ok:
  assumes "scale_plan_down env k plan cs os s = (Ok (), t)"
  shows "(\<forall>c \<in> set (rp_clusters plan). \<exists>v v'. scale_cluster_down env c v = (Ok (), v'))
    \<and> (\<forall>c \<in> set (rp_operators plan). \<exists>v v'. scale_operator_down env c v = (Ok (), v'))"
  using two_groups_Ok [OF assms [unfolded scale_plan_down_def] fail_scale_no_Ok fail_scale_no_Ok]
  by (auto dest: process_targets_Ok)

lemma scale_plan_up_Ok:
  assumes "scale_plan_up env k plan cs os s = (Ok (), t)"
  shows "(\<forall>c \<in> set (rp_clusters plan). \<exists>v v'. scale_cluster_up env c v = (Ok (), v'))
    \<and> (\<forall>c \<in> set (rp_operators plan). \<exists>v v'. scale_operator_up env c v = (Ok (), v'))"
  using two_groups_Ok [OF assms [unfolded scale_plan_up_def] fail_scale_no_Ok fail_scale_no_Ok]
  by (auto dest: process_targets_Ok)

lemma scale_call_sts:
  assumes "scale_call env scale plan (EPatchSTS x)"
  shows "\<exists>c old. c \<in> set (rp_clusters plan) \<and> said_sts env c old
    \<and> (if scale = up_scale then (case sts_replicas old of None \<Rightarrow> True | Some k \<Rightarrow> k < rt_replicas c) \<and> x = old\<lparr>sts_replicas := Some (rt_replicas c)\<rparr>
       else x = old\<lparr>sts_replicas := Some 0\<rparr>)"
proof (cases "scale = up_scale")
  case True
  with assms obtain c where "c \<in> set (rp_clusters plan)" "up_sts env c (EPatchSTS x)"
    by (auto simp: scale_call_def up_dep_def)
  with True show ?thesis by (auto simp: up_sts_def recreation_def fewer_def)
next
  case False
  with assms obtain c where "c \<in> set (rp_clusters plan)" "down_sts env c (EPatchSTS x)"
    by (auto simp: scale_call_def down_dep_def)
  with False show ?thesis by (auto simp: down_sts_def)
qed

lemma scale_call_dep:
  assumes "scale_call env scale plan (EPatchDeployment d)"
  shows "\<exists>c old. c \<in> set (rp_operators plan) \<and> said_dep env c old
    \<and> (if scale = up_scale then (case dep_replicas old of None \<Rightarrow> True | Some k \<Rightarrow> k < rt_replicas c) \<and> d = old\<lparr>dep_replicas := Some (rt_replicas c)\<rparr>
       else d = old\<lparr>dep_replicas := Some 0\<rparr>)"
proof (cases "scale = up_scale")
  case True
  with assms obtain c where "c \<in> set (rp_operators plan)" "up_dep env c (EPatchDeployment d)"
    by (auto simp: scale_call_def up_sts_def recreation_def)
  with True show ?thesis by (auto simp: up_dep_def fewer_def)
next
  case False
  with assms obtain c where "c \<in> set (rp_operators plan)" "down_dep env c (EPatchDeployment d)"
    by (auto simp: scale_call_def down_sts_def)
  with False show ?thesis by (auto simp: down_dep_def)
qed

section \<open>Properties\<close>

text \<open>C19: Scaling one cluster up makes these calls and no others, in this order: when the target asks for
  parallel pod management, the stateful set uses the ordered one and has too few replicas, it is
  replaced by a parallel one; when it has too few replicas it is patched; and after the wait a stateful set
  found with parallel pod management is replaced by an ordered one, whatever its policy was before.
  Unless the wait is skipped, the server said that the roll-out is complete.\<close>

theorem cluster_up_calls:
  assumes "poll_ok env" and "scale_cluster_up env c s = (Ok (), u)"
  shows "obj u = obj s
    \<and> (\<exists>sts later. said_sts env c sts \<and> mutations u = mutations s @ up_calls c sts @ later
         \<and> (if rt_skipWaitScaleUp c then later = [] else (\<exists>sts'. said_sts env c sts' \<and> later = undo_calls c sts')))
    \<and> (\<not> rt_skipWaitScaleUp c \<longrightarrow> (\<exists>sts. said_sts env c sts \<and> rolled_out c sts))"
  using scale_cluster_up_Ok [OF assms] by blast

text \<open>C17: A plan that is not locked counts as scaled down only after the server said that every stateful set
  and every deployment of the plan has no replica left, neither existing nor ready nor available,
  except for the targets whose wait the spec skips.\<close>

theorem scaled_down_stopped:
  assumes "status_env env" and "poll_ok env" and "the_plan s k = Some ps" and "\<not> rps_lock ps"
    and "scale_one_plan env down_scale (k, plan) s = (Ok (), t)"
  shows "(\<forall>c \<in> set (rp_clusters plan). \<not> rt_skipWaitScaleDown c \<longrightarrow>
       (\<exists>sts. said_sts env c sts \<and> sts_statusReplicas sts = 0 \<and> sts_readyReplicas sts = 0))
    \<and> (\<forall>c \<in> set (rp_operators plan). \<not> rt_skipWaitScaleDown c \<longrightarrow>
       (\<exists>d. said_dep env c d \<and> dep_statusReplicas d = 0 \<and> dep_readyReplicas d = 0 \<and> dep_availableReplicas d = 0))"
proof -
  have ne: "down_scale \<noteq> up_scale" by (simp add: up_scale_def down_scale_def)
  have "\<not> scale_skips down_scale (Some ps)" using assms(4) by (simp add: scale_skips_def)
  from scale_one_plan_Ok [OF assms(1,3) this assms(5)] obtain u
    where "scale_plan_down env k plan (rps_clusters ps) (rps_operators ps) u = (Ok (), t)" using ne by auto
  from scale_plan_down_Ok [OF this] show ?thesis
    using scale_cluster_down_Ok [OF assms(2)] scale_operator_down_Ok [OF assms(2)] by blast
qed

text \<open>C18: A plan that is not yet marked as scaled up counts as scaled up only after the server said that
  every stateful set is rolled out with the replicas of the spec, and every deployment has that many
  ready, updated and available ones, except for the targets whose wait the spec skips.\<close>

theorem scaled_up_ready:
  assumes "status_env env" and "poll_ok env" and "the_plan s k = Some ps"
    and "\<not> (rps_lock ps \<and> rps_countScaleUp ps > 0)"
    and "scale_one_plan env up_scale (k, plan) s = (Ok (), t)"
  shows "(\<forall>c \<in> set (rp_clusters plan). \<not> rt_skipWaitScaleUp c \<longrightarrow> (\<exists>sts. said_sts env c sts \<and> rolled_out c sts))
    \<and> (\<forall>c \<in> set (rp_operators plan). \<not> rt_skipWaitScaleUp c \<longrightarrow>
       (\<exists>d. said_dep env c d \<and> dep_readyReplicas d = rt_replicas c \<and> dep_updatedReplicas d = rt_replicas c
          \<and> dep_availableReplicas d = rt_replicas c))"
proof -
  have ne: "up_scale \<noteq> down_scale" by (simp add: up_scale_def down_scale_def)
  have "\<not> scale_skips up_scale (Some ps)" using assms(4) ne by (simp add: scale_skips_def)
  from scale_one_plan_Ok [OF assms(1,3) this assms(5)] obtain u
    where "scale_plan_up env k plan (rps_clusters ps) (rps_operators ps) u = (Ok (), t)" by auto
  from scale_plan_up_Ok [OF this] show ?thesis
    using scale_cluster_up_Ok [OF assms(2)] scale_operator_up_Ok [OF assms(2)] by blast
qed

text \<open>C22: A cluster that sets both \<open>parallelPodManagement\<close> and \<open>skipWaitScaleUp\<close> can never be scaled up
  again: on a plan that is not skipped, scaling up always ends in an error. The combination is rejected here
  only, and a reconcile scales up after it has restored.\<close>

theorem conflicting_options_fail:
  assumes "status_env env" and "poll_ok env" and "the_plan s k = Some ps"
    and "\<not> (rps_lock ps \<and> rps_countScaleUp ps > 0)"
    and "c \<in> set (rp_clusters plan)" and "rt_parallelPodManagement c" and "rt_skipWaitScaleUp c"
  shows "fst (scale_one_plan env up_scale (k, plan) s) \<noteq> Ok ()"
proof
  assume "fst (scale_one_plan env up_scale (k, plan) s) = Ok ()"
  then obtain t where run: "scale_one_plan env up_scale (k, plan) s = (Ok (), t)" by (metis prod.collapse)
  have ne: "up_scale \<noteq> down_scale" by (simp add: up_scale_def down_scale_def)
  have "\<not> scale_skips up_scale (Some ps)" using assms(4) ne by (simp add: scale_skips_def)
  from scale_one_plan_Ok [OF assms(1,3) this run] obtain u
    where "scale_plan_up env k plan (rps_clusters ps) (rps_operators ps) u = (Ok (), t)" by auto
  from scale_plan_up_Ok [OF this] obtain v v' where "scale_cluster_up env c v = (Ok (), v')" using assms(5) by blast
  from scale_cluster_up_Ok [OF assms(2) this] assms(6,7) show False by blast
qed

text \<open>C21: With a status for every target of every plan, which the validation provides, scaling never
  panics; an error leaves the phase \<open>Failed\<close> unless a patch is refused; and success leaves each plan
  that is not skipped with its targets marked as scaled, the others and the phase as they were.\<close>

theorem scaling_outcome:
  assumes "status_env env" and "poll_ok env" and "scale = up_scale \<or> scale = down_scale"
    and "all_aligned scale (obj s)" and "scale_restore_plan env scale s = (res, t)"
  shows "(\<forall>p. res \<noteq> Panic p) \<and> (\<forall>e. res = Err e \<longrightarrow> patches_succeed env \<longrightarrow> o_phase (obj t) = PhaseFailed)
    \<and> (res = Ok () \<longrightarrow> o_phase (obj t) = o_phase (obj s)
        \<and> (\<forall>k. the_plan t k = (case gm_get (sp_restorePlans (esr_spec (obj s))) k of None \<Rightarrow> the_plan s k
             | Some plan \<Rightarrow> Some (scaled_plan scale plan (or_zero (the_plan s k))))))"
proof -
  note T = triple_scale_restore_plan [OF assms(1-4), of "mutations s"]
  show ?thesis
  proof (cases res)
    case (Ok x)
    with triple_okD [OF T _ assms(5) [unfolded Ok]] show ?thesis by simp
  next
    case (Err e)
    with triple_errD [OF T _ assms(5) [unfolded Err]] show ?thesis by (simp add: gave_up_def)
  next
    case (Panic p)
    with triple_no_panic [OF T, of s p t] assms(5) show ?thesis by simp
  qed
qed

text \<open>C20: Scaling asks for bounded replicas only: every patch of a stateful set or deployment, on every path,
  is one of a target of a plan of the spec that is not skipped; going up it sets the replicas of the
  spec and never lowers what the server has, going down it sets zero.\<close>

theorem scaling_bounds:
  assumes "status_env env" and "poll_ok env" and "scale = up_scale \<or> scale = down_scale"
    and "all_aligned scale (obj s)"
    and "mutations (snd (scale_restore_plan env scale s)) = mutations s @ es"
  shows "(EPatchSTS x \<in> set es \<longrightarrow> (\<exists>k plan c old. gm_get (sp_restorePlans (esr_spec (obj s))) k = Some plan
         \<and> \<not> scale_skips scale (the_plan s k) \<and> c \<in> set (rp_clusters plan) \<and> said_sts env c old
         \<and> (if scale = up_scale then (case sts_replicas old of None \<Rightarrow> True | Some k \<Rightarrow> k < rt_replicas c) \<and> x = old\<lparr>sts_replicas := Some (rt_replicas c)\<rparr>
            else x = old\<lparr>sts_replicas := Some 0\<rparr>)))
    \<and> (EPatchDeployment d \<in> set es \<longrightarrow> (\<exists>k plan c old. gm_get (sp_restorePlans (esr_spec (obj s))) k = Some plan
         \<and> \<not> scale_skips scale (the_plan s k) \<and> c \<in> set (rp_operators plan) \<and> said_dep env c old
         \<and> (if scale = up_scale then (case dep_replicas old of None \<Rightarrow> True | Some k \<Rightarrow> k < rt_replicas c) \<and> d = old\<lparr>dep_replicas := Some (rt_replicas c)\<rparr>
            else d = old\<lparr>dep_replicas := Some 0\<rparr>)))"
proof -
  obtain res t where run: "scale_restore_plan env scale s = (res, t)" by force
  note T = triple_scale_restore_plan [OF assms(1-4), of "mutations s"]
  have "did (scale_calls env scale (obj s)) (mutations s) t"
  proof (cases res)
    case (Ok x)
    from triple_okD [OF T _ run [unfolded Ok]] show ?thesis by simp
  next
    case (Err e)
    from triple_errD [OF T _ run [unfolded Err]] show ?thesis by (simp add: gave_up_def)
  next
    case (Panic p)
    with triple_no_panic [OF T, of s p t] run show ?thesis by simp
  qed
  then have calls: "scale_calls env scale (obj s) e" if "e \<in> set es" for e
    using assms(5) run that by (auto simp: did_def)
  have plan: "\<exists>k plan. gm_get (sp_restorePlans (esr_spec (obj s))) k = Some plan
      \<and> \<not> scale_skips scale (the_plan s k) \<and> scale_call env scale plan e" if "e \<in> set es" "\<not> is_status_patch e" for e
    using calls [OF that(1)] that(2) by (simp add: scale_calls_def)
  have sts: "\<exists>k plan c old. gm_get (sp_restorePlans (esr_spec (obj s))) k = Some plan
         \<and> \<not> scale_skips scale (the_plan s k) \<and> c \<in> set (rp_clusters plan) \<and> said_sts env c old
         \<and> (if scale = up_scale then (case sts_replicas old of None \<Rightarrow> True | Some k \<Rightarrow> k < rt_replicas c) \<and> x = old\<lparr>sts_replicas := Some (rt_replicas c)\<rparr>
            else x = old\<lparr>sts_replicas := Some 0\<rparr>)" if ev: "EPatchSTS x \<in> set es"
  proof -
    from plan [OF ev] obtain k plan where k: "gm_get (sp_restorePlans (esr_spec (obj s))) k = Some plan"
        "\<not> scale_skips scale (the_plan s k)" and call: "scale_call env scale plan (EPatchSTS x)" by auto
    from k scale_call_sts [OF call] show ?thesis by (intro exI [of _ k] exI [of _ plan]) simp
  qed
  have dep: "\<exists>k plan c old. gm_get (sp_restorePlans (esr_spec (obj s))) k = Some plan
         \<and> \<not> scale_skips scale (the_plan s k) \<and> c \<in> set (rp_operators plan) \<and> said_dep env c old
         \<and> (if scale = up_scale then (case dep_replicas old of None \<Rightarrow> True | Some k \<Rightarrow> k < rt_replicas c) \<and> d = old\<lparr>dep_replicas := Some (rt_replicas c)\<rparr>
            else d = old\<lparr>dep_replicas := Some 0\<rparr>)" if ev: "EPatchDeployment d \<in> set es"
  proof -
    from plan [OF ev] obtain k plan where k: "gm_get (sp_restorePlans (esr_spec (obj s))) k = Some plan"
        "\<not> scale_skips scale (the_plan s k)" and call: "scale_call env scale plan (EPatchDeployment d)" by auto
    from k scale_call_dep [OF call] show ?thesis by (intro exI [of _ k] exI [of _ plan]) simp
  qed
  show ?thesis by (intro conjI impI sts dep)
qed

end
