(* ===== verification/Hook_Properties.thy ===== *)
theory Hook_Properties
  imports Hook_Facts Status_Properties "HOL-Library.Product_Lexorder"
begin

text \<open>
  The properties of \<open>internal/hooks\<close>: which hooks an event has and which are skipped, what a
  job's outcome is and how it is recorded, that every node has run a hook with node access,
  and what hooks may do to the cluster.
\<close>

section \<open>Which hooks run\<close>

definition spec_hook :: "ebs_snapshot_restore \<Rightarrow> string \<times> string \<Rightarrow> hook_settings option option" where
  "spec_hook r key = gm_get (plan_hooks (sp_restorePlans (esr_spec r)) (fst key)) (snd key)"

text \<open>
  What is due for the hook \<open>key\<close> (the names of its plan and its own), field by field: the settings of the spec,
  the controlling owner, the job name, the first eight digits of the checksum.
\<close>

definition hook_from_spec ::
  "'w env \<Rightarrow> restore_event \<Rightarrow> ebs_snapshot_restore \<Rightarrow> gvk \<Rightarrow> string \<times> string \<Rightarrow> hook_job_settings \<Rightarrow> bool" where
  "hook_from_spec env event r g key h \<longleftrightarrow> (\<exists>st. spec_hook r key = Some (Some st) \<and> hs_event st = event
     \<and> hook_job_name env (fst key) (snd key) = Ok (hj_name h) \<and> hj_namespace h = esr_namespace r
     \<and> hj_command h = hs_command st \<and> hj_args h = hs_args st
     \<and> hj_checksum h = take 8 (k_sha256 env (checksum_payload (hs_command st) (hs_args st)))
     \<and> hj_event h = event \<and> hj_planName h = fst key \<and> hj_image h = hs_image st \<and> hj_mutable h = hs_mutable st
     \<and> hj_privileges h = hs_privileges st \<and> hj_extraSecrets h = hs_extraSecrets st
     \<and> hj_restartPolicy h = hs_restartPolicy st \<and> hj_timeout h = hs_timeout st \<and> hj_resolvedNodeName h = []
     \<and> hj_ownerMeta h = \<lparr>or_apiVersion = fst g, or_kind = snd g, or_name = esr_name r, or_uid = esr_uid r,
          or_controller = Some True, or_blockOwnerDeletion = Some True\<rparr>)"

lemma hook_from_spec_unique:
  "hook_from_spec env event r g key h \<Longrightarrow> hook_from_spec env event r g key h' \<Longrightarrow> h = h'"
  unfolding hook_from_spec_def by (auto intro!: hook_job_settings.equality)

lemma strict_sorted_keys: "sorted_wrt (<) (sort (gm_keys m))"
  by (simp add: strict_sorted_iff)

lemma sorted_concat_pairs:
  assumes "sorted_wrt (<) ks" and "\<And>k. sorted_wrt (<) (ns k)"
  shows "sorted_wrt (<) (concat (map (\<lambda>k. map (Pair k) (ns k)) ks) :: (string \<times> string) list)"
  using assms(1)
proof (induction ks)
  case (Cons k ks)
  have "sorted_wrt (<) (map (Pair k) (ns k))" using assms(2) [of k] by (simp add: sorted_wrt_map less_prod_simp)
  with Cons show ?case by (fastforce simp: sorted_wrt_append)
qed simp

lemma list_all2_concat_map:
  "(\<And>k. k \<in> set ks \<Longrightarrow> list_all2 P (f k) (g k)) \<Longrightarrow> list_all2 P (concat (map f ks)) (concat (map g ks))"
  by (induction ks) (simp_all add: list_all2_appendI)

definition event_keys :: "restore_event \<Rightarrow> restore_plan gomap \<Rightarrow> (string \<times> string) list" where
  "event_keys event plans = concat (map (\<lambda>k. map (Pair k) (map fst (event_hooks event (plan_hooks plans k)))) (sort (gm_keys plans)))"

lemma event_hooks_fst: "map fst (event_hooks event hooks)
    = filter (\<lambda>h. hs_event (the (the (gm_get hooks h))) = event) (sort (gm_keys hooks))"
  by (simp add: event_hooks_def filter_map comp_def)

lemma sorted_event_keys: "sorted_wrt (<) (event_keys event plans)"
  unfolding event_keys_def event_hooks_fst
  by (rule sorted_concat_pairs [OF strict_sorted_keys sorted_wrt_filter [OF strict_sorted_keys]])

lemma set_event_keys:
  assumes "no_nil_hooks r"
  shows "set (event_keys event (sp_restorePlans (esr_spec r)))
    = {key. \<exists>st. spec_hook r key = Some (Some st) \<and> hs_event st = event}"
proof -
  have "k \<in> set (gm_keys plans)" if "gm_get (plan_hooks plans k) n = Some x" for plans k n x
    using that by (auto simp: plan_hooks_def set_gm_keys gm_get_def split: option.splits)
  moreover have "\<exists>st. gm_get (plan_hooks (sp_restorePlans (esr_spec r)) k) n = Some (Some st)"
    if "gm_get (plan_hooks (sp_restorePlans (esr_spec r)) k) n = Some x" for k n x
    using that assms by (cases x) (auto simp: no_nil_hooks_def)
  ultimately show ?thesis
    unfolding event_keys_def event_hooks_fst
    by (fastforce simp: spec_hook_def set_gm_keys)
qed

lemma hooks_of_from_spec:
  assumes "sha_ok env" and "no_nil_hooks r"
  shows "list_all2 (hook_from_spec env event r g) (event_keys event (sp_restorePlans (esr_spec r))) (hooks_of env event r g)"
  unfolding event_keys_def hooks_of_def Let_def
proof (rule list_all2_concat_map)
  fix k
  let ?hooks = "plan_hooks (sp_restorePlans (esr_spec r)) k"
  have "hook_from_spec env event r g (k, n) (the_out (hook_job env event (esr_namespace r) (owner_ref env r g) k n st))"
    if mem: "(n, st) \<in> set (event_hooks event ?hooks)" for n st
  proof -
    from mem assms(2) have st: "gm_get ?hooks n = Some (Some st)" "hs_event st = event"
      by (auto simp: event_hooks_def set_gm_keys no_nil_hooks_def) (metis option.collapse)
    obtain name where name: "hook_job_name env k n = Ok name" using hook_job_name_ok [OF assms(1)] by blast
    have "hook_checksum env (hs_command st) (hs_args st)
        = Ok (take 8 (k_sha256 env (checksum_payload (hs_command st) (hs_args st))))"
      using assms(1) by (simp add: hook_checksum_def sha_ok_def)
    with name st show ?thesis
      by (simp add: hook_from_spec_def spec_hook_def hook_job_def owner_ref_def)
  qed
  then show "list_all2 (hook_from_spec env event r g) (map (Pair k) (map fst (event_hooks event ?hooks)))
     (map (\<lambda>(h, st). the_out (hook_job env event (esr_namespace r) (owner_ref env r g) k h st)) (event_hooks event ?hooks))"
    by (auto simp: list_all2_map1 list_all2_map2 list_all2_same)
qed

lemma hook_list_unique:
  assumes "list_all2 (hook_from_spec env event r g) keys hs" and "list_all2 (hook_from_spec env event r g) keys hs'"
  shows "hs = hs'"
  using assms
proof (induction keys arbitrary: hs hs')
  case (Cons key keys)
  then show ?case by (auto simp: list_all2_Cons1 dest: hook_from_spec_unique)
qed simp

text \<open>C37: The hooks of an event are exactly the hooks that the spec gives that event, one job each, in the order
  of the plan's name and then the hook's name; each field of a job is what the spec, the resource and its kind say,
  the name is the job name of the two names and the checksum that of its command and arguments. The order in which
  Go visits the two maps does not matter: resources with the same hooks have the same result. The state is
  not touched.\<close>

theorem setup_hooks_from_spec:
  assumes "sha_ok env" and "no_nil_hooks (obj s)" and "k_gvk_cr env = Inr g"
  shows "(\<exists>hs keys. setup_restore_hooks env event s = (Ok hs, s)
      \<and> sorted_wrt (<) keys \<and> set keys = {key. \<exists>st. spec_hook (obj s) key = Some (Some st) \<and> hs_event st = event}
      \<and> list_all2 (hook_from_spec env event (obj s) g) keys hs)
    \<and> (\<forall>s'. spec_hook (obj s') = spec_hook (obj s) \<and> esr_name (obj s') = esr_name (obj s)
        \<and> esr_namespace (obj s') = esr_namespace (obj s) \<and> esr_uid (obj s') = esr_uid (obj s)
        \<longrightarrow> fst (setup_restore_hooks env event s') = fst (setup_restore_hooks env event s))"
proof (intro conjI allI impI)
  let ?keys = "\<lambda>s. event_keys event (sp_restorePlans (esr_spec (obj s)))"
  note run = setup_restore_hooks_ok [OF assms]
  from run sorted_event_keys set_event_keys [OF assms(2)] hooks_of_from_spec [OF assms(1,2)]
  show "\<exists>hs keys. setup_restore_hooks env event s = (Ok hs, s)
      \<and> sorted_wrt (<) keys \<and> set keys = {key. \<exists>st. spec_hook (obj s) key = Some (Some st) \<and> hs_event st = event}
      \<and> list_all2 (hook_from_spec env event (obj s) g) keys hs" by blast
  fix s' :: "'a st"
  assume same: "spec_hook (obj s') = spec_hook (obj s) \<and> esr_name (obj s') = esr_name (obj s)
        \<and> esr_namespace (obj s') = esr_namespace (obj s) \<and> esr_uid (obj s') = esr_uid (obj s)"
  then have nn: "no_nil_hooks (obj s')" using assms(2) by (auto simp: no_nil_hooks_def spec_hook_def fun_eq_iff)
  have keys: "?keys s' = ?keys s"
    by (rule strict_sorted_equal [OF sorted_event_keys sorted_event_keys])
      (simp add: set_event_keys [OF nn] set_event_keys [OF assms(2)] same)
  have "hook_from_spec env event (obj s') g = hook_from_spec env event (obj s) g"
    using same by (simp add: hook_from_spec_def fun_eq_iff)
  with hooks_of_from_spec [OF assms(1) nn, of event g] keys
  have "list_all2 (hook_from_spec env event (obj s) g) (?keys s) (hooks_of env event (obj s') g)" by simp
  from hook_list_unique [OF this hooks_of_from_spec [OF assms(1,2)]] run setup_restore_hooks_ok [OF assms(1) nn assms(3)]
  show "fst (setup_restore_hooks env event s') = fst (setup_restore_hooks env event s)" by simp
qed

lemma scan_hooks_find:
  "fst (scan_hooks n ev m c hs) = (case find (\<lambda>x. hook_key x = (n, ev)) hs of None \<Rightarrow> False
     | Some h \<Rightarrow> rhs_succeeded h \<noteq> 0 \<and> \<not> (m \<and> ev = PostRestore \<and> rhs_checksum h \<noteq> c))"
  by (induction n ev m c hs rule: scan_hooks.induct) (auto simp: hook_key_def)

text \<open>A hook is skipped exactly when its plan has a status and either the plan is locked and the hook is
  a pre-restore one, or the entry of this name and event in the status says that it succeeded and
  it is not a mutable post-restore hook whose checksum has changed.\<close>

lemma hook_skip_spec:
  "fst (hook_skip_reason cr planName hookName event mutable checksum) \<longleftrightarrow>
     (\<exists>ps. o_plan cr planName = Some ps \<and> (rps_lock ps \<and> event = PreRestore
        \<or> (\<exists>h. find (\<lambda>x. hook_key x = (hookName, event)) (rps_hooks ps) = Some h \<and> rhs_succeeded h \<noteq> 0
             \<and> \<not> (mutable \<and> event = PostRestore \<and> rhs_checksum h \<noteq> checksum))))"
  by (auto simp: hook_skip_reason_def scan_hooks_find split: option.splits)

section \<open>The outcome of a job\<close>

definition succeeded_job :: "'w env \<Rightarrow> string \<Rightarrow> string \<Rightarrow> bool" where
  "succeeded_job env n ns \<longleftrightarrow> (\<exists>w w' j. k_get_job env n ns w = (Inr j, w') \<and> j_succeeded j > 0)"

lemma wait_for_job_Ok:
  assumes "poll_ok env" and "wait_for_job env job timeout s = (Ok (), t)"
  shows "succeeded_job env (om_name (j_meta job)) (om_namespace (j_meta job))"
proof -
  let ?S = "succeeded_job env (om_name (j_meta job)) (om_namespace (j_meta job))"
  have cond: "triple (\<lambda>_. True) (job_condition env (om_name (j_meta job)) (om_namespace (j_meta job)))
      (\<lambda>b _. if b then ?S else True) (\<lambda>_ _. True)"
    by (auto simp: triple_def job_condition_def go_run succeeded_job_def split: prod.splits sum.splits)
  have "triple (\<lambda>_. True) (wait_for_job env job timeout) (\<lambda>_ _. ?S) (\<lambda>_ _. True)"
    unfolding wait_for_job_def Let_def
    by (rule triple_gbind [OF triple_modify [where Q = "\<lambda>_ _. True"]], simp, rule triple_poll [OF assms(1) cond]) auto
  from triple_okD [OF this _ assms(2)] show ?thesis by simp
qed

text \<open>
  What \<open>executeHookJob\<close> returns: the status carries the hook's name and event, says success
  exactly when there is no error, and success means that the server said so of a job of the
  hook's name, or of the job it made of it.
\<close>

definition hooks_job :: "'w env \<Rightarrow> hook_job_settings \<Rightarrow> string \<Rightarrow> string \<Rightarrow> bool" where
  "hooks_job env h n ns \<longleftrightarrow> n = hj_name h \<and> ns = hj_namespace h
     \<or> (\<exists>job created w w'. k_create_job env job w = (Inr created, w') \<and> om_name (j_meta job) = hj_name h
          \<and> om_namespace (j_meta job) = hj_namespace h
          \<and> n = om_name (j_meta created) \<and> ns = om_namespace (j_meta created))"

definition job_result :: "'w env \<Rightarrow> hook_job_settings \<Rightarrow> (restore_hook_status \<times> goerr option) out \<Rightarrow> bool" where
  "job_result env h r \<longleftrightarrow> (case r of
      Ok (st, d) \<Rightarrow> hook_key st = (hj_name h, hj_event h) \<and> rhs_succeeded st = (if d = None then 1 else 0)
         \<and> (d = None \<longrightarrow> (\<exists>n ns. hooks_job env h n ns \<and> succeeded_job env n ns))
    | Err e \<Rightarrow> False | Panic p \<Rightarrow> True)"

lemma pends_any: "pends (\<lambda>_. True) p"
proof (induction p)
  case (Atom k)
  show ?case
  proof (rule pends.Atom)
    fix s p t assume "k s = (p, t)"
    then have "(p, t) \<in> range k" by (metis rangeI)
    then show "pends (\<lambda>_. True) p" by (rule Atom) (simp add: fsts.intros)
  qed
qed (simp add: pends.Fin)

lemma pends_atom: "(\<And>s. Q (fst (m s))) \<Longrightarrow> pends Q (atom m)"
  unfolding atom_def by (rule pends.Atom) (auto split: prod.splits intro!: pends.Fin, metis fst_conv)

lemma pends_catch:
  assumes "pends R p" and "\<And>x. R (Ok x) \<Longrightarrow> pends Q (f (Inr x))" and "\<And>e. R (Err e) \<Longrightarrow> pends Q (f (Inl e))"
    and "\<And>m. Q (Panic m)"
  shows "pends Q (pbind (pattempt p) f)"
proof (rule pends_pbind)
  show "pends (\<lambda>r. case r of Ok (Inr x) \<Rightarrow> R (Ok x) | Ok (Inl e) \<Rightarrow> R (Err e) | Err e \<Rightarrow> False | Panic m \<Rightarrow> True) (pattempt p)"
    by (rule pends_pattempt, rule pends_mono [OF assms(1)]) (auto simp: sum_out_def split: out.splits)
qed (use assms(2-4) in \<open>auto split: sum.splits\<close>)

lemma pends_build_job:
  "pends (\<lambda>r. \<forall>j. r = Ok j \<longrightarrow> om_name (j_meta j) = hj_name h \<and> om_namespace (j_meta j) = hj_namespace h) (build_job env h)"
  unfolding build_job_def Let_def
  by (rule pends_pbind [OF pends_any], rule pends_pbind [OF pends_any]) (auto intro!: pends_pret split: prod.split)

lemma job_resultI:
  "job_result env h (Ok (st\<lparr>rhs_failed := n\<rparr>, d)) = job_result env h (Ok (st, d))"
  "job_result env h (Panic m)"
  by (simp_all add: job_result_def hook_key_def)

lemma pends_await:
  assumes "poll_ok env" and "hook_key st = (hj_name h, hj_event h)" and "rhs_succeeded st = 0"
    and "hooks_job env h (om_name (j_meta job)) (om_namespace (j_meta job))"
  shows "pends (job_result env h) (await_hook_job env st timeout job)"
  unfolding await_hook_job_def
proof (rule pends_catch)
  show "pends (\<lambda>r. r = Ok () \<longrightarrow> succeeded_job env (om_name (j_meta job)) (om_namespace (j_meta job)))
      (atom (wait_for_job env job timeout))"
    by (rule pends_atom) (metis assms(1) prod.collapse wait_for_job_Ok)
next
  fix x :: unit
  assume "Ok x = Ok () \<longrightarrow> succeeded_job env (om_name (j_meta job)) (om_namespace (j_meta job))"
  then have "\<exists>n ns. hooks_job env h n ns \<and> succeeded_job env n ns" using assms(4) by (cases x) blast
  then show "pends (job_result env h) (case Inr x of
      Inl err \<Rightarrow> pret (st\<lparr>rhs_failed := 1\<rparr>, Some (Wrapf (''hook job '' @ om_name (j_meta job)) err))
    | Inr _ \<Rightarrow> pret (st\<lparr>rhs_succeeded := 1\<rparr>, None))"
    using assms(2) by (simp add: pends_pret job_result_def hook_key_def)
qed (use assms(2,3) in \<open>auto intro!: pends_pret simp: job_result_def hook_key_def\<close>)

lemma pends_launch:
  assumes "poll_ok env" and "hook_key st = (hj_name h, hj_event h)" and "rhs_succeeded st = 0"
    and job: "om_name (j_meta job) = hj_name h" "om_namespace (j_meta job) = hj_namespace h"
  shows "pends (job_result env h) (launch_hook_job env st c timeout job)"
  unfolding launch_hook_job_def Let_def
proof (rule pends_catch)
  show "pends (\<lambda>r. \<forall>x. r = Ok x \<longrightarrow> hooks_job env h (om_name (j_meta x)) (om_namespace (j_meta x)))
      (atom (api (ECreateJob job) (k_create_job env job)))"
    by (rule pends_atom) (use job in \<open>auto simp: api_run hooks_job_def split: prod.splits sum.splits\<close>)
  have own: "hooks_job env h (om_name (j_meta job)) (om_namespace (j_meta job))" using job by (simp add: hooks_job_def)
  show "pends (job_result env h) (case Inl err of
      Inr created \<Rightarrow> await_hook_job env st timeout created
    | Inl err \<Rightarrow> if \<not> is_already_exists err
        then pret (st, Some (Wrapf (''create hook job '' @ om_name (j_meta job)) err))
        else pbind (pattempt (atom (api (EGetJob (om_name (j_meta job)) (om_namespace (j_meta job)))
                   (k_get_job env (om_name (j_meta job)) (om_namespace (j_meta job)))))) (\<lambda>got. case got of
               Inl getErr \<Rightarrow> await_hook_job env st timeout job
             | Inr existing \<Rightarrow>
                 if (case gm_get (om_labels (j_meta existing)) ''hook-checksum'' of None \<Rightarrow> [] | Some c \<Rightarrow> c) \<noteq> c
                 then pret (st, Some (Errorf (''hook job '' @ om_name (j_meta job)
                         @ '' is stale (checksum mismatch), will retry after TTL'')))
                 else await_hook_job env st timeout job))" for err
    using pends_await [OF assms(1-3) own] assms(2,3)
    by (auto intro!: pends_pret pends_catch [OF pends_any] simp: job_result_def)
qed (auto intro: pends_await [OF assms(1-3)] simp: job_result_def)

lemma pends_execute:
  assumes "poll_ok env"
  shows "pends (job_result env h) (execute_hook_job env h)"
  unfolding execute_hook_job_def Let_def
proof (rule pends_catch [OF pends_any], unfold sum.case, rule pends_catch [OF pends_any], unfold sum.case prod.case)
  fix x :: unit and y :: "string list \<times> string list \<times> string"
  obtain command args checksum where y: "y = (command, args, checksum)" by (cases y)
  let ?h = "h\<lparr>hj_command := command, hj_args := args, hj_checksum := checksum\<rparr>"
  let ?st = "(hook_status0 h)\<lparr>rhs_checksum := checksum\<rparr>"
  have st: "hook_key ?st = (hj_name h, hj_event h)" "rhs_succeeded ?st = 0"
    by (simp_all add: hook_status0_def hook_key_def)
  show "pends (job_result env h) (case y of (command, args, checksum) \<Rightarrow>
      pbind (pattempt (build_job env (h\<lparr>hj_command := command, hj_args := args, hj_checksum := checksum\<rparr>))) (\<lambda>built.
        case built of
          Inl err \<Rightarrow> pret ((hook_status0 h)\<lparr>rhs_checksum := checksum\<rparr>,
             Some (Wrapf (''build hook job '' @ hj_name (h\<lparr>hj_command := command, hj_args := args, hj_checksum := checksum\<rparr>)) err))
        | Inr job \<Rightarrow> launch_hook_job env ((hook_status0 h)\<lparr>rhs_checksum := checksum\<rparr>) checksum
             (hj_timeout (h\<lparr>hj_command := command, hj_args := args, hj_checksum := checksum\<rparr>)) job))"
    unfolding y prod.case
    by (rule pends_catch [OF pends_build_job])
      (use st in \<open>auto intro!: pends_launch [OF assms] pends_pret simp: job_result_def\<close>)
qed (auto intro!: pends_pret simp: job_result_def hook_status0_def hook_key_def)

section \<open>Hooks and their status\<close>

lemma set_hooks_writes:
  assumes "status_env env" and "set_hooks_restore_from_plan env k st s = (r, t)"
  shows "\<exists>ps. the_plan t k = Some ps \<and> rps_lock ps = rps_lock (or_zero (the_plan s k))
    \<and> find (\<lambda>x. hook_key x = hook_key st) (rps_hooks ps) = Some st
    \<and> (\<forall>key. key \<noteq> hook_key st \<longrightarrow> find (\<lambda>x. hook_key x = key) (rps_hooks ps)
         = find (\<lambda>x. hook_key x = key) (rps_hooks (or_zero (the_plan s k))))"
proof -
  from hooked.writes [OF assms] have w: "written (put_plan k (\<lambda>p. p\<lparr>rps_hooks := upsert_hook st (rps_hooks p)\<rparr>)) s t" by blast
  have "the_plan t k = Some ((or_zero (the_plan s k))\<lparr>rps_hooks := upsert_hook st (rps_hooks (or_zero (the_plan s k)))\<rparr>)"
    unfolding writtenD(3) [OF w] by (simp add: plan_status_put_plan or_zero_def)
  with upsert_hook_key [of st "rps_hooks (or_zero (the_plan s k))"] show ?thesis by simp
qed

text \<open>C32: The outcome of a hook is in the status, and decides whether it runs again: after a run the status has
  an entry of the hook's name and event, which says success exactly when the run returned no error,
  and success means that the server said that a job of the hook succeeded; a later run with the same
  checksum skips the hook exactly in that case, or when the plan is locked and it is a pre-restore hook.\<close>

theorem run_hook_recorded:
  assumes "status_env env" and "patches_succeed env" and "poll_ok env" and "sha_ok env" and "json_ok env"
    and "run_hook env planName h s = (res, t)"
  shows "\<exists>ps st. the_plan t planName = Some ps
    \<and> find (\<lambda>x. hook_key x = (hj_name h, hj_event h)) (rps_hooks ps) = Some st
    \<and> (res = Ok () \<longrightarrow> rhs_succeeded st = 1 \<and> (\<exists>n ns. hooks_job env h n ns \<and> succeeded_job env n ns))
    \<and> (res \<noteq> Ok () \<longrightarrow> rhs_succeeded st = 0 \<and> (\<exists>e. res = Err e))
    \<and> (fst (hook_skip_reason (obj t) planName (hj_name h) (hj_event h) (hj_mutable h) (rhs_checksum st))
        \<longleftrightarrow> res = Ok () \<or> rps_lock ps \<and> hj_event h = PreRestore)"
proof -
  have calm: "res \<noteq> Panic m" for m using calm_run_hook [OF assms(1,3-5)] assms(6) by (auto simp: calm_def)
  obtain r u where ex: "prun (execute_hook_job env h) s = (r, u)" by force
  have jr: "job_result env h r" using pends_prun [OF pends_execute [OF assms(3)]] ex by (metis fst_conv)
  from jr calm ex assms(6) obtain st d where r: "r = Ok (st, d)"
    by (cases r) (auto simp: job_result_def run_hook_def gbind_apply)
  obtain r' v where set: "set_hooks_restore_from_plan env planName st u = (r', v)" by force
  with hooked.writes [OF assms(1)] assms(2) have r': "r' = Ok ()" by blast
  with set r ex assms(6) have res: "t = v \<and> res = (case d of None \<Rightarrow> Ok () | Some e \<Rightarrow> Err e)"
    by (auto simp: run_hook_def go_run split: option.splits)
  from set_hooks_writes [OF assms(1) set] jr r obtain ps where ps: "the_plan t planName = Some ps"
    and st: "find (\<lambda>x. hook_key x = (hj_name h, hj_event h)) (rps_hooks ps) = Some st"
    using res by (auto simp: job_result_def)
  have done_: "rhs_succeeded st = (if res = Ok () then 1 else 0)" "res = Ok () \<or> (\<exists>e. res = Err e)"
      "res = Ok () \<longrightarrow> (\<exists>n ns. hooks_job env h n ns \<and> succeeded_job env n ns)"
    using jr r res by (auto simp: job_result_def split: option.splits)
  have "fst (hook_skip_reason (obj t) planName (hj_name h) (hj_event h) (hj_mutable h) (rhs_checksum st))
      \<longleftrightarrow> res = Ok () \<or> rps_lock ps \<and> hj_event h = PreRestore"
    using ps st done_(1) by (auto simp: hook_skip_reason_def scan_hooks_find)
  with ps st done_ show ?thesis by auto
qed

section \<open>Hooks with node access\<close>

text \<open>The hook is done for this plan, name and event: a run now would skip it, its checksum aside.\<close>

definition hook_done :: "ebs_snapshot_restore \<Rightarrow> string \<Rightarrow> string \<Rightarrow> restore_event \<Rightarrow> bool" where
  "hook_done r k n ev \<longleftrightarrow> (\<exists>ps. o_plan r k = Some ps \<and> (rps_lock ps \<and> ev = PreRestore
     \<or> (\<exists>st. find (\<lambda>x. hook_key x = (n, ev)) (rps_hooks ps) = Some st \<and> rhs_succeeded st \<noteq> 0)))"

lemma skipped_done: "fst (hook_skip_reason r k n ev m c) \<Longrightarrow> hook_done r k n ev"
  unfolding hook_done_def by (auto simp: hook_skip_reason_def scan_hooks_find split: option.splits if_splits)

lemma resolve_keeps_name:
  "resolve_hook_from_config_map env h s = (Ok r, t) \<Longrightarrow> hj_name r = hj_name h \<and> hj_event r = hj_event h"
  by (auto simp: resolve_hook_from_config_map_def gret_apply gthrow_apply gbind_apply attempt_apply
      split: if_splits prod.splits out.splits sum.splits)

lemma pending_nodes_Ok:
  "pending_nodes env k h ns acc s = (Ok pend, t) \<Longrightarrow>
     obj t = obj s \<and> (\<exists>more. pend = acc @ more
       \<and> (\<forall>n \<in> set ns. \<exists>name. per_node_job_name env (hj_name h) n = Ok name
            \<and> (hook_done (obj s) k name (hj_event h) \<or> (\<exists>h' \<in> set more. hj_name h' = name \<and> hj_event h' = hj_event h))))"
proof (induction ns arbitrary: acc s)
  case Nil
  then show ?case by (simp add: gret_apply)
next
  case (Cons n ns)
  from Cons.prems obtain name res u v1 v2 cr
    where name: "per_node_job_name env (hj_name h) n = Ok name"
      and v1: "v1 = s"
      and res: "resolve_hook_from_config_map env (h\<lparr>hj_name := name, hj_resolvedNodeName := n\<rparr>) v1 = (Ok res, v2)"
      and u: "u = v2" and cr: "cr = obj v2"
      and rest: "(if fst (hook_skip_reason cr k (hj_name res) (hj_event res) (hj_mutable res) (hj_checksum res))
         then pending_nodes env k h ns acc else pending_nodes env k h ns (acc @ [res])) u = (Ok pend, t)"
    unfolding pending_nodes.simps by (elim gbind_OkE) (auto simp: lift_out_apply gets_apply)
  have obj: "obj v2 = obj s" using keepsD [OF acts_hook_resolve res] v1 by (simp add: acts_def)
  have rn: "hj_name res = name" "hj_event res = hj_event h" using resolve_keeps_name [OF res] by simp_all
  show ?case
  proof (cases "fst (hook_skip_reason cr k (hj_name res) (hj_event res) (hj_mutable res) (hj_checksum res))")
    case True
    then have "hook_done (obj s) k name (hj_event h)" using skipped_done cr obj rn by metis
    with Cons.IH [of acc u] rest True name u obj show ?thesis by auto
  next
    case False
    with rest have "pending_nodes env k h ns (acc @ [res]) u = (Ok pend, t)" by simp
    from Cons.IH [OF this] u obj obtain more where "obj t = obj s" and pend: "pend = acc @ (res # more)"
      and "\<forall>n \<in> set ns. \<exists>name. per_node_job_name env (hj_name h) n = Ok name
            \<and> (hook_done (obj s) k name (hj_event h) \<or> (\<exists>h' \<in> set more. hj_name h' = name \<and> hj_event h' = hj_event h))"
      by auto
    with name rn show ?thesis by (intro conjI exI [of _ "res # more"]) auto
  qed
qed

lemma set_hooks_done:
  assumes "status_env env" and "set_hooks_restore_from_plan env k st s = (r, t)" and "rhs_succeeded st \<noteq> 0"
  shows "hook_done (obj t) k (rhs_name st) (rhs_event st) \<and> (hook_done (obj s) k n ev \<longrightarrow> hook_done (obj t) k n ev)"
proof -
  from set_hooks_writes [OF assms(1,2)] obtain ps where ps: "the_plan t k = Some ps"
    and lock: "rps_lock ps = rps_lock (or_zero (the_plan s k))"
    and st: "find (\<lambda>x. hook_key x = hook_key st) (rps_hooks ps) = Some st"
    and other: "\<And>key. key \<noteq> hook_key st \<Longrightarrow> find (\<lambda>x. hook_key x = key) (rps_hooks ps)
         = find (\<lambda>x. hook_key x = key) (rps_hooks (or_zero (the_plan s k)))"
    by auto
  have "hook_done (obj t) k (rhs_name st) (rhs_event st)"
    using ps st assms(3) by (auto simp: hook_done_def hook_key_def)
  moreover have "hook_done (obj t) k n ev" if "hook_done (obj s) k n ev"
  proof (cases "(n, ev) = hook_key st")
    case True
    with ps st assms(3) show ?thesis by (auto simp: hook_done_def)
  next
    case False
    with that ps lock other [OF False] show ?thesis by (auto simp: hook_done_def or_zero_def)
  qed
  ultimately show ?thesis by blast
qed

lemma for_each_step: "body x s = (Ok (), u) \<Longrightarrow> for_each body (x # xs) s = for_each body xs u"
  by (simp add: gbind_apply)

lemma record_results:
  assumes env: "status_env env" and "\<forall>st \<in> set sts. rhs_succeeded st \<noteq> 0"
    and "for_each (\<lambda>st. gbind (attempt (set_hooks_restore_from_plan env k st)) (\<lambda>_. gret ())) sts s = (r, t)"
  shows "(\<forall>st \<in> set sts. hook_done (obj t) k (rhs_name st) (rhs_event st))
    \<and> (\<forall>n ev. hook_done (obj s) k n ev \<longrightarrow> hook_done (obj t) k n ev)"
  using assms(2,3)
proof (induction sts arbitrary: s)
  case Nil
  then show ?case by (simp add: gret_apply)
next
  case (Cons st sts)
  obtain r' u where set: "set_hooks_restore_from_plan env k st s = (r', u)" by force
  with hooked.writes [OF env] have "\<forall>m. r' \<noteq> Panic m" by blast
  with set have "gbind (attempt (set_hooks_restore_from_plan env k st)) (\<lambda>_. gret ()) s = (Ok (), u)"
    by (cases r') (simp_all add: go_run)
  then have "for_each (\<lambda>st. gbind (attempt (set_hooks_restore_from_plan env k st)) (\<lambda>_. gret ())) (st # sts) s
      = for_each (\<lambda>st. gbind (attempt (set_hooks_restore_from_plan env k st)) (\<lambda>_. gret ())) sts u"
    by (rule for_each_step)
  with Cons.prems(2) have "for_each (\<lambda>st. gbind (attempt (set_hooks_restore_from_plan env k st)) (\<lambda>_. gret ())) sts u = (r, t)" by metis
  from Cons.IH [OF _ this] Cons.prems(1) set_hooks_done [OF env set] show ?case by auto
qed

lemma group_all_succeeded:
  assumes "poll_ok env" and "group_ok env" and "k_group env (map (execute_hook_job env) hs) s = (Ok (xs, None), t)"
  shows "obj t = obj s \<and> length xs = length hs
    \<and> (\<forall>i < length hs. hook_key (xs ! i) = (hj_name (hs ! i), hj_event (hs ! i)) \<and> rhs_succeeded (xs ! i) = 1)"
proof -
  let ?ps = "map (execute_hook_job env) hs"
  have "keeps (acts object_call) (k_group env ?ps)"
    by (rule acting.group [OF assms(2)]) (auto intro: acts_hook_execute [OF assms(1)])
  with assms(3) have obj: "obj t = obj s" by (auto simp: acts_def dest: keepsD)
  from assms(2,3) have run: "group_run ?ps (foldl note_error None ?ps) s (Ok (xs, None)) t" unfolding group_ok_def by blast
  have "pends (job_result env (hs ! i)) (?ps ! i)" if "i < length ?ps" for i
    using pends_execute [OF assms(1)] that by simp
  from group_run_results [OF run refl, where Q = "\<lambda>i. job_result env (hs ! i)", OF this]
  obtain rs where rs: "\<forall>i < length ?ps. job_result env (hs ! i) (rs ! i)" "\<forall>i < length ?ps. rs ! i = Ok (xs ! i, None)"
    by (auto simp: note_errors_None)
  then have "hook_key (xs ! i) = (hj_name (hs ! i), hj_event (hs ! i)) \<and> rhs_succeeded (xs ! i) = 1" if "i < length hs" for i
    using that by (auto simp: job_result_def)
  with obj group_run_length [OF run refl] show ?thesis by simp
qed

text \<open>C33: A hook with node access has run everywhere: when it returns without an error, every node that the
  server listed for the selector has, under its own job name, an entry in the status that says success, or
  the plan is locked and the hook is a pre-restore one; the goroutines' results are not mixed up or lost.\<close>

theorem node_hook_everywhere:
  assumes "status_env env" and "poll_ok env" and "group_ok env"
    and "run_node_access_hook env planName h na s = (Ok (), t)"
  shows "\<exists>selector nodes w w'. k_selector env (na_nodeSelector na) = Inr selector
    \<and> k_list_nodes env selector w = (Inr nodes, w')
    \<and> (\<forall>n \<in> set nodes. \<exists>name. per_node_job_name env (hj_name h) n = Ok name
         \<and> hook_done (obj t) planName name (hj_event h))"
proof -
  from assms(4) obtain nodes u
    where nodes: "wrap_err (''resolve nodes for hook '' @ hj_name h) (resolve_node_names env (na_nodeSelector na)) s = (Ok nodes, u)"
      and rest: "(if nodes = [] then gret () else
         gbind (pending_nodes env planName h nodes []) (\<lambda>pendingNodes.
         if pendingNodes = [] then gret () else
         gbind (k_group env (map (execute_hook_job env) pendingNodes)) (\<lambda>(results, waitErr).
         gbind (for_each (\<lambda>hookStatus. gbind (attempt (set_hooks_restore_from_plan env planName hookStatus)) (\<lambda>_. gret ())) results) (\<lambda>_.
         case waitErr of None \<Rightarrow> gret () | Some e \<Rightarrow> gthrow e)))) u = (Ok (), t)"
    unfolding run_node_access_hook_def by (elim gbind_OkE)
  from nodes obtain sel w w' where listed: "k_selector env (na_nodeSelector na) = Inr sel" "k_list_nodes env sel w = (Inr nodes, w')"
    by (auto simp: wrap_err_def resolve_node_names_def lift_sum_def go_run split: prod.splits sum.splits out.splits)
  show ?thesis
  proof (cases "nodes = []")
    case True
    with listed show ?thesis by (intro exI conjI) (assumption | simp)+
  next
    case False
    with rest obtain pend v
      where pend: "pending_nodes env planName h nodes [] u = (Ok pend, v)"
        and rest': "(if pend = [] then gret () else
           gbind (k_group env (map (execute_hook_job env) pend)) (\<lambda>(results, waitErr).
           gbind (for_each (\<lambda>hookStatus. gbind (attempt (set_hooks_restore_from_plan env planName hookStatus)) (\<lambda>_. gret ())) results) (\<lambda>_.
           case waitErr of None \<Rightarrow> gret () | Some e \<Rightarrow> gthrow e))) v = (Ok (), t)"
      unfolding if_not_P [OF False] by (elim gbind_OkE)
    note todo = pending_nodes_Ok [OF pend, simplified]
    have "\<exists>name. per_node_job_name env (hj_name h) n = Ok name \<and> hook_done (obj t) planName name (hj_event h)"
      if n: "n \<in> set nodes" for n
    proof (cases "pend = []")
      case True
      with rest' todo n show ?thesis by (auto simp: gret_apply)
    next
      case False
      with rest' obtain p x where grp: "k_group env (map (execute_hook_job env) pend) v = (Ok p, x)"
        and fin: "(case p of (results, waitErr) \<Rightarrow>
           gbind (for_each (\<lambda>hookStatus. gbind (attempt (set_hooks_restore_from_plan env planName hookStatus)) (\<lambda>_. gret ())) results) (\<lambda>_.
           case waitErr of None \<Rightarrow> gret () | Some e \<Rightarrow> gthrow e)) x = (Ok (), t)"
        unfolding if_not_P [OF False] by (elim gbind_OkE)
      obtain xs d where p: "p = (xs, d)" by force
      with fin obtain y where rec: "for_each (\<lambda>hookStatus. gbind (attempt (set_hooks_restore_from_plan env planName hookStatus)) (\<lambda>_. gret ())) xs x = (Ok (), y)"
        and last: "(case d of None \<Rightarrow> gret () | Some e \<Rightarrow> gthrow e) y = (Ok (), t)"
        by (auto elim!: gbind_OkE)
      from last have d: "d = None" "y = t" by (auto simp: go_run split: option.splits)
      from group_all_succeeded [OF assms(2,3) grp [unfolded p d(1)]]
      have xs: "obj x = obj v" "length xs = length pend"
        "\<And>i. i < length pend \<Longrightarrow> hook_key (xs ! i) = (hj_name (pend ! i), hj_event (pend ! i)) \<and> rhs_succeeded (xs ! i) = 1"
        by simp_all
      then have "\<forall>st \<in> set xs. rhs_succeeded st \<noteq> 0" by (auto simp: in_set_conv_nth)
      from record_results [OF assms(1) this rec] d(2)
      have done_: "\<And>st. st \<in> set xs \<Longrightarrow> hook_done (obj t) planName (rhs_name st) (rhs_event st)"
        and keep: "\<And>n ev. hook_done (obj x) planName n ev \<Longrightarrow> hook_done (obj t) planName n ev" by blast+
      have new: "hook_done (obj t) planName (hj_name h') (hj_event h')" if "h' \<in> set pend" for h'
      proof -
        from that obtain i where "i < length pend" "h' = pend ! i" by (auto simp: in_set_conv_nth)
        with xs done_ [of "xs ! i"] show ?thesis by (auto simp: hook_key_def)
      qed
      from bspec [OF conjunct2 [OF todo] n] obtain name where "per_node_job_name env (hj_name h) n = Ok name"
        "hook_done (obj u) planName name (hj_event h) \<or> (\<exists>h' \<in> set pend. hj_name h' = name \<and> hj_event h' = hj_event h)"
        by blast
      then show ?thesis using keep new xs(1) todo by metis
    qed
    with listed show ?thesis by blast
  qed
qed

section \<open>What hooks may do\<close>

text \<open>C34: Hooks are confined: however a run of hooks ends, it made no calls but those that create or patch
  config maps, create accounts, roles, bindings and jobs, or patch the status; and of the resource, in memory
  and in every status patch it sent, it changed nothing but the hook statuses and the phase, and the phase
  only to \<open>Failed\<close>: no spec, active plan, lock or target status.\<close>

theorem hooks_confined:
  assumes "status_env env" and "poll_ok env" and "group_ok env" and "run_hooks env hooks s = (res, t)"
  shows "(\<exists>es. mutations t = mutations s @ es \<and> (\<forall>e \<in> set es. hook_call e)
        \<and> (\<forall>new. EPatchStatus new \<in> set es \<longrightarrow> same_but_hooks (obj s) new))
    \<and> obj t = (obj s)\<lparr>esr_status := the_status t\<rparr>
    \<and> o_phase (obj t) \<in> {o_phase (obj s), PhaseFailed}
    \<and> rs_activePlan (the_status t) = rs_activePlan (the_status s)
    \<and> esr_spec (obj t) = esr_spec (obj s) \<and> esr_name (obj t) = esr_name (obj s)
    \<and> (\<forall>k. (or_zero (the_plan t k))\<lparr>rps_hooks := []\<rparr> = (or_zero (the_plan s k))\<lparr>rps_hooks := []\<rparr>)"
proof -
  have h: "hooking s t" using keepsD [OF hooking_run_hooks [OF assms(1-3)] assms(4)] .
  then have same: "same_but_hooks (obj s) (obj t)" by (rule hookingD)
  then have "obj t = (obj s)\<lparr>esr_status := the_status t\<rparr>" by (simp add: same_but_hooks_def)
  moreover from this have "esr_spec (obj t) = esr_spec (obj s) \<and> esr_name (obj t) = esr_name (obj s)"
    by (metis ebs_snapshot_restore.select_convs(1,4) ebs_snapshot_restore.surjective ebs_snapshot_restore.update_convs(5))
  moreover have "emits (hook_write (obj s)) s t" using h by (simp add: hooking_def)
  then obtain es where "mutations t = mutations s @ es" "\<forall>e \<in> set es. hook_write (obj s) e"
    using emits_mutations by blast
  then have "\<exists>es. mutations t = mutations s @ es \<and> (\<forall>e \<in> set es. hook_call e)
        \<and> (\<forall>new. EPatchStatus new \<in> set es \<longrightarrow> same_but_hooks (obj s) new)"
    by (auto simp: hook_write_def)
  ultimately show ?thesis using same unfolding same_but_hooks_def by blast
qed

definition privilege_call :: "hook_job_settings \<Rightarrow> event \<Rightarrow> bool" where
  "privilege_call h e \<longleftrightarrow> e = ECreateSA (hook_meta h)
     \<or> (\<exists>p. hj_privileges h = Some p \<and> hp_podExec p)
       \<and> (e = ECreateRole (hook_meta h) \<or> e = ECreateRoleBinding (pod_exec_binding h))"

lemma acts_plift_sum: "pkeeps (acts A) (plift_sum r)"
  by (cases r) (simp_all add: plift_sum_def pkeeps_pret pkeeps_pthrow)

lemma acts_pwrap: "pkeeps (acts A) p \<Longrightarrow> pkeeps (acts A) (pwrap t p)"
  unfolding pwrap_def by (intro pkeeps_rules acts_plift_sum)

lemma acts_create: "quiet ev \<or> A ev \<Longrightarrow> pkeeps (acts A) (create_if_missing t (api ev f))"
  unfolding create_if_missing_def by (intro pkeeps_rules pkeeps_atom [OF acts_api])

lemma build_job_calls: "pkeeps (acts (privilege_call h)) (build_job env h)"
proof -
  have sa: "pkeeps (acts (privilege_call h)) (ensure_hook_service_account env h)"
    unfolding ensure_hook_service_account_def by (rule acts_create) (simp add: privilege_call_def)
  have rbac: "pkeeps (acts (privilege_call h)) (ensure_pod_exec_rbac env h)" if "hj_privileges h = Some p" "hp_podExec p" for p
    unfolding ensure_pod_exec_rbac_def
    by (intro pkeeps_pbind acts_create) (use that in \<open>auto simp: privilege_call_def\<close>)
  show ?thesis
    unfolding build_job_def apply_privileges_def Let_def
    by (intro pkeeps_rules acts_plift_sum acts_pwrap sa rbac)
qed

text \<open>What the job of a hook looks like, as far as privileges go.\<close>

definition job_privileged :: "hook_job_settings \<Rightarrow> job \<Rightarrow> bool" where
  "job_privileged h j \<longleftrightarrow> (\<exists>c. ps_containers (j_podSpec j) = [c]
     \<and> ps_serviceAccountName (j_podSpec j) = hj_name h
     \<and> (if node_access h = None
        then \<not> ps_hostPID (j_podSpec j) \<and> ps_tolerations (j_podSpec j) = [] \<and> ps_nodeName (j_podSpec j) = []
           \<and> c_privileged c = None
        else ps_hostPID (j_podSpec j) \<and> ps_tolerations (j_podSpec j) = [''Exists'']
           \<and> ps_nodeName (j_podSpec j) = hj_resolvedNodeName h \<and> c_privileged c = Some True))"

lemma pends_apply_privileges:
  "pends (\<lambda>r. \<forall>pod c. r = Ok (pod, c) \<longrightarrow>
      pod = (if node_access h = None then (hook_pod h)\<lparr>ps_serviceAccountName := hj_name h\<rparr>
        else (hook_pod h)\<lparr>ps_serviceAccountName := hj_name h, ps_nodeName := hj_resolvedNodeName h,
               ps_hostPID := True, ps_tolerations := [''Exists'']\<rparr>)
      \<and> c = (if node_access h = None then hook_container h else (hook_container h)\<lparr>c_privileged := Some True\<rparr>))
    (apply_privileges env h (hook_pod h) (hook_container h))"
  unfolding apply_privileges_def Let_def
  by (rule pends_pbind [OF pends_any])
    (auto intro!: pends_pret pends_pbind [OF pends_any] simp: node_access_def hook_pod_def split: option.split)

text \<open>C36: A hook gets the privileges it asks for and no more: its pod runs on the host's process namespace,
  privileged, tolerating every taint and pinned to a node, exactly when it asks for node access; a role
  and its binding are created only when it asks for pod exec; otherwise only a service account is.\<close>

theorem job_privileges:
  assumes "prun (build_job env h) s = (Ok j, t)"
  shows "job_privileged h j
    \<and> (\<exists>es. mutations t = mutations s @ es \<and> (\<forall>e \<in> set es. e = ECreateSA (hook_meta h)
         \<or> (\<exists>p. hj_privileges h = Some p \<and> hp_podExec p)
           \<and> (e = ECreateRole (hook_meta h) \<or> e = ECreateRoleBinding (pod_exec_binding h))))"
proof
  have "pends (\<lambda>r. \<forall>j. r = Ok j \<longrightarrow> job_privileged h j) (build_job env h)"
    unfolding build_job_def Let_def
    by (rule pends_pbind [OF pends_any], rule pends_pbind [OF pends_apply_privileges])
      (auto intro!: pends_pret simp: job_privileged_def hook_pod_def hook_container_def split: prod.split)
  from pends_prun [OF this, of s] assms show "job_privileged h j" by simp
  have "acts (privilege_call h) s t" using keepsD [OF acting.prun_keeps [OF build_job_calls] assms] .
  with emits_mutations [of "privilege_call h" s t] show "\<exists>es. mutations t = mutations s @ es \<and> (\<forall>e \<in> set es. e = ECreateSA (hook_meta h)
         \<or> (\<exists>p. hj_privileges h = Some p \<and> hp_podExec p)
           \<and> (e = ECreateRole (hook_meta h) \<or> e = ECreateRoleBinding (pod_exec_binding h)))"
    by (auto simp: acts_def privilege_call_def)
qed

section \<open>The command of a hook\<close>

lemma pkeeps_pbind_pends:
  assumes "pkeeps R p" and "pends P p" and "\<And>x. P (Ok x) \<Longrightarrow> pkeeps R (f x)"
  shows "pkeeps R (pbind p f)"
  using assms(2,1)
proof (induction rule: pends.induct)
  case (Fin r)
  then show ?case using assms(3) by (cases r) simp_all
next
  case (Atom k)
  show ?case
    unfolding pbind.simps
  proof (rule pkeeps.Atom)
    fix s q t assume "(map_prod (\<lambda>p. pbind p f) id \<circ> k) s = (q, t)"
    then obtain p' where k: "k s = (p', t)" and q: "q = pbind p' f" by (auto simp: map_prod_def split: prod.splits)
    with pkeeps_AtomD [OF Atom.prems k] Atom.IH [OF k] show "R s t \<and> pkeeps R q" by simp
  qed
qed

text \<open>A command and arguments that the server said are stored in the hook's config map.\<close>

definition stored_command :: "'w env \<Rightarrow> hook_job_settings \<Rightarrow> string list \<Rightarrow> string list \<Rightarrow> bool" where
  "stored_command env h command args \<longleftrightarrow> (\<exists>w w' cm. k_get_cm env (hj_name h) (hj_namespace h) w = (Inr cm, w')
     \<and> k_json_unmarshal env (data_or_empty cm ''command'') = Inr command
     \<and> k_json_unmarshal env (data_or_empty cm ''args'') = Inr args)"

definition runs_stored :: "'w env \<Rightarrow> hook_job_settings \<Rightarrow> event \<Rightarrow> bool" where
  "runs_stored env h e \<longleftrightarrow> (hook_call e \<and> \<not> is_status_patch e)
     \<and> (\<forall>cm. e = EPatchCM cm \<longrightarrow> hj_mutable h)
     \<and> (\<forall>j. e = ECreateJob j \<longrightarrow> (\<exists>c. ps_containers (j_podSpec j) = [c] \<and> stored_command env h (c_command c) (c_args c)))"

lemma pends_pwrap: "pends (\<lambda>r. \<forall>x. r = Ok x \<longrightarrow> Q x) p \<Longrightarrow> pends (\<lambda>r. \<forall>x. r = Ok x \<longrightarrow> Q x) (pwrap t p)"
  unfolding pwrap_def
  by (rule pends_catch, assumption) (auto simp: plift_sum_def wrap_sum_def pret_def pthrow_def)

lemma pends_plift: "pends (\<lambda>r. \<forall>x. r = Ok x \<longrightarrow> v = Inr x) (plift_sum v)"
  by (cases v) (simp_all add: plift_sum_def pret_def pthrow_def)

lemma wrap_sum_Inr [simp]: "wrap_sum p v = Inr x \<longleftrightarrow> v = Inr x"
  by (cases v) (simp_all add: wrap_sum_def)

lemma pends_read:
  "pends (\<lambda>r. \<forall>c a k. r = Ok (c, a, k) \<longrightarrow> stored_command env h c a) (read_hook_config_map env h)"
  unfolding read_hook_config_map_def Let_def
proof (rule pends_pbind [OF pends_pwrap [where Q = "\<lambda>cm. \<exists>w w'. k_get_cm env (hj_name h) (hj_namespace h) w = (Inr cm, w')"]])
  show "pends (\<lambda>r. \<forall>cm. r = Ok cm \<longrightarrow> (\<exists>w w'. k_get_cm env (hj_name h) (hj_namespace h) w = (Inr cm, w')))
      (atom (api (EGetCM (hj_name h) (hj_namespace h)) (k_get_cm env (hj_name h) (hj_namespace h))))"
    by (rule pends_atom) (auto simp: api_run split: prod.splits sum.splits)
next
  fix cm :: config_map
  assume cm: "\<forall>x. Ok cm = Ok x \<longrightarrow> (\<exists>w w'. k_get_cm env (hj_name h) (hj_namespace h) w = (Inr x, w'))"
  show "pends (\<lambda>r. \<forall>c a k. r = Ok (c, a, k) \<longrightarrow> stored_command env h c a)
     (pbind (plift_sum (wrap_sum (''unmarshal command from hook configmap '' @ hj_name h)
                  (k_json_unmarshal env (data_or_empty cm ''command'')))) (\<lambda>command.
      pbind (plift_sum (wrap_sum (''unmarshal args from hook configmap '' @ hj_name h)
                  (k_json_unmarshal env (data_or_empty cm ''args'')))) (\<lambda>args.
      pbind (Fin (hook_checksum env command args)) (\<lambda>checksum. pret (command, args, checksum)))))"
    by (rule pends_pbind [OF pends_plift], rule pends_pbind [OF pends_plift], rule pends_pbind [OF pends_any])
      (use cm in \<open>auto intro!: pends_pret simp: stored_command_def\<close>)
qed simp_all

lemma runs_stored_ensure: "pkeeps (acts (runs_stored env h)) (ensure_hook_config_map env h)"
proof -
  have create: "pkeeps (acts (runs_stored env h)) (create_hook_config_map env h)"
    unfolding create_hook_config_map_def Let_def
    by (intro pkeeps_rules acts_plift_sum acts_pwrap pkeeps_atom [OF acts_api]) (simp add: runs_stored_def)
  have update: "pkeeps (acts (runs_stored env h)) (update_hook_config_map env h existing)" if "hj_mutable h" for existing
    unfolding update_hook_config_map_def Let_def
    by (intro pkeeps_rules pkeeps.Fin acts_plift_sum acts_pwrap pkeeps_atom [OF acts_api])
      (use that in \<open>simp add: runs_stored_def\<close>)
  show ?thesis
    unfolding ensure_hook_config_map_def Let_def
    by (intro pkeeps_rules pkeeps.Fin acts_plift_sum pkeeps_atom [OF acts_api] create update; (simp; fail)?)
qed

lemma pends_build_command:
  "pends (\<lambda>r. \<forall>j. r = Ok j \<longrightarrow> (\<exists>c. ps_containers (j_podSpec j) = [c] \<and> c_command c = hj_command h \<and> c_args c = hj_args h))
     (build_job env h)"
  unfolding build_job_def Let_def
  by (rule pends_pbind [OF pends_any], rule pends_pbind [OF pends_apply_privileges])
    (auto intro!: pends_pret simp: hook_container_def split: prod.split)

lemma runs_stored_launch:
  assumes "poll_ok env" and "ps_containers (j_podSpec job) = [c]" and "stored_command env h (c_command c) (c_args c)"
  shows "pkeeps (acts (runs_stored env h)) (launch_hook_job env st k timeout job)"
proof -
  have wait: "keeps (acts (runs_stored env h)) (wait_for_job env j timeout)" for j
    unfolding wait_for_job_def job_condition_def Let_def
    by (intro acting.world_rules acting.poll_until acts_api assms(1)) simp_all
  have await: "pkeeps (acts (runs_stored env h)) (await_hook_job env st timeout j)" for j
    unfolding await_hook_job_def by (intro pkeeps_rules pkeeps_atom [OF wait])
  show ?thesis
    unfolding launch_hook_job_def Let_def
    by (intro pkeeps_rules pkeeps_atom [OF acts_api] await) (use assms(2,3) in \<open>auto simp: runs_stored_def\<close>)
qed

lemma runs_stored_execute:
  assumes "poll_ok env"
  shows "pkeeps (acts (runs_stored env h)) (execute_hook_job env h)"
  unfolding execute_hook_job_def Let_def
proof (rule pkeeps_pbind [OF pkeeps_pattempt [OF runs_stored_ensure]], rule pkeeps_case_sum, rule pkeeps_pret,
    rule pkeeps_pbind_pends)
  let ?P = "\<lambda>r. \<forall>c a k. r = Ok (Inr (c, a, k)) \<longrightarrow> stored_command env h c a"
  show "pkeeps (acts (runs_stored env h)) (pattempt (read_hook_config_map env h))"
    unfolding read_hook_config_map_def pwrap_def Let_def
    by (intro pkeeps_rules pkeeps.Fin acts_plift_sum pkeeps_atom [OF acts_api]) simp
  show "pends ?P (pattempt (read_hook_config_map env h))"
    by (rule pends_pattempt, rule pends_mono [OF pends_read [where env = env and h = h]])
      (auto simp: sum_out_def split: out.splits)
next
  fix rd :: "goerr + string list \<times> string list \<times> string"
  let ?h = "\<lambda>c a k. h\<lparr>hj_command := c, hj_args := a, hj_checksum := k\<rparr>"
  assume rd: "\<forall>c a k. Ok rd = Ok (Inr (c, a, k)) \<longrightarrow> stored_command env h c a"
  have job: "pkeeps (acts (runs_stored env h)) (pbind (pattempt (build_job env (?h c a k))) (\<lambda>built. case built of
        Inl err \<Rightarrow> pret ((hook_status0 h)\<lparr>rhs_checksum := k\<rparr>, Some (Wrapf (''build hook job '' @ hj_name (?h c a k)) err))
      | Inr job \<Rightarrow> launch_hook_job env ((hook_status0 h)\<lparr>rhs_checksum := k\<rparr>) k (hj_timeout (?h c a k)) job))"
    if "stored_command env h c a" for c a k
  proof (rule pkeeps_pbind_pends)
    have "privilege_call (?h c a k) e \<Longrightarrow> runs_stored env h e" for e
      by (auto simp: privilege_call_def runs_stored_def)
    then show "pkeeps (acts (runs_stored env h)) (pattempt (build_job env (?h c a k)))"
      by (intro pkeeps_pattempt pkeeps_mono [OF build_job_calls]) (auto simp: acts_def intro: emits_mono)
    show "pends (\<lambda>r. \<forall>j. r = Ok (Inr j) \<longrightarrow> (\<exists>x. ps_containers (j_podSpec j) = [x] \<and> c_command x = c \<and> c_args x = a))
        (pattempt (build_job env (?h c a k)))"
      by (rule pends_pattempt, rule pends_mono [OF pends_build_command])
        (auto simp: sum_out_def split: out.splits)
  next
    fix built :: "goerr + job"
    assume "\<forall>j. Ok built = Ok (Inr j) \<longrightarrow> (\<exists>x. ps_containers (j_podSpec j) = [x] \<and> c_command x = c \<and> c_args x = a)"
    then show "pkeeps (acts (runs_stored env h)) (case built of
        Inl err \<Rightarrow> pret ((hook_status0 h)\<lparr>rhs_checksum := k\<rparr>, Some (Wrapf (''build hook job '' @ hj_name (?h c a k)) err))
      | Inr job \<Rightarrow> launch_hook_job env ((hook_status0 h)\<lparr>rhs_checksum := k\<rparr>) k (hj_timeout (?h c a k)) job)"
      using that by (cases built) (auto intro!: pkeeps_pret runs_stored_launch [OF assms])
  qed
  show "pkeeps (acts (runs_stored env h)) (case rd of Inl err \<Rightarrow> pret (hook_status0 h, Some err)
      | Inr (command, args, checksum) \<Rightarrow>
          pbind (pattempt (build_job env (?h command args checksum))) (\<lambda>built. case built of
            Inl err \<Rightarrow> pret ((hook_status0 h)\<lparr>rhs_checksum := checksum\<rparr>,
              Some (Wrapf (''build hook job '' @ hj_name (?h command args checksum)) err))
          | Inr job \<Rightarrow> launch_hook_job env ((hook_status0 h)\<lparr>rhs_checksum := checksum\<rparr>) checksum
              (hj_timeout (?h command args checksum)) job))"
    using rd job by (cases rd) (auto intro: pkeeps_pret split: prod.split)
qed

text \<open>C35: A hook runs the command that is stored in its config map, never one taken from the spec directly, and
  the config map of a hook that is not mutable is never patched, so what it runs is fixed by the first
  run even when the spec changes.\<close>

theorem hook_runs_stored_command:
  assumes "poll_ok env" and "prun (execute_hook_job env h) s = (res, t)"
  shows "\<exists>es. mutations t = mutations s @ es
    \<and> (\<forall>cm. EPatchCM cm \<in> set es \<longrightarrow> hj_mutable h)
    \<and> (\<forall>j. ECreateJob j \<in> set es \<longrightarrow> (\<exists>c w w' cm. ps_containers (j_podSpec j) = [c]
         \<and> k_get_cm env (hj_name h) (hj_namespace h) w = (Inr cm, w')
         \<and> k_json_unmarshal env (data_or_empty cm ''command'') = Inr (c_command c)
         \<and> k_json_unmarshal env (data_or_empty cm ''args'') = Inr (c_args c)))"
proof -
  have "acts (runs_stored env h) s t" using keepsD [OF acting.prun_keeps [OF runs_stored_execute [OF assms(1)]] assms(2)] .
  then obtain es where es: "mutations t = mutations s @ es" "\<forall>e \<in> set es. runs_stored env h e"
    using emits_mutations [of "runs_stored env h" s t] by (auto simp: acts_def)
  moreover from es(2) have "\<forall>cm. EPatchCM cm \<in> set es \<longrightarrow> hj_mutable h" by (auto simp: runs_stored_def)
  moreover from es(2) have "\<forall>j. ECreateJob j \<in> set es \<longrightarrow> (\<exists>c. ps_containers (j_podSpec j) = [c] \<and> stored_command env h (c_command c) (c_args c))"
    by (auto simp: runs_stored_def)
  ultimately show ?thesis unfolding stored_command_def by blast
qed

text \<open>When the stored command of a hook cannot be read, the run ends with that error at once, and unlike
  every other error of a hook it is not recorded: the resource, its phase included, stays as it is.\<close>

lemma unreadable_command_not_recorded:
  assumes "pending_hooks env planName planHooks [] s = (Err e, t)"
  shows "run_hooks_of_plan env (planName, planHooks) s = (Err e, t) \<and> obj t = obj s"
  using assms keepsD [OF acts_hook_pending_hooks assms]
  by (simp add: run_hooks_of_plan_def gbind_apply acts_def)

end
