(* ===== verification/Witnesses.thy ===== *)
theory Witnesses
  imports Scenarios Lock_Leak Status_Properties Validate_Properties Restore_Properties Scale_Properties Hook_Properties
begin

text \<open>
  Every property with hypotheses, applied where they hold: on the simulated cluster, with
  the definitions evaluated on it.
\<close>

section \<open>Names\<close>

lemma job_names_valid_witness:
  "\<exists>n. hook_job_name sim ''p'' ''h'' = Ok n \<and> dns1123_label n
     \<and> (\<exists>m. per_node_job_name sim n ''node.1'' = Ok m \<and> dns1123_label m)"
proof -
  have "label_shape ''p''" "label_shape ''h''" by code_simp+
  from job_names_valid [OF sim_sha this] show ?thesis .
qed

lemma checksum_payload_iff_witness:
  "checksum_payload [''sh''] [''-c''] = checksum_payload [''sh'', ''-c''] [] \<longleftrightarrow> [''sh''] @ [''-c''] = [''sh'', ''-c''] @ []"
  by (rule checksum_payload_iff) code_simp

lemma hook_job_name_collision_witness:
  "hook_job_name sim ''a'' (''b'' @ ''-rh-'' @ ''c'') = hook_job_name sim (''a'' @ ''-rh-'' @ ''b'') ''c''"
  by (rule hook_job_name_collision) code_simp

lemma default_env_prefix_spec_witness:
  "list_all env_char (default_env_prefix ''my-secret'') \<and> length (default_env_prefix ''my-secret'') = Suc (length ''my-secret'')
   \<and> normalize_prefix (default_env_prefix ''my-secret'') = default_env_prefix ''my-secret''"
  by (rule default_env_prefix_spec) code_simp

section \<open>Reconcile\<close>

lemma sim_good: "good_env sim"
  by (simp add: good_env_def)

lemma sample_served [simp]:
  "served sim ''r'' ''ns'' sample_st no_nil_hooks" "served sim ''r'' ''ns'' sample_st (same_resource sample_cr)"
  by (simp_all add: served_def sim_def sample_st_def sample_cluster_def answer_def same_resource_iff no_nil_hooks_def
      plan_hooks_def sample_cr_def sample_plan_def split: option.split)

lemma ran: "fst x = r \<Longrightarrow> x = (r, snd x)"
  by (cases x) simp

lemma patch_cases:
  "(case e of EPatchSTS x \<Rightarrow> True | _ \<Rightarrow> False) \<Longrightarrow> \<exists>x. e = EPatchSTS x"
  "(case e of EPatchPVC x \<Rightarrow> True | _ \<Rightarrow> False) \<Longrightarrow> \<exists>y. e = EPatchPVC y"
  by (cases e; simp)+

lemma no_mutations [simp]: "mutations sample_st = []"
  by (simp add: mutations_def sample_st_def)

lemma sample_run:
  "case reconcile sim ''r'' ''ns'' sample_st of (x, t) \<Rightarrow> x = Ok frequency \<and> o_phase (obj t) = PhaseCompleted
     \<and> gm_get (sp_restorePlans (esr_spec (obj t))) ''p'' = Some sample_plan
     \<and> list_ex is_status_patch (mutations t)"
  by code_simp

lemma sample_completed:
  "reconcile sim ''r'' ''ns'' sample_st = (Ok frequency, snd (reconcile sim ''r'' ''ns'' sample_st))"
  "o_phase (obj (snd (reconcile sim ''r'' ''ns'' sample_st))) = PhaseCompleted"
  "gm_get (sp_restorePlans (esr_spec (obj (snd (reconcile sim ''r'' ''ns'' sample_st))))) ''p'' = Some sample_plan"
  "list_ex is_status_patch (mutations (snd (reconcile sim ''r'' ''ns'' sample_st)))"
  using sample_run by (auto split: prod.splits)

lemma reconcile_never_panics_witness: "\<forall>p. fst (reconcile sim ''r'' ''ns'' sample_st) \<noteq> Panic p"
  by (intro allI reconcile_never_panics) (simp_all add: sim_good)

lemma reconcile_in_order_witness:
  "\<exists>es. mutations (snd (reconcile sim ''r'' ''ns'' sample_st)) = mutations sample_st @ es \<and> stagewise lifecycle es"
  by (rule reconcile_in_order) (simp_all add: sim_good)

lemma reconcile_completed_witness:
  "\<exists>ps. o_plan (obj (snd (reconcile sim ''r'' ''ns'' sample_st))) ''p'' = Some ps \<and> rps_lock ps \<and> rps_countScaleUp ps > 0"
  by (rule reconcile_completed [OF sim_good _ sample_completed(1-3)]) simp


lemma reconcile_only_status_witness:
  "\<exists>new. EPatchStatus new \<in> set (mutations (snd (reconcile sim ''r'' ''ns'' sample_st)))
     \<and> esr_name new = esr_name sample_cr \<and> esr_namespace new = esr_namespace sample_cr \<and> esr_spec new = esr_spec sample_cr"
proof -
  let ?es = "mutations (snd (reconcile sim ''r'' ''ns'' sample_st))"
  from sample_completed(4) obtain e where "e \<in> set ?es" "is_status_patch e" by (auto simp: list_ex_iff)
  moreover from this(2) obtain new where "e = EPatchStatus new" by (cases e) simp_all
  ultimately have new: "EPatchStatus new \<in> set ?es" by simp
  have "?es = mutations sample_st @ ?es" by simp
  from reconcile_only_status [OF sim_good sample_served(2) this new] new show ?thesis by blast
qed

definition broken_st :: "cluster st" where
  "broken_st = sample_st\<lparr>world := sample_cluster\<lparr>cl_snapshots := []\<rparr>\<rparr>"

lemma broken_run: "case reconcile sim ''r'' ''ns'' broken_st of (Err e, t) \<Rightarrow> True | _ \<Rightarrow> False"
  by code_simp

lemma reconcile_error_recorded_witness:
  "mutations (snd (reconcile sim ''r'' ''ns'' broken_st)) = mutations broken_st
     \<or> o_phase (obj (snd (reconcile sim ''r'' ''ns'' broken_st))) = PhaseFailed"
proof -
  obtain e where run: "reconcile sim ''r'' ''ns'' broken_st = (Err e, snd (reconcile sim ''r'' ''ns'' broken_st))"
    using broken_run by (auto split: prod.splits out.splits)
  have "served sim ''r'' ''ns'' broken_st no_nil_hooks"
    using sample_served(1) by (simp add: served_def sim_def sample_st_def broken_st_def sample_cluster_def answer_def)
  moreover have "k_gvk_cr sim = Inr (''ebs.aws.edenlab.io/v1alpha1'', ''EBSSnapshotRestore'')" by (simp add: sim_def)
  ultimately show ?thesis by (rule reconcile_error_recorded [OF sim_good _ sim_status(4) _ run])
qed

definition done_cr :: ebs_snapshot_restore where
  "done_cr = sample_cr\<lparr>esr_status := zero_status\<lparr>rs_phase := PhaseCompleted, rs_restorePlans := Some [(''p'',
     zero_plan_status\<lparr>rps_snapshotRestoreTime := ''202601010000'', rps_lock := True, rps_countScaleUp := 1\<rparr>)]\<rparr>\<rparr>"

definition done_st :: "cluster st" where
  "done_st = sample_st\<lparr>world := sample_cluster\<lparr>cl_cr := Some done_cr\<rparr>\<rparr>"

lemma done_served: "served sim ''r'' ''ns'' done_st rested"
  by (auto simp: served_def sim_def done_st_def sample_st_def sample_cluster_def answer_def done_cr_def sample_cr_def
      rested_def all_settled_def settled_def plans_are_def no_nil_hooks_def plan_hooks_def sample_plan_def
      plan_status_def in_spec_def zero_plan_status_def zero_status_def split: option.splits if_splits)

lemma done_run: "mutations (snd (reconcile sim ''r'' ''ns'' done_st)) \<noteq> []"
  by code_simp

lemma reconcile_idempotent_witness: "hook_call (hd (mutations (snd (reconcile sim ''r'' ''ns'' done_st))))"
proof (rule reconcile_idempotent [OF sim_good done_served])
  show "mutations (snd (reconcile sim ''r'' ''ns'' done_st)) = mutations done_st @ mutations (snd (reconcile sim ''r'' ''ns'' done_st))"
    by (simp add: mutations_def done_st_def sample_st_def)
qed (rule hd_in_set [OF done_run])

section \<open>Validate\<close>

lemma latest_time_is_greatest_witness:
  "''202601010000'' \<le> cluster_latest_time ''p'' [sample_claim] [sample_snapshot]"
  using latest_time_is_greatest [of sample_snapshot "[sample_snapshot]" sample_claim "[sample_claim]" "''p''" "''202601010000''"]
  by (simp add: sample_snapshot_def sample_claim_def)

lemma validate_run: "fst (validate_list_snapshots sim sample_st) = Ok ()"
  by code_simp

lemma sample_spec: "gm_get (sp_restorePlans (esr_spec (obj sample_st))) ''p'' = Some sample_plan"
  by (simp add: sample_st_def sample_cr_def)

lemma validation_outcome_witness:
  "\<exists>ps. the_plan (snd (validate_list_snapshots sim sample_st)) ''p'' = Some ps
     \<and> list_all2 (cluster_checked ''p'' (rps_snapshotRestoreTime ps)) (rp_clusters sample_plan) (rps_clusters ps)"
  using validation_outcome [OF sim_status(1) ran [OF validate_run] sample_spec] by blast

lemma validation_keeps_witness:
  "\<exists>es. mutations (snd (validate_list_snapshots sim sample_st)) = mutations sample_st @ es \<and> (\<forall>ev \<in> set es. is_status_patch ev)"
  using validation_keeps [OF sim_status(1,4) ran [OF validate_run]] by blast

section \<open>Restore\<close>

text \<open>A cluster in the middle of a run: the plan is validated, nothing is restored yet.\<close>

definition sample_ref :: restore_snapshot_ref where
  "sample_ref = \<lparr>sr_pvcName = ''data-db-0'', sr_pvcStorageClass = None, sr_snapshotUID = ''s1'',
     sr_snapshotName = ''data-db-0-p-202601010000'', sr_skipRestoringPVC = False\<rparr>"

definition mid_plan :: restore_plan_status where
  "mid_plan = zero_plan_status\<lparr>rps_snapshotRestoreTime := ''202601010000'',
     rps_clusters := [zero_target_status\<lparr>rts_name := ''db'', rts_namespace := ''ns'', rts_snapshotsRef := [sample_ref]\<rparr>],
     rps_operators := [zero_target_status\<lparr>rts_name := ''op'', rts_namespace := ''ns''\<rparr>]\<rparr>"

definition mid_st :: "cluster st" where
  "mid_st = sample_st\<lparr>obj := sample_cr\<lparr>esr_status := zero_status\<lparr>rs_phase := PhaseRestoring,
     rs_restorePlans := Some [(''p'', mid_plan)]\<rparr>\<rparr>\<rparr>"

lemma mid_mutations [simp]: "mutations mid_st = []"
  by (simp add: mutations_def mid_st_def sample_st_def)

lemma mid_status [simp]: "the_plan mid_st ''p'' = Some mid_plan"
  by (simp add: mid_st_def plan_status_def)

lemma pvc_run:
  "fst (restore_pvc sim ''ns'' sample_ref mid_st) = Ok ()"
  "list_ex (\<lambda>e. case e of EPatchPVC x \<Rightarrow> True | _ \<Rightarrow> False) (mutations (snd (restore_pvc sim ''ns'' sample_ref mid_st)))"
  by code_simp+

lemma restore_pvc_stages_witness:
  "\<exists>calls. restore_stage sim ''ns'' sample_ref 3 calls \<and> mutations (snd (restore_pvc sim ''ns'' sample_ref mid_st)) = calls"
  using restore_pvc_stages [OF sim_poll ran [OF pvc_run(1)]] by auto

lemma restored_claim_bound_witness:
  "\<exists>old (u :: cluster st) created v listing waits. gone sim ''data-db-0'' ''ns'' (world u)
    \<and> trace (snd (restore_pvc sim ''ns'' sample_ref mid_st))
        = trace u @ ECreatePVC (rebuilt sample_ref old) # listing @ EPatchPVC (created\<lparr>pvc_volumeName := v\<rparr>) # waits
          @ [EGetPVC ''data-db-0'' ''ns'']
    \<and> is_bound sim ''data-db-0'' ''ns'' (world (snd (restore_pvc sim ''ns'' sample_ref mid_st)))"
proof -
  have name: "sr_pvcName sample_ref = ''data-db-0''" by (simp add: sample_ref_def)
  from restored_claim_bound [OF sim_poll ran [OF pvc_run(1)], unfolded name] show ?thesis
    by (elim exE conjE, intro exI conjI) assumption+
qed

lemma restored_volume_witness:
  "\<exists>patched w w' pvs pv. EPatchPVC patched \<in> set (mutations (snd (restore_pvc sim ''ns'' sample_ref mid_st)))
     \<and> k_list_pv sim w = (Inr pvs, w') \<and> pv \<in> set pvs \<and> pvc_volumeName patched = pv_objName pv"
proof -
  let ?t = "snd (restore_pvc sim ''ns'' sample_ref mid_st)"
  from pvc_run(2) obtain patched where p: "EPatchPVC patched \<in> set (mutations ?t)"
    unfolding list_ex_iff using patch_cases(2) by blast
  have "mutations ?t = mutations mid_st @ mutations ?t" by simp
  from restored_volume [OF sim_poll ran [OF pvc_run(1)] this p] p show ?thesis
    by (simp add: sim_def) blast
qed

definition bare_st :: "cluster st" where
  "bare_st = mid_st\<lparr>world := sample_cluster\<lparr>cl_pvcs := []\<rparr>\<rparr>"

lemma missing_claim_nameless_witness:
  "\<exists>p calls. mutations (snd (restore_pvc sim ''ns'' sample_ref bare_st)) = mutations bare_st @ ECreatePVC p # calls
     \<and> om_name (pvc_meta p) = [] \<and> om_namespace (pvc_meta p) = []"
proof -
  have "k_get_pvc sim (sr_pvcName sample_ref) ''ns'' (world bare_st)
      = (Inl (StatusErr NotFound ''data-db-0 not found''), world bare_st)"
    by (simp add: sim_def bare_st_def sample_ref_def answer_def lookup_def)
  from missing_claim_nameless [OF sim_poll this] show ?thesis by simp
qed

lemma restore_run: "fst (restore_from_plan sim mid_st) = Ok ()"
  by code_simp

lemma restore_outcome_witness:
  "the_plan (snd (restore_from_plan sim mid_st)) ''p'' = Some (mid_plan\<lparr>rps_clusters :=
     map (\<lambda>c. c\<lparr>rts_phase := PhaseRestored\<rparr>) (rps_clusters mid_plan), rps_lock := True\<rparr>)"
  using restore_outcome [OF sim_status(1) sim_poll ran [OF restore_run], of "''p''"]
  by (simp add: mid_plan_def zero_plan_status_def)

lemma restore_only_eligible_witness:
  "\<exists>es. mutations (snd (restore_from_plan sim mid_st)) = mutations mid_st @ es \<and> (\<forall>ev \<in> set es. is_status_patch ev
     \<or> (\<exists>k ps c ref i calls. the_plan mid_st k = Some ps \<and> \<not> (in_spec (obj mid_st) k \<and> rps_lock ps)
          \<and> c \<in> set (rps_clusters ps) \<and> ref \<in> set (rts_snapshotsRef c) \<and> \<not> sr_skipRestoringPVC ref
          \<and> restore_stage sim (rts_namespace c) ref i calls \<and> ev \<in> set calls))"
  using restore_only_eligible [OF sim_status(1) sim_poll ran [OF restore_run]] by (elim conjE)

text \<open>A plan that is locked, has a claim to restore and is not in the spec.\<close>

definition orphan_st :: "cluster st" where
  "orphan_st = mid_st\<lparr>obj := (obj mid_st)\<lparr>esr_status := zero_status\<lparr>rs_phase := PhaseRestoring,
     rs_restorePlans := Some [(''gone'', mid_plan\<lparr>rps_lock := True\<rparr>)]\<rparr>\<rparr>\<rparr>"

lemma orphan_run: "fst (restore_from_plan sim orphan_st) = Ok ()"
  by code_simp

lemma orphan_restored_again_witness:
  "\<exists>u v pre calls post. restore_pvc sim ''ns'' sample_ref u = (Ok (), v) \<and> restore_stage sim ''ns'' sample_ref 3 calls
    \<and> mutations u = mutations orphan_st @ pre \<and> mutations v = mutations u @ calls
    \<and> mutations (snd (restore_from_plan sim orphan_st)) = mutations v @ post"
proof (rule orphan_restored_again [OF sim_status(1) sim_poll ran [OF orphan_run]])
  show "the_plan orphan_st ''gone'' = Some (mid_plan\<lparr>rps_lock := True\<rparr>)"
    by (simp add: orphan_st_def mid_st_def plan_status_def)
  show "gm_get (sp_restorePlans (esr_spec (obj orphan_st))) ''gone'' = None"
    by (simp add: orphan_st_def mid_st_def sample_cr_def)
  show "(''ns'', sample_ref) \<in> plan_claims (mid_plan\<lparr>rps_lock := True\<rparr>)"
    by (simp add: plan_claims_def mid_plan_def sample_ref_def)
qed

section \<open>Scale\<close>

text \<open>The same cluster, scaled down.\<close>

definition down_st :: "cluster st" where
  "down_st = mid_st\<lparr>world := sample_cluster\<lparr>cl_sts := [settle_sts (sample_sts\<lparr>sts_replicas := Some 0\<rparr>)],
     cl_deployments := [settle_deployment (sample_deployment\<lparr>dep_replicas := Some 0\<rparr>)]\<rparr>\<rparr>"

lemma down_mutations [simp]: "mutations down_st = []"
  by (simp add: mutations_def down_st_def mid_st_def sample_st_def)

lemma down_status [simp]: "the_plan down_st ''p'' = Some mid_plan"
  by (simp add: down_st_def)

lemma mid_open [simp]: "\<not> rps_lock mid_plan"
  by (simp add: mid_plan_def zero_plan_status_def)

definition parallel_target :: restore_target where
  "parallel_target = (sample_target ''db'')\<lparr>rt_parallelPodManagement := True\<rparr>"

lemma scale_runs:
  "fst (scale_cluster_up sim parallel_target down_st) = Ok ()"
  "fst (scale_one_plan sim down_scale (''p'', sample_plan) mid_st) = Ok ()"
  "fst (scale_one_plan sim up_scale (''p'', sample_plan) down_st) = Ok ()"
  "fst (scale_restore_plan sim up_scale down_st) = Ok ()"
  "list_ex (\<lambda>e. case e of EPatchSTS x \<Rightarrow> True | _ \<Rightarrow> False) (mutations (snd (scale_restore_plan sim up_scale down_st)))"
  by code_simp+

lemma cluster_up_calls_witness:
  "\<exists>sts later. said_sts sim parallel_target sts
     \<and> mutations (snd (scale_cluster_up sim parallel_target down_st)) = up_calls parallel_target sts @ later"
  using cluster_up_calls [OF sim_poll ran [OF scale_runs(1)]] by auto

lemma scaled_down_stopped_witness:
  "\<exists>sts. said_sts sim (sample_target ''db'') sts \<and> sts_statusReplicas sts = 0 \<and> sts_readyReplicas sts = 0"
  using scaled_down_stopped [OF sim_status(1) sim_poll mid_status mid_open ran [OF scale_runs(2)]]
  by (simp add: sample_plan_def sample_target_def)

lemma scaled_up_ready_witness: "\<exists>sts. said_sts sim (sample_target ''db'') sts \<and> rolled_out (sample_target ''db'') sts"
  using scaled_up_ready [OF sim_status(1) sim_poll down_status _ ran [OF scale_runs(3)]]
  by (simp add: sample_plan_def sample_target_def)

definition conflicting_target :: restore_target where
  "conflicting_target = parallel_target\<lparr>rt_skipWaitScaleUp := True\<rparr>"

lemma conflicting_options_fail_witness:
  "fst (scale_one_plan sim up_scale (''p'', sample_plan\<lparr>rp_clusters := [conflicting_target]\<rparr>) down_st) \<noteq> Ok ()"
  by (rule conflicting_options_fail [OF sim_status(1) sim_poll down_status, of conflicting_target])
    (simp_all add: conflicting_target_def parallel_target_def)

lemma down_aligned: "all_aligned up_scale (obj down_st)"
  by (auto simp: all_aligned_def aligned_def down_st_def mid_st_def sample_cr_def sample_plan_def mid_plan_def
      plan_status_def split: if_splits)

lemma scaling_outcome_witness:
  "the_plan (snd (scale_restore_plan sim up_scale down_st)) ''p'' = Some (scaled_plan up_scale sample_plan mid_plan)"
proof -
  have "gm_get (sp_restorePlans (esr_spec (obj down_st))) ''p'' = Some sample_plan"
    by (simp add: down_st_def mid_st_def sample_cr_def)
  with scaling_outcome [OF sim_status(1) sim_poll _ down_aligned ran [OF scale_runs(4)]]
  show ?thesis by (simp add: or_zero_def)
qed

lemma scaling_bounds_witness:
  "\<exists>x (c :: restore_target) old. EPatchSTS x \<in> set (mutations (snd (scale_restore_plan sim up_scale down_st)))
     \<and> (case sts_replicas old of None \<Rightarrow> True | Some k \<Rightarrow> k < rt_replicas c) \<and> x = old\<lparr>sts_replicas := Some (rt_replicas c)\<rparr>"
proof -
  let ?es = "mutations (snd (scale_restore_plan sim up_scale down_st))"
  from scale_runs(5) obtain x where x: "EPatchSTS x \<in> set ?es" unfolding list_ex_iff using patch_cases(1) by blast
  have "?es = mutations down_st @ ?es" by simp
  note bounds = scaling_bounds [OF sim_status(1) sim_poll disjI1 [OF refl] down_aligned this, of x sample_deployment]
  from mp [OF conjunct1 [OF bounds] x] obtain c :: restore_target and old
    where "(case sts_replicas old of None \<Rightarrow> True | Some k \<Rightarrow> k < rt_replicas c)" "x = old\<lparr>sts_replicas := Some (rt_replicas c)\<rparr>"
    by (simp only: if_True simp_thms) blast
  with x show ?thesis by blast
qed

section \<open>Status\<close>

lemma patch_contract_witness:
  "trace (snd (set_phase sim PhaseValidating sample_st)) = [EPatchStatus (obj (snd (set_phase sim PhaseValidating sample_st)))]
   \<and> o_phase (obj (snd (set_phase sim PhaseValidating sample_st))) = PhaseValidating"
proof -
  let ?f = "\<lambda>st. Ok (st\<lparr>rs_phase := PhaseValidating\<rparr>)"
  have "patch sim ?f sample_st = (fst (set_phase sim PhaseValidating sample_st), snd (set_phase sim PhaseValidating sample_st))"
    by (simp add: set_phase_def)
  from patch_contract [OF sim_status(1) refl this] show ?thesis
    by (simp add: status_equiv_iff sample_st_def sample_cr_def zero_status_def)
qed

definition sample_status :: "int \<Rightarrow> restore_hook_status" where
  "sample_status n = \<lparr>rhs_name = ''p-rh-h'', rhs_namespace = ''ns'', rhs_checksum = [], rhs_event = PreRestore,
     rhs_failed = 0, rhs_image = [], rhs_mutable = False, rhs_restartPolicy = RestartPolicyUnset,
     rhs_succeeded = n, rhs_configMapRef = None\<rparr>"

lemma hook_status_store_witness:
  "\<exists>st' hs'. mutate_hooks ''p'' (sample_status 1) (esr_status done_cr) = Ok st'
     \<and> (\<exists>ps. plan_status st' ''p'' = Some (ps\<lparr>rps_hooks := hs'\<rparr>))
     \<and> find (\<lambda>x. hook_key x = hook_key (sample_status 1)) hs' = Some (sample_status 1)"
proof -
  obtain st' where st': "mutate_hooks ''p'' (sample_status 1) (esr_status done_cr) = Ok st'" by (simp add: mutate_hooks_eq)
  from hook_status_store [OF st'] st' show ?thesis by blast
qed

section \<open>Hooks\<close>

lemma setup_hooks_from_spec_witness:
  "\<exists>hs keys. setup_restore_hooks sim PreRestore sample_st = (Ok hs, sample_st) \<and> set keys = {(''p'', ''h'')}
     \<and> list_all2 (hook_from_spec sim PreRestore sample_cr (''ebs.aws.edenlab.io/v1alpha1'', ''EBSSnapshotRestore'')) keys hs"
proof -
  have cr: "obj sample_st = sample_cr" by (simp add: sample_st_def)
  have spec: "spec_hook sample_cr key = (if key = (''p'', ''h'') then Some (Some sample_hook) else None)" for key
    by (cases key) (simp add: spec_hook_def plan_hooks_def sample_cr_def sample_plan_def)
  then have keys: "{key. \<exists>st. spec_hook sample_cr key = Some (Some st) \<and> hs_event st = PreRestore} = {(''p'', ''h'')}"
    by (auto simp: sample_hook_def split: if_splits)
  have nn: "no_nil_hooks (obj sample_st)"
    by (simp add: no_nil_hooks_def plan_hooks_def cr sample_cr_def sample_plan_def split: option.split)
  have gvk: "k_gvk_cr sim = Inr (''ebs.aws.edenlab.io/v1alpha1'', ''EBSSnapshotRestore'')" by (simp add: sim_def)
  from conjunct1 [OF setup_hooks_from_spec [OF sim_sha nn gvk, of PreRestore]] show ?thesis
    unfolding cr keys by (elim exE conjE, intro exI conjI) assumption+
qed

definition sample_owner :: owner_reference where
  "sample_owner = \<lparr>or_apiVersion = ''v'', or_kind = ''k'', or_name = ''r'', or_uid = ''u'', or_controller = Some True,
     or_blockOwnerDeletion = Some True\<rparr>"

definition sample_job :: hook_job_settings where
  "sample_job = \<lparr>hj_name = ''p-rh-h'', hj_namespace = ''ns'', hj_args = [''-c''], hj_checksum = [], hj_command = [''sh''],
     hj_event = PreRestore, hj_extraSecrets = [], hj_image = ''busybox'', hj_mutable = False, hj_ownerMeta = sample_owner,
     hj_planName = ''p'', hj_privileges = None, hj_resolvedNodeName = [], hj_restartPolicy = RestartPolicyUnset,
     hj_timeout = None\<rparr>"

definition sample_access :: node_access_privilege where
  "sample_access = \<lparr>na_nodeSelector = Some sample_selector\<rparr>"

definition node_job :: hook_job_settings where
  "node_job = sample_job\<lparr>hj_privileges := Some \<lparr>hp_podExec = True, hp_nodeAccess = Some sample_access\<rparr>\<rparr>"

lemma hook_runs:
  "fst (run_hook sim ''p'' sample_job mid_st) = Ok ()"
  "fst (run_node_access_hook sim ''p'' node_job sample_access mid_st) = Ok ()"
  "fst (run_hooks sim [sample_job, node_job] mid_st) = Ok ()"
  by code_simp+

lemma run_hook_recorded_witness:
  "\<exists>ps st. the_plan (snd (run_hook sim ''p'' sample_job mid_st)) ''p'' = Some ps
     \<and> find (\<lambda>x. hook_key x = (''p-rh-h'', PreRestore)) (rps_hooks ps) = Some st \<and> rhs_succeeded st = 1
     \<and> fst (hook_skip_reason (obj (snd (run_hook sim ''p'' sample_job mid_st))) ''p'' ''p-rh-h'' PreRestore False (rhs_checksum st))"
  using run_hook_recorded [OF sim_status(1,4) sim_poll sim_sha sim_json ran [OF hook_runs(1)]]
  by (auto simp: sample_job_def)

lemma node_hook_everywhere_witness:
  "\<exists>nodes w w'. k_list_nodes sim [] w = (Inr nodes, w')
     \<and> (\<forall>n \<in> set nodes. \<exists>name. per_node_job_name sim ''p-rh-h'' n = Ok name
          \<and> hook_done (obj (snd (run_node_access_hook sim ''p'' node_job sample_access mid_st))) ''p'' name PreRestore)"
proof -
  have "k_selector sim (na_nodeSelector sample_access) = Inr selector \<Longrightarrow> selector = []" for selector
    by (simp add: sim_def)
  then show ?thesis
    using node_hook_everywhere [OF sim_status(1) sim_poll sim_group ran [OF hook_runs(2)]]
    by (auto simp: node_job_def sample_job_def)
qed

lemma hooks_confined_witness:
  "\<exists>es. mutations (snd (run_hooks sim [sample_job, node_job] mid_st)) = mutations mid_st @ es \<and> list_all hook_call es
     \<and> rs_activePlan (the_status (snd (run_hooks sim [sample_job, node_job] mid_st))) = rs_activePlan (the_status mid_st)"
  using hooks_confined [OF sim_status(1) sim_poll sim_group ran [OF hook_runs(3)]] unfolding list_all_iff by blast

lemma job_run: "case fst (prun (build_job sim node_job) mid_st) of Ok j \<Rightarrow> True | _ \<Rightarrow> False"
  by code_simp

lemma job_privileges_witness:
  "\<exists>j. fst (prun (build_job sim node_job) mid_st) = Ok j \<and> job_privileged node_job j"
proof -
  from job_run obtain j where "fst (prun (build_job sim node_job) mid_st) = Ok j" by (auto split: out.splits)
  with job_privileges [OF ran [OF this]] show ?thesis by blast
qed

lemma hook_runs_stored_command_witness:
  "\<exists>es. mutations (snd (prun (execute_hook_job sim sample_job) mid_st)) = mutations mid_st @ es
     \<and> (\<forall>cm. EPatchCM cm \<notin> set es)
     \<and> (\<forall>j. ECreateJob j \<in> set es \<longrightarrow> (\<exists>c w w' cm. ps_containers (j_podSpec j) = [c]
          \<and> k_get_cm sim ''p-rh-h'' ''ns'' w = (Inr cm, w')
          \<and> k_json_unmarshal sim (data_or_empty cm ''command'') = Inr (c_command c)
          \<and> k_json_unmarshal sim (data_or_empty cm ''args'') = Inr (c_args c)))"
  using hook_runs_stored_command [OF sim_poll prod.collapse [symmetric], of sample_job mid_st]
  by (simp add: sample_job_def)

section \<open>Over many reconciles\<close>

text \<open>The plan \<open>a\<close> is locked; one run, which sends the status several times.\<close>

lemma leak_run:
  "case k_get_cr sim ''r'' ''ns'' (world leak_st) of (x, w) \<Rightarrow> x = Inr leak_cr"
  "locked_in ''a'' leak_cr"
  "case reconcile sim ''r'' ''ns'' leak_st of (res, t) \<Rightarrow> list_ex (\<lambda>e. e = EPatchStatus (obj t)) (mutations t)"
  by code_simp+

lemma locked_plan_survives_witness:
  "locked_in ''a'' (obj (snd (reconcile sim ''r'' ''ns'' leak_st)))"
proof -
  obtain res t where run: "reconcile sim ''r'' ''ns'' leak_st = (res, t)" by force
  obtain w where read: "k_get_cr sim ''r'' ''ns'' (world leak_st) = (Inr leak_cr, w)"
    using leak_run(1) by (auto split: prod.splits)
  have "mutations leak_st = []" by (simp add: leak_st_def mutations_def sample_st_def)
  then have "mutations t = mutations leak_st @ mutations t" by simp
  moreover have "obj t \<in> insert leak_cr (sent (mutations t))"
    using leak_run(3) run by (auto simp: list_ex_iff sent_def)
  ultimately have "history sim ''r'' ''ns'' ''a'' leak_cr ([] @ mutations t) ({leak_cr} \<union> sent (mutations t)) (obj t)"
    by (rule history.run [OF history.start read run])
  from locked_plan_survives [OF this sim_good leak_run(2)] show ?thesis using run by simp
qed

lemma leak_order: "visits_first sim (sp_restorePlans (esr_spec leak_cr)) ''a''"
  by (simp add: visits_first_def range_keys_def gets_apply sim_def gm_keys_def leak_cr_def)

lemma leaked_lock_skips_restore_witness:
  "\<not> was_locked leak_cr ''b'' \<and> was_locked (obj (snd (reconcile sim ''r'' ''ns'' leak_st))) ''b''
    \<and> o_phase (obj (snd (reconcile sim ''r'' ''ns'' leak_st))) = PhaseCompleted
    \<and> \<not> list_ex claim_call (trace (snd (reconcile sim ''r'' ''ns'' leak_st)))"
proof -
  obtain res t where run: "reconcile sim ''r'' ''ns'' leak_st = (res, t)" by force
  obtain w where read: "k_get_cr sim ''r'' ''ns'' (world leak_st) = (Inr leak_cr, w)"
    using leak_run(1) by (auto split: prod.splits)
  have "mutations t = mutations leak_st @ mutations t" by (simp add: leak_st_def mutations_def sample_st_def)
  from conjunct2 [OF leaked_lock_skips_restore [OF sim_good run read leak_run(2) leak_order this]]
  have "res = Ok frequency \<Longrightarrow> was_locked (obj t) ''b''"
    by (simp add: in_spec_def leak_cr_def)
  with completed_without_restore run show ?thesis by simp
qed

end
