(* ===== verification/Deep_Copy.thy ===== *)
theory Deep_Copy
  imports Api_Types
begin

text \<open>
  The copies of \<open>api/v1alpha1/zz_generated.deepcopy.go\<close>. The rest of the development takes the custom
  resource for a value; in the code it is a struct whose slices, maps and pointers are references
  to memory that a plain assignment shares. This theory models the memory: structs whose reference
  fields are addresses, a heap of cells, the generated copies that allocate. It shows that a copy
  stands for the same value and shares no memory with the original, which is what \<open>Patch\<close> relies on when
  it compares the status before a mutation with the status after it.
\<close>

section \<open>Memory\<close>

text \<open>
  A heap is the list of its cells, an address is a position; allocation appends a cell, nothing
  is freed. A slice is nil or the address of its array and its length, a map is nil or the address of its
  entries. The structs have the fields of the Go structs, references in place of what they refer to.
\<close>

type_synonym ptr = "nat option"
type_synonym slice = "(nat \<times> nat) option"

record node_access_mem =
  nm_nodeSelector :: ptr

record hook_privileges_mem =
  pm_podExec :: bool
  pm_nodeAccess :: ptr

record hook_settings_mem =
  hm_args :: slice
  hm_command :: slice
  hm_event :: restore_event
  hm_extraSecrets :: slice
  hm_image :: string
  hm_mutable :: bool
  hm_privileges :: ptr
  hm_restartPolicy :: policy
  hm_timeout :: ptr

record restore_target_mem =
  tm_name :: string
  tm_type :: string
  tm_replicas :: int
  tm_namespace :: string
  tm_skipRestoringPVCs :: slice
  tm_skipWaitScaleDown :: bool
  tm_skipWaitScaleUp :: bool
  tm_pvcStorageClass :: ptr
  tm_parallelPodManagement :: bool
  tm_claimSelector :: ptr

record restore_plan_mem =
  lm_clusters :: slice
  lm_operators :: slice
  lm_hooks :: ptr
  lm_snapshotRestoreTime :: string

record restore_spec_mem =
  xm_restorePlans :: ptr

record hook_status_mem =
  km_name :: string
  km_namespace :: string
  km_checksum :: string
  km_event :: restore_event
  km_failed :: int
  km_image :: string
  km_mutable :: bool
  km_restartPolicy :: policy
  km_succeeded :: int
  km_configMapRef :: ptr

record snapshot_ref_mem =
  fm_pvcName :: string
  fm_pvcStorageClass :: ptr
  fm_snapshotUID :: string
  fm_snapshotName :: string
  fm_skipRestoringPVC :: bool

record target_status_mem =
  um_name :: string
  um_namespace :: string
  um_type :: string
  um_snapshotsRef :: slice
  um_podManagementPolicy :: pod_policy
  um_originalReplicas :: int
  um_currentReplicas :: int
  um_phase :: restore_phase
  um_error :: string

record plan_status_mem =
  qm_snapshotRestoreTime :: string
  qm_lock :: bool
  qm_countScaleUp :: int
  qm_clusters :: slice
  qm_operators :: slice
  qm_hooks :: slice

record status_mem =
  zm_phase :: restore_phase
  zm_activePlan :: string
  zm_restorePlans :: ptr
  zm_lastUpdated :: ptr

text \<open>
  \<open>'x\<close> is what the Kubernetes packages keep in memory for their own structs (object metadata, list
  metadata, label selectors).
\<close>

record 'x resource_mem =
  em_typeMeta :: "string \<times> string"
  em_meta :: 'x
  em_spec :: restore_spec_mem
  em_status :: status_mem

record 'x resource_list_mem =
  jm_typeMeta :: "string \<times> string"
  jm_listMeta :: 'x
  jm_items :: slice

text \<open>What one allocated cell holds; \<open>Zeroed\<close> is memory that \<open>new\<close> or \<open>make\<close> has just returned.\<close>

datatype 'x cell =
    Zeroed
  | AString string
  | ADuration int
  | ASelector 'x
  | AForeign 'x
  | ANodeAccess node_access_mem
  | APrivileges hook_privileges_mem
  | ASettings hook_settings_mem
  | APlan restore_plan_mem
  | APlanStatus plan_status_mem
  | AStatus status_mem
  | AResource "'x resource_mem"
  | AResourceList "'x resource_list_mem"
  | AReference configmap_reference
  | ASecret extra_secret_ref
  | ASpec restore_spec_mem
  | ATarget restore_target_mem
  | ASnapshotRef snapshot_ref_mem
  | ATargetStatus target_status_mem
  | AHookStatus hook_status_mem
  | Strings "string list"
  | Secrets "extra_secret_ref list"
  | Targets "restore_target_mem list"
  | SnapshotRefs "snapshot_ref_mem list"
  | TargetStatuses "target_status_mem list"
  | HookStatuses "hook_status_mem list"
  | Resources "'x resource_mem list"
  | HookMap "(string \<times> ptr) list"
  | PlanMap "(string \<times> restore_plan_mem) list"
  | PlanStatusMap "(string \<times> plan_status_mem) list"

type_synonym 'x heap = "'x cell list"

text \<open>A kind of cell: how a value is put into a cell and read from it.\<close>

datatype ('x, 'm) kind = Kind (put: "'m \<Rightarrow> 'x cell") (get: "'x cell \<Rightarrow> 'm option")

definition kind_ok :: "('x, 'm) kind \<Rightarrow> bool" where
  "kind_ok k \<longleftrightarrow> (\<forall>m. get k (put k m) = Some m)"

definition a_string :: "('x, string) kind" where
  "a_string = Kind AString (\<lambda>c. case c of AString x \<Rightarrow> Some x | _ \<Rightarrow> None)"

definition a_duration :: "('x, int) kind" where
  "a_duration = Kind ADuration (\<lambda>c. case c of ADuration x \<Rightarrow> Some x | _ \<Rightarrow> None)"

definition a_selector :: "('x, 'x) kind" where
  "a_selector = Kind ASelector (\<lambda>c. case c of ASelector x \<Rightarrow> Some x | _ \<Rightarrow> None)"

definition a_node_access :: "('x, node_access_mem) kind" where
  "a_node_access = Kind ANodeAccess (\<lambda>c. case c of ANodeAccess x \<Rightarrow> Some x | _ \<Rightarrow> None)"

definition a_privileges :: "('x, hook_privileges_mem) kind" where
  "a_privileges = Kind APrivileges (\<lambda>c. case c of APrivileges x \<Rightarrow> Some x | _ \<Rightarrow> None)"

definition a_settings :: "('x, hook_settings_mem) kind" where
  "a_settings = Kind ASettings (\<lambda>c. case c of ASettings x \<Rightarrow> Some x | _ \<Rightarrow> None)"

definition a_plan :: "('x, restore_plan_mem) kind" where
  "a_plan = Kind APlan (\<lambda>c. case c of APlan x \<Rightarrow> Some x | _ \<Rightarrow> None)"

definition a_plan_status :: "('x, plan_status_mem) kind" where
  "a_plan_status = Kind APlanStatus (\<lambda>c. case c of APlanStatus x \<Rightarrow> Some x | _ \<Rightarrow> None)"

definition a_status :: "('x, status_mem) kind" where
  "a_status = Kind AStatus (\<lambda>c. case c of AStatus x \<Rightarrow> Some x | _ \<Rightarrow> None)"

definition a_resource :: "('x, 'x resource_mem) kind" where
  "a_resource = Kind AResource (\<lambda>c. case c of AResource x \<Rightarrow> Some x | _ \<Rightarrow> None)"

definition a_resource_list :: "('x, 'x resource_list_mem) kind" where
  "a_resource_list = Kind AResourceList (\<lambda>c. case c of AResourceList x \<Rightarrow> Some x | _ \<Rightarrow> None)"

definition a_reference :: "('x, configmap_reference) kind" where
  "a_reference = Kind AReference (\<lambda>c. case c of AReference x \<Rightarrow> Some x | _ \<Rightarrow> None)"

definition strings :: "('x, string list) kind" where
  "strings = Kind Strings (\<lambda>c. case c of Strings x \<Rightarrow> Some x | _ \<Rightarrow> None)"

definition secrets :: "('x, extra_secret_ref list) kind" where
  "secrets = Kind Secrets (\<lambda>c. case c of Secrets x \<Rightarrow> Some x | _ \<Rightarrow> None)"

definition targets :: "('x, restore_target_mem list) kind" where
  "targets = Kind Targets (\<lambda>c. case c of Targets x \<Rightarrow> Some x | _ \<Rightarrow> None)"

definition snapshot_refs :: "('x, snapshot_ref_mem list) kind" where
  "snapshot_refs = Kind SnapshotRefs (\<lambda>c. case c of SnapshotRefs x \<Rightarrow> Some x | _ \<Rightarrow> None)"

definition target_statuses :: "('x, target_status_mem list) kind" where
  "target_statuses = Kind TargetStatuses (\<lambda>c. case c of TargetStatuses x \<Rightarrow> Some x | _ \<Rightarrow> None)"

definition hook_statuses :: "('x, hook_status_mem list) kind" where
  "hook_statuses = Kind HookStatuses (\<lambda>c. case c of HookStatuses x \<Rightarrow> Some x | _ \<Rightarrow> None)"

definition resources :: "('x, 'x resource_mem list) kind" where
  "resources = Kind Resources (\<lambda>c. case c of Resources x \<Rightarrow> Some x | _ \<Rightarrow> None)"

definition hook_map :: "('x, (string \<times> ptr) list) kind" where
  "hook_map = Kind HookMap (\<lambda>c. case c of HookMap x \<Rightarrow> Some x | _ \<Rightarrow> None)"

definition plan_map :: "('x, (string \<times> restore_plan_mem) list) kind" where
  "plan_map = Kind PlanMap (\<lambda>c. case c of PlanMap x \<Rightarrow> Some x | _ \<Rightarrow> None)"

definition plan_status_map :: "('x, (string \<times> plan_status_mem) list) kind" where
  "plan_status_map = Kind PlanStatusMap (\<lambda>c. case c of PlanStatusMap x \<Rightarrow> Some x | _ \<Rightarrow> None)"

definition a_secret :: "('x, extra_secret_ref) kind" where
  "a_secret = Kind ASecret (\<lambda>c. case c of ASecret x \<Rightarrow> Some x | _ \<Rightarrow> None)"

definition a_spec :: "('x, restore_spec_mem) kind" where
  "a_spec = Kind ASpec (\<lambda>c. case c of ASpec x \<Rightarrow> Some x | _ \<Rightarrow> None)"

definition a_target :: "('x, restore_target_mem) kind" where
  "a_target = Kind ATarget (\<lambda>c. case c of ATarget x \<Rightarrow> Some x | _ \<Rightarrow> None)"

definition a_snapshot_ref :: "('x, snapshot_ref_mem) kind" where
  "a_snapshot_ref = Kind ASnapshotRef (\<lambda>c. case c of ASnapshotRef x \<Rightarrow> Some x | _ \<Rightarrow> None)"

definition a_target_status :: "('x, target_status_mem) kind" where
  "a_target_status = Kind ATargetStatus (\<lambda>c. case c of ATargetStatus x \<Rightarrow> Some x | _ \<Rightarrow> None)"

definition a_hook_status :: "('x, hook_status_mem) kind" where
  "a_hook_status = Kind AHookStatus (\<lambda>c. case c of AHookStatus x \<Rightarrow> Some x | _ \<Rightarrow> None)"

lemmas kinds = a_string_def a_duration_def a_selector_def a_node_access_def
  a_privileges_def a_settings_def a_plan_def a_plan_status_def a_status_def a_resource_def
  a_resource_list_def a_reference_def strings_def secrets_def targets_def snapshot_refs_def
  target_statuses_def hook_statuses_def resources_def hook_map_def plan_map_def plan_status_map_def
  a_secret_def a_spec_def a_target_def a_snapshot_ref_def a_target_status_def a_hook_status_def

lemma kinds_ok [simp]:
  "kind_ok a_string" "kind_ok a_duration" "kind_ok a_selector" "kind_ok a_node_access"
  "kind_ok a_privileges" "kind_ok a_settings" "kind_ok a_plan" "kind_ok a_plan_status" "kind_ok a_status"
  "kind_ok a_resource" "kind_ok a_resource_list" "kind_ok a_reference" "kind_ok strings" "kind_ok secrets"
  "kind_ok targets" "kind_ok snapshot_refs" "kind_ok target_statuses" "kind_ok hook_statuses"
  "kind_ok resources" "kind_ok hook_map" "kind_ok plan_map" "kind_ok plan_status_map"
  "kind_ok a_secret" "kind_ok a_spec" "kind_ok a_target" "kind_ok a_snapshot_ref" "kind_ok a_target_status" "kind_ok a_hook_status"
  by (simp_all add: kind_ok_def kinds)

section \<open>Copies\<close>

text \<open>
  A copy reads a struct and returns the struct to be written and the heap with what it allocated.
  \<open>copy_shallow\<close> is \<open>*out = *in\<close> of a struct without references.
\<close>

type_synonym ('m, 'x) copier = "'m \<Rightarrow> 'x heap \<Rightarrow> 'm \<times> 'x heap"

definition copy_shallow :: "('m, 'x) copier" where
  "copy_shallow m h = (m, h)"

text \<open>
  \<open>*out = new(T)\<close>, then \<open>DeepCopyInto(*out)\<close>: memory is allocated, the copy of the struct goes there. It is
  also what \<open>make\<close> and the loop that follows do for the cells of an array or a map.
\<close>

definition copy_to_new :: "('x, 'm) kind \<Rightarrow> ('m, 'x) copier \<Rightarrow> 'm \<Rightarrow> 'x heap \<Rightarrow> nat \<times> 'm \<times> 'x heap" where
  "copy_to_new k copy m h =
     (let out = length h
      in case copy m (h @ [Zeroed]) of (m', h') \<Rightarrow> (out, m', h'[out := put k m']))"

text \<open>
  A pointer field, and the method \<open>DeepCopy\<close>: nil stays nil. The last case would be a cell of another
  type, which Go's types rule out.
\<close>

definition copy_ptr :: "('x, 'm) kind \<Rightarrow> ('m, 'x) copier \<Rightarrow> (ptr, 'x) copier" where
  "copy_ptr k copy p h =
     (case p of
        None \<Rightarrow> (None, h)
      | Some a \<Rightarrow> (case get k (h ! a) of
            Some m \<Rightarrow> (case copy_to_new k copy m h of (out, m', h') \<Rightarrow> (Some out, h'))
          | None \<Rightarrow> (p, h)))"

text \<open>The value of a map entry: \<open>(*out)[key] = *val.DeepCopy()\<close>.\<close>

definition copy_deref :: "('x, 'm) kind \<Rightarrow> ('m, 'x) copier \<Rightarrow> ('m, 'x) copier" where
  "copy_deref k copy m h = (case copy_to_new k copy m h of (out, m', h') \<Rightarrow> (m', h'))"

text \<open>The loop over the elements of an array, and the loop over the entries of a map.\<close>

fun copy_each :: "('m, 'x) copier \<Rightarrow> ('m list, 'x) copier" where
  "copy_each copy [] h = ([], h)"
| "copy_each copy (m # ms) h =
     (case copy m h of (m', h1) \<Rightarrow> case copy_each copy ms h1 of (ms', h2) \<Rightarrow> (m' # ms', h2))"

definition copy_entry :: "('m, 'x) copier \<Rightarrow> (string \<times> 'm, 'x) copier" where
  "copy_entry copy kv h = (case copy (snd kv) h of (m', h') \<Rightarrow> ((fst kv, m'), h'))"

definition copy_map :: "('x, (string \<times> 'm) list) kind \<Rightarrow> ('m, 'x) copier \<Rightarrow> (ptr, 'x) copier" where
  "copy_map k copy = copy_ptr k (copy_each (copy_entry copy))"

text \<open>A slice field: \<open>make\<close> with the length of the slice, then the elements.\<close>

definition copy_slice :: "('x, 'm list) kind \<Rightarrow> ('m, 'x) copier \<Rightarrow> (slice, 'x) copier" where
  "copy_slice k copy sl h =
     (case sl of
        None \<Rightarrow> (None, h)
      | Some (a, n) \<Rightarrow> (case get k (h ! a) of
            Some ms \<Rightarrow> (case copy_to_new k (copy_each copy) (take n ms) h of
              (out, ms', h') \<Rightarrow> (Some (out, n), h'))
          | None \<Rightarrow> (sl, h)))"

section \<open>What a struct in memory stands for\<close>

type_synonym ('x, 'm, 'v) rep = "'x heap \<Rightarrow> 'm \<Rightarrow> 'v \<Rightarrow> bool"

definition is_same :: "('x, 'm, 'm) rep" where
  "is_same h m v \<longleftrightarrow> m = v"

fun is_each :: "('x, 'm, 'v) rep \<Rightarrow> ('x, 'm list, 'v list) rep" where
  "is_each R h [] vs \<longleftrightarrow> vs = []"
| "is_each R h (m # ms) vs \<longleftrightarrow> (case vs of [] \<Rightarrow> False | v # vs' \<Rightarrow> R h m v \<and> is_each R h ms vs')"

definition is_entry :: "('x, 'm, 'v) rep \<Rightarrow> ('x, string \<times> 'm, string \<times> 'v) rep" where
  "is_entry R h m v \<longleftrightarrow> fst m = fst v \<and> R h (snd m) (snd v)"

definition is_ptr :: "('x, 'm) kind \<Rightarrow> ('x, 'm, 'v) rep \<Rightarrow> ('x, ptr, 'v option) rep" where
  "is_ptr k R h p v \<longleftrightarrow>
     (case p of
        None \<Rightarrow> v = None
      | Some a \<Rightarrow> a < length h \<and> (case get k (h ! a) of None \<Rightarrow> False
           | Some m \<Rightarrow> (case v of None \<Rightarrow> False | Some x \<Rightarrow> R h m x)))"

definition is_map :: "('x, (string \<times> 'm) list) kind \<Rightarrow> ('x, 'm, 'v) rep \<Rightarrow> ('x, ptr, 'v gomap) rep" where
  "is_map k R = is_ptr k (is_each (is_entry R))"

definition is_slice :: "('x, 'm list) kind \<Rightarrow> ('x, 'm, 'v) rep \<Rightarrow> ('x, slice, 'v list) rep" where
  "is_slice k R h sl vs \<longleftrightarrow>
     (case sl of
        None \<Rightarrow> vs = []
      | Some (a, n) \<Rightarrow> a < length h \<and> (case get k (h ! a) of None \<Rightarrow> False
           | Some ms \<Rightarrow> n \<le> length ms \<and> is_each R h (take n ms) vs))"

section \<open>The contract of a copy\<close>

text \<open>
  \<open>owned lo R h m v\<close>: the struct stands for the value, and whether it does depends only on the cells of \<open>h\<close>
  from \<open>lo\<close> on; a heap that has these cells, whatever else it has, keeps it.
\<close>

definition owned :: "nat \<Rightarrow> ('x, 'm, 'v) rep \<Rightarrow> ('x, 'm, 'v) rep" where
  "owned lo R h m v \<longleftrightarrow> (\<forall>g. length h \<le> length g \<longrightarrow> (\<forall>a. lo \<le> a \<and> a < length h \<longrightarrow> g ! a = h ! a) \<longrightarrow> R g m v)"

lemma ownedD: "owned lo R h m v \<Longrightarrow> R h m v"
  by (simp add: owned_def)

lemma owned_append: "owned lo R h m v \<Longrightarrow> owned lo R (h @ ext) m v"
  by (simp add: owned_def nth_append)

lemma owned_lower: "owned lo R h m v \<Longrightarrow> lo' \<le> lo \<Longrightarrow> owned lo' R h m v"
  by (simp add: owned_def)

lemma owned_write: "owned lo R h m v \<Longrightarrow> a < lo \<Longrightarrow> owned lo R (h[a := c]) m v"
  by (simp add: owned_def)

text \<open>
  What \<open>DeepCopyInto\<close> promises: a struct stands for a value by cells of its heap only, the copy leaves them
  as they are and allocates after them, and the new struct stands for the same value by new cells only.
\<close>

locale deep_copier =
  fixes R :: "('x, 'm, 'v) rep" and copy :: "('m, 'x) copier"
  assumes local: "R h m v \<Longrightarrow> owned 0 R h m v"
    and fresh: "R h m v \<Longrightarrow> copy m h = (m', h') \<Longrightarrow> (\<exists>ext. h' = h @ ext) \<and> owned (length h) R h' m' v"
begin

lemma grown: "R h m v \<Longrightarrow> R (h @ ext) m v"
  by (rule ownedD [OF owned_append [OF local]])

lemma copied:
  assumes "R h m v" and "copy m h = (m', h')"
  obtains ext where "h' = h @ ext" and "owned (length h) R (h @ ext) m' v"
  using fresh [OF assms] by blast

lemma same_value: "R h m v \<Longrightarrow> copy m h = (m', h') \<Longrightarrow> R h' m' v"
  using fresh by (blast dest: ownedD)

lemma to_new:
  assumes "R h m v" and "copy_to_new k copy m h = (out, m', h')"
  obtains ext where "out = length h" and "h' = h @ put k m' # ext" and "owned (Suc (length h)) R h' m' v"
proof -
  obtain m1 h1 where c: "copy m (h @ [Zeroed]) = (m1, h1)" by force
  from copied [OF grown [OF assms(1)] this] obtain ext where h1: "h1 = (h @ [Zeroed]) @ ext"
    and own: "owned (length (h @ [Zeroed])) R ((h @ [Zeroed]) @ ext) m1 v" .
  from assms(2) c have "out = length h" "m1 = m'" "h' = h1[length h := put k m']"
    by (auto simp: copy_to_new_def Let_def)
  moreover from own h1 have "owned (Suc (length h)) R (h1[length h := put k m']) m1 v"
    by (intro owned_write) simp_all
  ultimately show thesis using that h1 by simp
qed

lemma ptr:
  assumes k: "kind_ok k"
  shows "deep_copier (is_ptr k R) (copy_ptr k copy)"
proof
  fix h p v assume "is_ptr k R h p v"
  then show "owned 0 (is_ptr k R) h p v"
    using local by (fastforce simp: is_ptr_def owned_def split: option.splits)
next
  fix h p v p' h' assume rep: "is_ptr k R h p v" and run: "copy_ptr k copy p h = (p', h')"
  show "(\<exists>ext. h' = h @ ext) \<and> owned (length h) (is_ptr k R) h' p' v"
  proof (cases p)
    case None
    with rep run show ?thesis by (simp add: is_ptr_def copy_ptr_def owned_def)
  next
    case (Some a)
    with rep obtain m x where m: "get k (h ! a) = Some m" "v = Some x" "R h m x"
      by (auto simp: is_ptr_def split: option.splits)
    obtain out m' h1 where new: "copy_to_new k copy m h = (out, m', h1)" by (metis prod_cases3)
    with run Some m have res: "p' = Some out" "h' = h1" by (simp_all add: copy_ptr_def)
    from to_new [OF m(3) new] obtain ext where ext: "out = length h" "h1 = h @ put k m' # ext"
      and own: "owned (Suc (length h)) R h1 m' x" .
    from own have "owned (length h) (is_ptr k R) h' p' v"
      using k by (simp add: owned_def is_ptr_def res ext m(2) kind_ok_def)
    with res ext show ?thesis by simp
  qed
qed

lemma deref: "deep_copier R (copy_deref k copy)"
proof
  fix h m v assume "R h m v"
  then show "owned 0 R h m v" by (rule local)
next
  fix h m v m' h' assume rep: "R h m v" and run: "copy_deref k copy m h = (m', h')"
  then obtain out where "copy_to_new k copy m h = (out, m', h')"
    by (auto simp: copy_deref_def split: prod.splits)
  from to_new [OF rep this] obtain ext where "h' = h @ put k m' # ext" "owned (Suc (length h)) R h' m' v" .
  then show "(\<exists>ext. h' = h @ ext) \<and> owned (length h) R h' m' v" by (auto intro: owned_lower)
qed

lemma each_local: "is_each R h ms vs \<Longrightarrow> owned 0 (is_each R) h ms vs"
  by (induction ms arbitrary: vs) (auto simp: owned_def split: list.splits dest!: local)

lemma each_fresh: "is_each R h ms vs \<Longrightarrow> copy_each copy ms h = (ms', h') \<Longrightarrow>
    (\<exists>ext. h' = h @ ext) \<and> owned (length h) (is_each R) h' ms' vs"
proof (induction ms arbitrary: vs h ms' h')
  case Nil
  then show ?case by (simp add: owned_def)
next
  case (Cons m ms)
  then obtain v vs' where vs: "vs = v # vs'" and rep: "R h m v" "is_each R h ms vs'" by (cases vs) auto
  obtain m' h1 where c: "copy m h = (m', h1)" by force
  obtain rest h2 where cs: "copy_each copy ms h1 = (rest, h2)" by force
  from copied [OF rep(1) c] obtain ext where h1: "h1 = h @ ext" and one: "owned (length h) R h1 m' v" by blast
  from each_local [OF rep(2)] have "is_each R h1 ms vs'" unfolding h1 by (rule ownedD [OF owned_append])
  from Cons.IH [OF this cs] obtain ext' where h2: "h2 = h1 @ ext'"
    and others: "owned (length h1) (is_each R) h2 rest vs'" by blast
  have "owned (length h) R h2 m' v" unfolding h2 by (rule owned_append [OF one])
  moreover have "owned (length h) (is_each R) h2 rest vs'" by (rule owned_lower [OF others]) (simp add: h1)
  ultimately have "owned (length h) (is_each R) h2 (m' # rest) vs" by (simp add: owned_def vs)
  with Cons.prems(2) c cs show ?case by (auto simp: h1 h2)
qed

lemma each: "deep_copier (is_each R) (copy_each copy)"
  by unfold_locales (rule each_local, assumption, rule each_fresh)

lemma entry: "deep_copier (is_entry R) (copy_entry copy)"
proof
  fix h kv v assume "is_entry R h kv v"
  then show "owned 0 (is_entry R) h kv v" using local by (fastforce simp: is_entry_def owned_def)
next
  fix h kv v kv' h' assume rep: "is_entry R h kv v" and run: "copy_entry copy kv h = (kv', h')"
  then obtain m' where c: "copy (snd kv) h = (m', h')" "kv' = (fst kv, m')"
    by (auto simp: copy_entry_def split: prod.splits)
  with fresh [of h "snd kv" "snd v" m' h'] rep
  show "(\<exists>ext. h' = h @ ext) \<and> owned (length h) (is_entry R) h' kv' v"
    by (auto simp: is_entry_def owned_def)
qed

lemma each_length: "copy_each copy ms h = (ms', h') \<Longrightarrow> length ms' = length ms"
  by (induction ms arbitrary: h ms' h') (auto split: prod.splits)

lemma slice:
  assumes k: "kind_ok k"
  shows "deep_copier (is_slice k R) (copy_slice k copy)"
proof
  fix h p v assume "is_slice k R h p v"
  then show "owned 0 (is_slice k R) h p v"
    using each_local by (fastforce simp: is_slice_def owned_def split: option.splits prod.splits)
next
  fix h p v p' h' assume rep: "is_slice k R h p v" and run: "copy_slice k copy p h = (p', h')"
  show "(\<exists>ext. h' = h @ ext) \<and> owned (length h) (is_slice k R) h' p' v"
  proof (cases p)
    case None
    with rep run show ?thesis by (simp add: is_slice_def copy_slice_def owned_def)
  next
    case (Some an)
    then obtain a n where p: "p = Some (a, n)" by (cases an) auto
    with rep obtain ms where m: "get k (h ! a) = Some ms" "n \<le> length ms" "is_each R h (take n ms) v"
      by (auto simp: is_slice_def split: option.splits)
    obtain out ms' h1 where new: "copy_to_new k (copy_each copy) (take n ms) h = (out, ms', h1)" by (metis prod_cases3)
    with run p m have res: "p' = Some (out, n)" "h' = h1" by (simp_all add: copy_slice_def)
    from deep_copier.to_new [OF each m(3) new] obtain ext where ext: "out = length h" "h1 = h @ put k ms' # ext"
      and own: "owned (Suc (length h)) (is_each R) h1 ms' v" .
    from new m(2) have "length ms' = n"
      by (auto simp: copy_to_new_def Let_def split: prod.splits dest: each_length)
    with own have "owned (length h) (is_slice k R) h' p' v"
      using k by (simp add: owned_def is_slice_def res ext kind_ok_def)
    with res ext show ?thesis by simp
  qed
qed

end

lemma copier_shallow: "deep_copier is_same copy_shallow"
  by unfold_locales (auto simp: is_same_def copy_shallow_def owned_def)

section \<open>Structs with several references\<close>

definition copy_pair :: "('m, 'x) copier \<Rightarrow> ('n, 'x) copier \<Rightarrow> ('m \<times> 'n, 'x) copier" where
  "copy_pair c1 c2 mn h = (case c1 (fst mn) h of (m', h1) \<Rightarrow> case c2 (snd mn) h1 of (n', h2) \<Rightarrow> ((m', n'), h2))"

definition is_pair :: "('x, 'm, 'v) rep \<Rightarrow> ('x, 'n, 'w) rep \<Rightarrow> ('x, 'm \<times> 'n, 'v \<times> 'w) rep" where
  "is_pair R1 R2 h mn vw \<longleftrightarrow> R1 h (fst mn) (fst vw) \<and> R2 h (snd mn) (snd vw)"

lemma copier_pair:
  assumes "deep_copier R1 c1" and "deep_copier R2 c2"
  shows "deep_copier (is_pair R1 R2) (copy_pair c1 c2)"
proof
  fix h mn vw assume "is_pair R1 R2 h mn vw"
  then show "owned 0 (is_pair R1 R2) h mn vw"
    using deep_copier.local [OF assms(1)] deep_copier.local [OF assms(2)] by (fastforce simp: is_pair_def owned_def)
next
  fix h mn vw mn' h' assume rep: "is_pair R1 R2 h mn vw" and run: "copy_pair c1 c2 mn h = (mn', h')"
  obtain m' h1 where 1: "c1 (fst mn) h = (m', h1)" by force
  obtain n' h2 where 2: "c2 (snd mn) h1 = (n', h2)" by force
  from rep have reps: "R1 h (fst mn) (fst vw)" "R2 h (snd mn) (snd vw)" by (simp_all add: is_pair_def)
  from deep_copier.copied [OF assms(1) reps(1) 1] obtain e1 where h1: "h1 = h @ e1"
    and own1: "owned (length h) R1 h1 m' (fst vw)" by blast
  from deep_copier.grown [OF assms(2) reps(2), of e1] 2 h1 have "R2 h1 (snd mn) (snd vw)" by simp
  from deep_copier.copied [OF assms(2) this 2] obtain e2 where h2: "h2 = h1 @ e2"
    and own2: "owned (length h1) R2 h2 n' (snd vw)" by blast
  have "owned (length h) R1 h2 m' (fst vw)" unfolding h2 by (rule owned_append [OF own1])
  moreover have "owned (length h) R2 h2 n' (snd vw)" by (rule owned_lower [OF own2]) (simp add: h1)
  ultimately have "owned (length h) (is_pair R1 R2) h2 (m', n') vw" by (simp add: owned_def is_pair_def)
  moreover from run 1 2 have "mn' = (m', n')" "h' = h2" by (simp_all add: copy_pair_def)
  ultimately show "(\<exists>ext. h' = h @ ext) \<and> owned (length h) (is_pair R1 R2) h' mn' vw" by (simp add: h1 h2)
qed

text \<open>
  A struct: \<open>refs\<close> reads its reference fields, which a copier \<open>c\<close> copies, \<open>with_refs\<close> is the struct with new
  references; \<open>flat\<close> is what the other fields stand for.
\<close>

lemma copier_struct:
  assumes c: "deep_copier R c"
    and rep: "\<And>h m v. S h m v \<longleftrightarrow> flat m v \<and> R h (refs m) (val v)"
    and copy: "\<And>m h. copy m h = (case c (refs m) h of (x, h') \<Rightarrow> (with_refs x m, h'))"
    and keeps: "\<And>x m v. flat m v \<Longrightarrow> flat (with_refs x m) v" and new: "\<And>x m. refs (with_refs x m) = x"
  shows "deep_copier S copy"
proof
  fix h m v assume "S h m v"
  then show "owned 0 S h m v" using deep_copier.local [OF c] by (fastforce simp: rep owned_def)
next
  fix h m v m' h' assume s: "S h m v" and run: "copy m h = (m', h')"
  obtain x h1 where x: "c (refs m) h = (x, h1)" by force
  with run have res: "m' = with_refs x m" "h' = h1" by (simp_all add: copy)
  from s have "R h (refs m) (val v)" "flat m v" by (simp_all add: rep)
  from deep_copier.fresh [OF c this(1) x] this(2)
  show "(\<exists>ext. h' = h @ ext) \<and> owned (length h) S h' m' v"
    by (simp add: res owned_def rep keeps new)
qed

section \<open>Foreign structs\<close>

text \<open>
  The copies of the Kubernetes packages, which the generated code calls, and what their structs stand for:
  label selectors, object metadata (name, namespace and uid), list metadata, times.
\<close>

record 'x foreign =
  copy_selector :: "('x, 'x) copier"
  copy_meta :: "('x, 'x) copier"
  copy_list_meta :: "('x, 'x) copier"
  copy_time :: "(nat, 'x) copier"
  is_selector :: "('x, 'x, label_selector) rep"
  is_meta :: "('x, 'x, string \<times> string \<times> string) rep"
  is_list_meta :: "('x, 'x, opaque) rep"
  is_time :: "('x, nat, int) rep"

text \<open>They are deep copies too.\<close>

definition foreign_ok :: "'x foreign \<Rightarrow> bool" where
  "foreign_ok f \<longleftrightarrow> deep_copier (is_selector f) (copy_selector f) \<and> deep_copier (is_meta f) (copy_meta f)
     \<and> deep_copier (is_list_meta f) (copy_list_meta f) \<and> deep_copier (is_time f) (copy_time f)"

text \<open>\<open>*out = (*in).DeepCopy()\<close> for a pointer to a time that is not nil.\<close>

definition copy_time_ptr :: "'x foreign \<Rightarrow> (ptr, 'x) copier" where
  "copy_time_ptr f p h = (case p of None \<Rightarrow> (None, h)
     | Some a \<Rightarrow> (case copy_time f a h of (a', h') \<Rightarrow> (Some a', h')))"

definition is_time_ptr :: "'x foreign \<Rightarrow> ('x, ptr, int option) rep" where
  "is_time_ptr f h p v \<longleftrightarrow> (case p of None \<Rightarrow> v = None
     | Some a \<Rightarrow> (case v of None \<Rightarrow> False | Some t \<Rightarrow> is_time f h a t))"

section \<open>Hooks\<close>

definition copy_node_access :: "'x foreign \<Rightarrow> (node_access_mem, 'x) copier" where
  "copy_node_access f m h =
     (case copy_ptr a_selector (copy_selector f) (nm_nodeSelector m) h of
       (nodeSelector, h1) \<Rightarrow> (m\<lparr>nm_nodeSelector := nodeSelector\<rparr>, h1))"

definition copy_privileges :: "'x foreign \<Rightarrow> (hook_privileges_mem, 'x) copier" where
  "copy_privileges f m h =
     (case copy_ptr a_node_access (copy_node_access f) (pm_nodeAccess m) h of
       (nodeAccess, h1) \<Rightarrow> (m\<lparr>pm_nodeAccess := nodeAccess\<rparr>, h1))"

definition copy_settings :: "'x foreign \<Rightarrow> (hook_settings_mem, 'x) copier" where
  "copy_settings f m h =
     (case copy_slice strings copy_shallow (hm_args m) h of (args, h1) \<Rightarrow>
      case copy_slice strings copy_shallow (hm_command m) h1 of (command, h2) \<Rightarrow>
      case copy_slice secrets copy_shallow (hm_extraSecrets m) h2 of (extraSecrets, h3) \<Rightarrow>
      case copy_ptr a_privileges (copy_privileges f) (hm_privileges m) h3 of (privileges, h4) \<Rightarrow>
      case copy_ptr a_duration copy_shallow (hm_timeout m) h4 of (timeout, h5) \<Rightarrow>
        (m\<lparr>hm_args := args, hm_command := command, hm_extraSecrets := extraSecrets,
           hm_privileges := privileges, hm_timeout := timeout\<rparr>, h5))"

definition copy_hook_status :: "(hook_status_mem, 'x) copier" where
  "copy_hook_status m h =
     (case copy_ptr a_reference copy_shallow (km_configMapRef m) h of
       (configMapRef, h1) \<Rightarrow> (m\<lparr>km_configMapRef := configMapRef\<rparr>, h1))"

section \<open>The spec\<close>

definition copy_target :: "'x foreign \<Rightarrow> (restore_target_mem, 'x) copier" where
  "copy_target f m h =
     (case copy_slice strings copy_shallow (tm_skipRestoringPVCs m) h of (skipRestoringPVCs, h1) \<Rightarrow>
      case copy_ptr a_string copy_shallow (tm_pvcStorageClass m) h1 of (pvcStorageClass, h2) \<Rightarrow>
      case copy_ptr a_selector (copy_selector f) (tm_claimSelector m) h2 of (claimSelector, h3) \<Rightarrow>
        (m\<lparr>tm_skipRestoringPVCs := skipRestoringPVCs, tm_pvcStorageClass := pvcStorageClass,
           tm_claimSelector := claimSelector\<rparr>, h3))"

definition copy_plan :: "'x foreign \<Rightarrow> (restore_plan_mem, 'x) copier" where
  "copy_plan f m h =
     (case copy_slice targets (copy_target f) (lm_clusters m) h of (clusters, h1) \<Rightarrow>
      case copy_slice targets (copy_target f) (lm_operators m) h1 of (operators, h2) \<Rightarrow>
      case copy_map hook_map (copy_ptr a_settings (copy_settings f)) (lm_hooks m) h2 of (hooks, h3) \<Rightarrow>
        (m\<lparr>lm_clusters := clusters, lm_operators := operators, lm_hooks := hooks\<rparr>, h3))"

definition copy_spec :: "'x foreign \<Rightarrow> (restore_spec_mem, 'x) copier" where
  "copy_spec f m h =
     (case copy_map plan_map (copy_deref a_plan (copy_plan f)) (xm_restorePlans m) h of
       (restorePlans, h1) \<Rightarrow> (m\<lparr>xm_restorePlans := restorePlans\<rparr>, h1))"

section \<open>The status\<close>

definition copy_snapshot_ref :: "(snapshot_ref_mem, 'x) copier" where
  "copy_snapshot_ref m h =
     (case copy_ptr a_string copy_shallow (fm_pvcStorageClass m) h of
       (pvcStorageClass, h1) \<Rightarrow> (m\<lparr>fm_pvcStorageClass := pvcStorageClass\<rparr>, h1))"

definition copy_target_status :: "(target_status_mem, 'x) copier" where
  "copy_target_status m h =
     (case copy_slice snapshot_refs copy_snapshot_ref (um_snapshotsRef m) h of
       (snapshotsRef, h1) \<Rightarrow> (m\<lparr>um_snapshotsRef := snapshotsRef\<rparr>, h1))"

definition copy_plan_status :: "(plan_status_mem, 'x) copier" where
  "copy_plan_status m h =
     (case copy_slice target_statuses copy_target_status (qm_clusters m) h of (clusters, h1) \<Rightarrow>
      case copy_slice target_statuses copy_target_status (qm_operators m) h1 of (operators, h2) \<Rightarrow>
      case copy_slice hook_statuses copy_hook_status (qm_hooks m) h2 of (hooks, h3) \<Rightarrow>
        (m\<lparr>qm_clusters := clusters, qm_operators := operators, qm_hooks := hooks\<rparr>, h3))"

definition copy_status :: "'x foreign \<Rightarrow> (status_mem, 'x) copier" where
  "copy_status f m h =
     (case copy_map plan_status_map (copy_deref a_plan_status copy_plan_status) (zm_restorePlans m) h of
        (restorePlans, h1) \<Rightarrow>
      case copy_time_ptr f (zm_lastUpdated m) h1 of (lastUpdated, h2) \<Rightarrow>
        (m\<lparr>zm_restorePlans := restorePlans, zm_lastUpdated := lastUpdated\<rparr>, h2))"

section \<open>The resource\<close>

definition copy_resource :: "'x foreign \<Rightarrow> ('x resource_mem, 'x) copier" where
  "copy_resource f m h =
     (case copy_meta f (em_meta m) h of (meta, h1) \<Rightarrow>
      case copy_spec f (em_spec m) h1 of (spec, h2) \<Rightarrow>
      case copy_status f (em_status m) h2 of (status, h3) \<Rightarrow>
        (m\<lparr>em_meta := meta, em_spec := spec, em_status := status\<rparr>, h3))"

definition copy_resource_list :: "'x foreign \<Rightarrow> ('x resource_list_mem, 'x) copier" where
  "copy_resource_list f m h =
     (case copy_list_meta f (jm_listMeta m) h of (listMeta, h1) \<Rightarrow>
      case copy_slice resources (copy_resource f) (jm_items m) h1 of (items, h2) \<Rightarrow>
        (m\<lparr>jm_listMeta := listMeta, jm_items := items\<rparr>, h2))"

text \<open>The methods \<open>DeepCopy\<close>, one for each struct.\<close>

definition deep_copy_reference :: "(ptr, 'x) copier" where
  "deep_copy_reference = copy_ptr a_reference copy_shallow"

definition deep_copy_secret :: "(ptr, 'x) copier" where
  "deep_copy_secret = copy_ptr a_secret copy_shallow"

definition deep_copy_node_access :: "'x foreign \<Rightarrow> (ptr, 'x) copier" where
  "deep_copy_node_access f = copy_ptr a_node_access (copy_node_access f)"

definition deep_copy_privileges :: "'x foreign \<Rightarrow> (ptr, 'x) copier" where
  "deep_copy_privileges f = copy_ptr a_privileges (copy_privileges f)"

definition deep_copy_settings :: "'x foreign \<Rightarrow> (ptr, 'x) copier" where
  "deep_copy_settings f = copy_ptr a_settings (copy_settings f)"

definition deep_copy_hook_status :: "(ptr, 'x) copier" where
  "deep_copy_hook_status = copy_ptr a_hook_status copy_hook_status"

definition deep_copy_target :: "'x foreign \<Rightarrow> (ptr, 'x) copier" where
  "deep_copy_target f = copy_ptr a_target (copy_target f)"

definition deep_copy_plan :: "'x foreign \<Rightarrow> (ptr, 'x) copier" where
  "deep_copy_plan f = copy_ptr a_plan (copy_plan f)"

definition deep_copy_spec :: "'x foreign \<Rightarrow> (ptr, 'x) copier" where
  "deep_copy_spec f = copy_ptr a_spec (copy_spec f)"

definition deep_copy_snapshot_ref :: "(ptr, 'x) copier" where
  "deep_copy_snapshot_ref = copy_ptr a_snapshot_ref copy_snapshot_ref"

definition deep_copy_target_status :: "(ptr, 'x) copier" where
  "deep_copy_target_status = copy_ptr a_target_status copy_target_status"

definition deep_copy_plan_status :: "(ptr, 'x) copier" where
  "deep_copy_plan_status = copy_ptr a_plan_status copy_plan_status"

definition deep_copy_status :: "'x foreign \<Rightarrow> (ptr, 'x) copier" where
  "deep_copy_status f = copy_ptr a_status (copy_status f)"

definition deep_copy_resource :: "'x foreign \<Rightarrow> (ptr, 'x) copier" where
  "deep_copy_resource f = copy_ptr a_resource (copy_resource f)"

definition deep_copy_resource_list :: "'x foreign \<Rightarrow> (ptr, 'x) copier" where
  "deep_copy_resource_list f = copy_ptr a_resource_list (copy_resource_list f)"

text \<open>\<open>DeepCopyObject\<close>: the copy as an interface value, which is nil when the pointer is.\<close>

definition deep_copy_object :: "(ptr, 'x) copier \<Rightarrow> (ptr, 'x) copier" where
  "deep_copy_object deepCopy p h = (case deepCopy p h of (c, h') \<Rightarrow> if c \<noteq> None then (c, h') else (None, h'))"

section \<open>What the structs stand for\<close>

text \<open>The fields without references, and the struct as a whole.\<close>

definition is_node_access :: "'x foreign \<Rightarrow> ('x, node_access_mem, node_access_privilege) rep" where
  "is_node_access f h m v \<longleftrightarrow> is_ptr a_selector (is_selector f) h (nm_nodeSelector m) (na_nodeSelector v)"

definition is_privileges :: "'x foreign \<Rightarrow> ('x, hook_privileges_mem, hook_privileges) rep" where
  "is_privileges f h m v \<longleftrightarrow> pm_podExec m = hp_podExec v
     \<and> is_ptr a_node_access (is_node_access f) h (pm_nodeAccess m) (hp_nodeAccess v)"

definition is_settings :: "'x foreign \<Rightarrow> ('x, hook_settings_mem, hook_settings) rep" where
  "is_settings f h m v \<longleftrightarrow>
     (hm_event m = hs_event v \<and> hm_image m = hs_image v \<and> hm_mutable m = hs_mutable v
       \<and> hm_restartPolicy m = hs_restartPolicy v)
     \<and> is_slice strings is_same h (hm_args m) (hs_args v)
     \<and> is_slice strings is_same h (hm_command m) (hs_command v)
     \<and> is_slice secrets is_same h (hm_extraSecrets m) (hs_extraSecrets v)
     \<and> is_ptr a_privileges (is_privileges f) h (hm_privileges m) (hs_privileges v)
     \<and> is_ptr a_duration is_same h (hm_timeout m) (hs_timeout v)"

definition same_hook_status :: "hook_status_mem \<Rightarrow> restore_hook_status \<Rightarrow> bool" where
  "same_hook_status m v \<longleftrightarrow>
     km_name m = rhs_name v \<and> km_namespace m = rhs_namespace v \<and> km_checksum m = rhs_checksum v
     \<and> km_event m = rhs_event v \<and> km_failed m = rhs_failed v \<and> km_image m = rhs_image v
     \<and> km_mutable m = rhs_mutable v \<and> km_restartPolicy m = rhs_restartPolicy v
     \<and> km_succeeded m = rhs_succeeded v"

definition is_hook_status :: "('x, hook_status_mem, restore_hook_status) rep" where
  "is_hook_status h m v \<longleftrightarrow> same_hook_status m v
     \<and> is_ptr a_reference is_same h (km_configMapRef m) (rhs_configMapRef v)"

definition same_target :: "restore_target_mem \<Rightarrow> restore_target \<Rightarrow> bool" where
  "same_target m v \<longleftrightarrow>
     tm_name m = rt_name v \<and> tm_type m = rt_type v \<and> tm_replicas m = rt_replicas v
     \<and> tm_namespace m = rt_namespace v \<and> tm_skipWaitScaleDown m = rt_skipWaitScaleDown v
     \<and> tm_skipWaitScaleUp m = rt_skipWaitScaleUp v
     \<and> tm_parallelPodManagement m = rt_parallelPodManagement v"

definition is_target :: "'x foreign \<Rightarrow> ('x, restore_target_mem, restore_target) rep" where
  "is_target f h m v \<longleftrightarrow> same_target m v
     \<and> is_slice strings is_same h (tm_skipRestoringPVCs m) (rt_skipRestoringPVCs v)
     \<and> is_ptr a_string is_same h (tm_pvcStorageClass m) (rt_pvcStorageClass v)
     \<and> is_ptr a_selector (is_selector f) h (tm_claimSelector m) (rt_claimSelector v)"

definition is_plan :: "'x foreign \<Rightarrow> ('x, restore_plan_mem, restore_plan) rep" where
  "is_plan f h m v \<longleftrightarrow> lm_snapshotRestoreTime m = rp_snapshotRestoreTime v
     \<and> is_slice targets (is_target f) h (lm_clusters m) (rp_clusters v)
     \<and> is_slice targets (is_target f) h (lm_operators m) (rp_operators v)
     \<and> is_map hook_map (is_ptr a_settings (is_settings f)) h (lm_hooks m) (rp_hooks v)"

definition is_spec :: "'x foreign \<Rightarrow> ('x, restore_spec_mem, restore_spec) rep" where
  "is_spec f h m v \<longleftrightarrow> is_map plan_map (is_plan f) h (xm_restorePlans m) (sp_restorePlans v)"

definition is_snapshot_ref :: "('x, snapshot_ref_mem, restore_snapshot_ref) rep" where
  "is_snapshot_ref h m v \<longleftrightarrow>
     (fm_pvcName m = sr_pvcName v \<and> fm_snapshotUID m = sr_snapshotUID v
       \<and> fm_snapshotName m = sr_snapshotName v \<and> fm_skipRestoringPVC m = sr_skipRestoringPVC v)
     \<and> is_ptr a_string is_same h (fm_pvcStorageClass m) (sr_pvcStorageClass v)"

definition same_target_status :: "target_status_mem \<Rightarrow> restore_target_status \<Rightarrow> bool" where
  "same_target_status m v \<longleftrightarrow>
     um_name m = rts_name v \<and> um_namespace m = rts_namespace v \<and> um_type m = rts_type v
     \<and> um_podManagementPolicy m = rts_podManagementPolicy v
     \<and> um_originalReplicas m = rts_originalReplicas v \<and> um_currentReplicas m = rts_currentReplicas v
     \<and> um_phase m = rts_phase v \<and> um_error m = rts_error v"

definition is_target_status :: "('x, target_status_mem, restore_target_status) rep" where
  "is_target_status h m v \<longleftrightarrow> same_target_status m v
     \<and> is_slice snapshot_refs is_snapshot_ref h (um_snapshotsRef m) (rts_snapshotsRef v)"

definition is_plan_status :: "('x, plan_status_mem, restore_plan_status) rep" where
  "is_plan_status h m v \<longleftrightarrow>
     (qm_snapshotRestoreTime m = rps_snapshotRestoreTime v \<and> qm_lock m = rps_lock v
       \<and> qm_countScaleUp m = rps_countScaleUp v)
     \<and> is_slice target_statuses is_target_status h (qm_clusters m) (rps_clusters v)
     \<and> is_slice target_statuses is_target_status h (qm_operators m) (rps_operators v)
     \<and> is_slice hook_statuses is_hook_status h (qm_hooks m) (rps_hooks v)"

definition is_status :: "'x foreign \<Rightarrow> ('x, status_mem, restore_status) rep" where
  "is_status f h m v \<longleftrightarrow> (zm_phase m = rs_phase v \<and> zm_activePlan m = rs_activePlan v)
     \<and> is_map plan_status_map is_plan_status h (zm_restorePlans m) (rs_restorePlans v)
     \<and> is_time_ptr f h (zm_lastUpdated m) (rs_lastUpdated v)"

text \<open>With the type metadata, which the value of the resource leaves out.\<close>

definition is_resource :: "'x foreign \<Rightarrow> ('x, 'x resource_mem, (string \<times> string) \<times> ebs_snapshot_restore) rep" where
  "is_resource f h m v \<longleftrightarrow> em_typeMeta m = fst v
     \<and> is_meta f h (em_meta m) (esr_name (snd v), esr_namespace (snd v), esr_uid (snd v))
     \<and> is_spec f h (em_spec m) (esr_spec (snd v)) \<and> is_status f h (em_status m) (esr_status (snd v))"

definition is_resource_list :: "'x foreign \<Rightarrow>
    ('x, 'x resource_list_mem, (string \<times> string) \<times> opaque \<times> ((string \<times> string) \<times> ebs_snapshot_restore) list) rep" where
  "is_resource_list f h m v \<longleftrightarrow> jm_typeMeta m = fst v \<and> is_list_meta f h (jm_listMeta m) (fst (snd v))
     \<and> is_slice resources (is_resource f) h (jm_items m) (snd (snd v))"

section \<open>Every copy keeps the contract\<close>

lemma copier_map: "deep_copier R copy \<Longrightarrow> kind_ok k \<Longrightarrow> deep_copier (is_map k R) (copy_map k copy)"
  unfolding is_map_def copy_map_def by (intro deep_copier.ptr deep_copier.each deep_copier.entry)

lemmas copiers = deep_copier.ptr deep_copier.slice deep_copier.deref copier_map copier_shallow copier_pair kinds_ok

lemmas pairs = copy_pair_def is_pair_def

lemma foreign_copiers:
  assumes "foreign_ok f"
  shows "deep_copier (is_selector f) (copy_selector f)" and "deep_copier (is_meta f) (copy_meta f)"
    and "deep_copier (is_list_meta f) (copy_list_meta f)" and "deep_copier (is_time f) (copy_time f)"
  using assms by (simp_all add: foreign_ok_def)

lemma copier_time_ptr:
  assumes "deep_copier (is_time f) (copy_time f)"
  shows "deep_copier (is_time_ptr f) (copy_time_ptr f)"
proof
  fix h p v assume "is_time_ptr f h p v"
  then show "owned 0 (is_time_ptr f) h p v"
    using deep_copier.local [OF assms] by (fastforce simp: is_time_ptr_def owned_def split: option.splits)
next
  fix h p v p' h' assume "is_time_ptr f h p v" and "copy_time_ptr f p h = (p', h')"
  then show "(\<exists>ext. h' = h @ ext) \<and> owned (length h) (is_time_ptr f) h' p' v"
    using deep_copier.fresh [OF assms]
    by (auto simp: is_time_ptr_def copy_time_ptr_def owned_def split: option.splits prod.splits)
qed

lemma copier_node_access: "foreign_ok f \<Longrightarrow> deep_copier (is_node_access f) (copy_node_access f)"
  by (rule copier_struct [where refs = nm_nodeSelector and val = na_nodeSelector and flat = "\<lambda>_ _. True"
        and with_refs = "\<lambda>x m. m\<lparr>nm_nodeSelector := x\<rparr>", OF deep_copier.ptr [OF foreign_copiers(1) kinds_ok(3)]])
    (simp_all add: is_node_access_def copy_node_access_def)

lemma copier_privileges: "foreign_ok f \<Longrightarrow> deep_copier (is_privileges f) (copy_privileges f)"
  by (rule copier_struct [where refs = pm_nodeAccess and val = hp_nodeAccess and flat = "\<lambda>m v. pm_podExec m = hp_podExec v"
        and with_refs = "\<lambda>x m. m\<lparr>pm_nodeAccess := x\<rparr>", OF deep_copier.ptr [OF copier_node_access kinds_ok(4)]])
    (simp_all add: is_privileges_def copy_privileges_def)

lemma copier_settings:
  assumes "foreign_ok f"
  shows "deep_copier (is_settings f) (copy_settings f)"
  by (rule copier_struct [where refs = "\<lambda>m. (hm_args m, hm_command m, hm_extraSecrets m, hm_privileges m, hm_timeout m)"
        and val = "\<lambda>v. (hs_args v, hs_command v, hs_extraSecrets v, hs_privileges v, hs_timeout v)"
        and with_refs = "\<lambda>(a, b, c, d, e) m. m\<lparr>hm_args := a, hm_command := b, hm_extraSecrets := c, hm_privileges := d, hm_timeout := e\<rparr>"
        and flat = "\<lambda>m v. hm_event m = hs_event v \<and> hm_image m = hs_image v \<and> hm_mutable m = hs_mutable v \<and> hm_restartPolicy m = hs_restartPolicy v",
      OF copier_pair [OF deep_copier.slice [OF copier_shallow kinds_ok(13)]
        copier_pair [OF deep_copier.slice [OF copier_shallow kinds_ok(13)]
        copier_pair [OF deep_copier.slice [OF copier_shallow kinds_ok(14)]
        copier_pair [OF deep_copier.ptr [OF copier_privileges [OF assms] kinds_ok(5)] deep_copier.ptr [OF copier_shallow kinds_ok(2)]]]]]])
    (simp_all add: is_settings_def copy_settings_def pairs split: prod.split)

lemma copier_hook_status:
  shows "deep_copier is_hook_status copy_hook_status"
  by (rule copier_struct [where refs = "\<lambda>m. km_configMapRef m"
        and val = "\<lambda>v. rhs_configMapRef v"
        and with_refs = "\<lambda>a m. m\<lparr>km_configMapRef := a\<rparr>"
        and flat = "\<lambda>m v. same_hook_status m v",
      OF deep_copier.ptr [OF copier_shallow kinds_ok(12)]])
    (simp_all add: is_hook_status_def copy_hook_status_def same_hook_status_def split: prod.split)

lemma copier_target:
  assumes "foreign_ok f"
  shows "deep_copier (is_target f) (copy_target f)"
  by (rule copier_struct [where refs = "\<lambda>m. (tm_skipRestoringPVCs m, tm_pvcStorageClass m, tm_claimSelector m)"
        and val = "\<lambda>v. (rt_skipRestoringPVCs v, rt_pvcStorageClass v, rt_claimSelector v)"
        and with_refs = "\<lambda>(a, b, c) m. m\<lparr>tm_skipRestoringPVCs := a, tm_pvcStorageClass := b, tm_claimSelector := c\<rparr>"
        and flat = "\<lambda>m v. same_target m v",
      OF copier_pair [OF deep_copier.slice [OF copier_shallow kinds_ok(13)]
        copier_pair [OF deep_copier.ptr [OF copier_shallow kinds_ok(1)] deep_copier.ptr [OF foreign_copiers(1) [OF assms] kinds_ok(3)]]]])
    (simp_all add: is_target_def copy_target_def pairs same_target_def split: prod.split)

lemma copier_plan:
  assumes "foreign_ok f"
  shows "deep_copier (is_plan f) (copy_plan f)"
  by (rule copier_struct [where refs = "\<lambda>m. (lm_clusters m, lm_operators m, lm_hooks m)"
        and val = "\<lambda>v. (rp_clusters v, rp_operators v, rp_hooks v)"
        and with_refs = "\<lambda>(a, b, c) m. m\<lparr>lm_clusters := a, lm_operators := b, lm_hooks := c\<rparr>"
        and flat = "\<lambda>m v. lm_snapshotRestoreTime m = rp_snapshotRestoreTime v",
      OF copier_pair [OF deep_copier.slice [OF copier_target [OF assms] kinds_ok(15)]
        copier_pair [OF deep_copier.slice [OF copier_target [OF assms] kinds_ok(15)] copier_map [OF deep_copier.ptr [OF copier_settings [OF assms] kinds_ok(6)] kinds_ok(20)]]]])
    (simp_all add: is_plan_def copy_plan_def pairs split: prod.split)

lemma copier_spec:
  assumes "foreign_ok f"
  shows "deep_copier (is_spec f) (copy_spec f)"
  by (rule copier_struct [where refs = "\<lambda>m. xm_restorePlans m"
        and val = "\<lambda>v. sp_restorePlans v"
        and with_refs = "\<lambda>a m. m\<lparr>xm_restorePlans := a\<rparr>"
        and flat = "\<lambda>m v. True",
      OF copier_map [OF deep_copier.deref [where k = a_plan, OF copier_plan [OF assms]] kinds_ok(21)]])
    (simp_all add: is_spec_def copy_spec_def split: prod.split)

lemma copier_snapshot_ref:
  shows "deep_copier is_snapshot_ref copy_snapshot_ref"
  by (rule copier_struct [where refs = "\<lambda>m. fm_pvcStorageClass m"
        and val = "\<lambda>v. sr_pvcStorageClass v"
        and with_refs = "\<lambda>a m. m\<lparr>fm_pvcStorageClass := a\<rparr>"
        and flat = "\<lambda>m v. fm_pvcName m = sr_pvcName v \<and> fm_snapshotUID m = sr_snapshotUID v
          \<and> fm_snapshotName m = sr_snapshotName v \<and> fm_skipRestoringPVC m = sr_skipRestoringPVC v",
      OF deep_copier.ptr [OF copier_shallow kinds_ok(1)]])
    (simp_all add: is_snapshot_ref_def copy_snapshot_ref_def split: prod.split)

lemma copier_target_status:
  shows "deep_copier is_target_status copy_target_status"
  by (rule copier_struct [where refs = "\<lambda>m. um_snapshotsRef m"
        and val = "\<lambda>v. rts_snapshotsRef v"
        and with_refs = "\<lambda>a m. m\<lparr>um_snapshotsRef := a\<rparr>"
        and flat = "\<lambda>m v. same_target_status m v",
      OF deep_copier.slice [OF copier_snapshot_ref kinds_ok(16)]])
    (simp_all add: is_target_status_def copy_target_status_def same_target_status_def split: prod.split)

lemma copier_plan_status:
  shows "deep_copier is_plan_status copy_plan_status"
  by (rule copier_struct [where refs = "\<lambda>m. (qm_clusters m, qm_operators m, qm_hooks m)"
        and val = "\<lambda>v. (rps_clusters v, rps_operators v, rps_hooks v)"
        and with_refs = "\<lambda>(a, b, c) m. m\<lparr>qm_clusters := a, qm_operators := b, qm_hooks := c\<rparr>"
        and flat = "\<lambda>m v. qm_snapshotRestoreTime m = rps_snapshotRestoreTime v \<and> qm_lock m = rps_lock v
          \<and> qm_countScaleUp m = rps_countScaleUp v",
      OF copier_pair [OF deep_copier.slice [OF copier_target_status kinds_ok(17)]
        copier_pair [OF deep_copier.slice [OF copier_target_status kinds_ok(17)] deep_copier.slice [OF copier_hook_status kinds_ok(18)]]]])
    (simp_all add: is_plan_status_def copy_plan_status_def pairs split: prod.split)

lemma copier_status:
  assumes "foreign_ok f"
  shows "deep_copier (is_status f) (copy_status f)"
  by (rule copier_struct [where refs = "\<lambda>m. (zm_restorePlans m, zm_lastUpdated m)"
        and val = "\<lambda>v. (rs_restorePlans v, rs_lastUpdated v)"
        and with_refs = "\<lambda>(a, b) m. m\<lparr>zm_restorePlans := a, zm_lastUpdated := b\<rparr>"
        and flat = "\<lambda>m v. zm_phase m = rs_phase v \<and> zm_activePlan m = rs_activePlan v",
      OF copier_pair [OF copier_map [OF deep_copier.deref [where k = a_plan_status, OF copier_plan_status] kinds_ok(22)] copier_time_ptr [OF foreign_copiers(4) [OF assms]]]])
    (simp_all add: is_status_def copy_status_def pairs split: prod.split)

lemma copier_resource:
  assumes "foreign_ok f"
  shows "deep_copier (is_resource f) (copy_resource f)"
  by (rule copier_struct [where refs = "\<lambda>m. (em_meta m, em_spec m, em_status m)"
        and val = "\<lambda>v. ((esr_name (snd v), esr_namespace (snd v), esr_uid (snd v)), esr_spec (snd v), esr_status (snd v))"
        and with_refs = "\<lambda>(a, b, c) m. m\<lparr>em_meta := a, em_spec := b, em_status := c\<rparr>"
        and flat = "\<lambda>m v. em_typeMeta m = fst v",
      OF copier_pair [OF foreign_copiers(2) [OF assms]
        copier_pair [OF copier_spec [OF assms] copier_status [OF assms]]]])
    (simp_all add: is_resource_def copy_resource_def pairs split: prod.split)

lemma copier_resource_list:
  assumes "foreign_ok f"
  shows "deep_copier (is_resource_list f) (copy_resource_list f)"
  by (rule copier_struct [where refs = "\<lambda>m. (jm_listMeta m, jm_items m)"
        and val = "\<lambda>v. (fst (snd v), snd (snd v))"
        and with_refs = "\<lambda>(a, b) m. m\<lparr>jm_listMeta := a, jm_items := b\<rparr>"
        and flat = "\<lambda>m v. jm_typeMeta m = fst v",
      OF copier_pair [OF foreign_copiers(3) [OF assms] deep_copier.slice [OF copier_resource [OF assms] kinds_ok(19)]]])
    (simp_all add: is_resource_list_def copy_resource_list_def pairs split: prod.split)

text \<open>\<open>DeepCopyObject\<close> adds nothing: in particular it never wraps a nil pointer in a non-nil interface.\<close>

lemma deep_copy_object_same: "deep_copy_object c = c"
  by (intro ext) (simp add: deep_copy_object_def split: prod.split)

text \<open>Every method \<open>DeepCopy\<close> keeps the contract, for pointers.\<close>

lemma deep_copies:
  assumes "foreign_ok f"
  shows "deep_copier (is_ptr a_reference is_same) deep_copy_reference"
    and "deep_copier (is_ptr a_secret is_same) deep_copy_secret"
    and "deep_copier (is_ptr a_node_access (is_node_access f)) (deep_copy_node_access f)"
    and "deep_copier (is_ptr a_privileges (is_privileges f)) (deep_copy_privileges f)"
    and "deep_copier (is_ptr a_settings (is_settings f)) (deep_copy_settings f)"
    and "deep_copier (is_ptr a_hook_status is_hook_status) deep_copy_hook_status"
    and "deep_copier (is_ptr a_target (is_target f)) (deep_copy_target f)"
    and "deep_copier (is_ptr a_plan (is_plan f)) (deep_copy_plan f)"
    and "deep_copier (is_ptr a_spec (is_spec f)) (deep_copy_spec f)"
    and "deep_copier (is_ptr a_snapshot_ref is_snapshot_ref) deep_copy_snapshot_ref"
    and "deep_copier (is_ptr a_target_status is_target_status) deep_copy_target_status"
    and "deep_copier (is_ptr a_plan_status is_plan_status) deep_copy_plan_status"
    and "deep_copier (is_ptr a_status (is_status f)) (deep_copy_status f)"
    and "deep_copier (is_ptr a_resource (is_resource f)) (deep_copy_resource f)"
    and "deep_copier (is_ptr a_resource_list (is_resource_list f)) (deep_copy_resource_list f)"
  unfolding deep_copy_reference_def deep_copy_secret_def deep_copy_node_access_def deep_copy_privileges_def deep_copy_settings_def deep_copy_hook_status_def deep_copy_target_def deep_copy_plan_def deep_copy_spec_def deep_copy_snapshot_ref_def deep_copy_target_status_def deep_copy_plan_status_def deep_copy_status_def deep_copy_resource_def deep_copy_resource_list_def
  by (intro deep_copier.ptr kinds_ok copier_shallow copier_node_access copier_privileges copier_settings copier_hook_status
      copier_target copier_plan copier_spec copier_snapshot_ref copier_target_status copier_plan_status copier_status
      copier_resource copier_resource_list assms)+

interpretation hook_status_copy: deep_copier is_hook_status copy_hook_status
  by (rule copier_hook_status)

interpretation target_status_copy: deep_copier is_target_status copy_target_status
  by (rule copier_target_status)

interpretation plan_status_copy: deep_copier is_plan_status copy_plan_status
  by (rule copier_plan_status)

section \<open>The copies that Patch makes\<close>

text \<open>
  \<open>oldObj := obj.DeepCopy()\<close>, \<open>beforePtr := obj.Status.DeepCopy()\<close>, \<open>after := *beforePtr.DeepCopy()\<close>; \<open>r\<close> is
  the struct that \<open>obj\<close> points to, \<open>was\<close> the struct \<open>*beforePtr\<close>, \<open>now\<close> the struct \<open>after\<close>.
\<close>

definition patch_copies ::
  "'x foreign \<Rightarrow> nat \<Rightarrow> 'x resource_mem \<Rightarrow> 'x heap \<Rightarrow> ptr \<times> nat \<times> status_mem \<times> status_mem \<times> 'x heap \<times> 'x heap" where
  "patch_copies f obj r h =
     (case deep_copy_resource f (Some obj) h of (oldObj, h1) \<Rightarrow>
      case copy_to_new a_status (copy_status f) (em_status r) h1 of (beforePtr, was, h2) \<Rightarrow>
      case copy_deref a_status (copy_status f) was h2 of (now, h3) \<Rightarrow>
        (oldObj, beforePtr, was, now, h2, h3))"

abbreviation is_resource_ptr :: "'x foreign \<Rightarrow> ('x, ptr, ((string \<times> string) \<times> ebs_snapshot_restore) option) rep" where
  "is_resource_ptr f \<equiv> is_ptr a_resource (is_resource f)"

text \<open>A heap keeps the first \<open>n\<close> cells of another one.\<close>

definition keeps_cells :: "nat \<Rightarrow> 'x heap \<Rightarrow> 'x heap \<Rightarrow> bool" where
  "keeps_cells n h g \<longleftrightarrow> n \<le> length g \<and> take n g = take n h"

lemma keeps_cells_rep:
  assumes "deep_copier R c" and "R h m v" and "length h \<le> n" and "keeps_cells n (h @ ext) g"
  shows "R g m v"
proof -
  from assms(3,4) have "length h \<le> length g" by (simp add: keeps_cells_def)
  moreover have "g ! a = h ! a" if "a < length h" for a
  proof -
    from that assms(3) have "g ! a = take n g ! a" by simp
    also have "\<dots> = take n (h @ ext) ! a" using assms(4) by (simp add: keeps_cells_def)
    finally show ?thesis using that assms(3) by (simp add: nth_append)
  qed
  ultimately show ?thesis using deep_copier.local [OF assms(1,2)] by (simp add: owned_def)
qed

text \<open>C30: The copies that \<open>Patch\<close> makes keep the status before the mutation: whatever the mutation writes into
  the copy it is given, or allocates, the object, the base of the merge patch and the status that the result
  is compared with stand for what was read; and the copy starts as the status that was read, in
  memory that nothing else refers to.\<close>

theorem patch_copies_isolated:
  assumes "foreign_ok f" and "is_resource_ptr f h (Some obj) (Some v)" and "get a_resource (h ! obj) = Some r"
    and "patch_copies f obj r h = (oldObj, beforePtr, was, now, h2, h3)"
    and "keeps_cells (length h2) h3 g"
  shows "is_resource_ptr f g (Some obj) (Some v) \<and> is_resource_ptr f g oldObj (Some v)
    \<and> is_status f g was (esr_status (snd v)) \<and> owned (length h2) (is_status f) h3 now (esr_status (snd v))"
proof -
  note resource = deep_copier.ptr [OF copier_resource [OF assms(1)] kinds_ok(10)]
  note status = copier_status [OF assms(1)]
  from assms(4) obtain h1 where
      1: "deep_copy_resource f (Some obj) h = (oldObj, h1)"
    and 2: "copy_to_new a_status (copy_status f) (em_status r) h1 = (beforePtr, was, h2)"
    and 3: "copy_deref a_status (copy_status f) was h2 = (now, h3)"
    by (auto simp: patch_copies_def split: prod.splits)
  from deep_copier.copied [OF resource assms(2) 1 [unfolded deep_copy_resource_def]] obtain e1
    where h1: "h1 = h @ e1" and old: "is_resource_ptr f h1 oldObj (Some v)" by (metis ownedD)
  from assms(2,3) have "is_status f h (em_status r) (esr_status (snd v))" by (simp add: is_ptr_def is_resource_def)
  then have "is_status f h1 (em_status r) (esr_status (snd v))" unfolding h1 by (rule deep_copier.grown [OF status])
  from deep_copier.to_new [OF status this 2] obtain e2 where h2: "h2 = h1 @ e2"
    and b: "is_status f h2 was (esr_status (snd v))" by (metis ownedD)
  from deep_copier.copied [OF deep_copier.deref [OF status] b 3] obtain e3 where h3: "h3 = h2 @ e3"
    and a: "owned (length h2) (is_status f) h3 now (esr_status (snd v))" by metis
  have "is_resource_ptr f g (Some obj) (Some v)"
    by (rule keeps_cells_rep [OF resource assms(2) _ assms(5) [unfolded h3 h2 h1 append_assoc]]) simp
  moreover have "is_resource_ptr f g oldObj (Some v)"
    by (rule keeps_cells_rep [OF resource old _ assms(5) [unfolded h3 h2 append_assoc]]) simp
  moreover have "is_status f g was (esr_status (snd v))"
    by (rule keeps_cells_rep [OF status b _ assms(5) [unfolded h3]]) simp
  ultimately show ?thesis using a by blast
qed

section \<open>A mutation in place\<close>

text \<open>
  Foreign structs that keep one string behind a pointer, a resource with one plan and one hook entry, and
  a mutation that overwrites the entry in the array of the copy, as the setter of hook statuses does.
\<close>

definition sample_foreign :: "ptr foreign" where
  "sample_foreign = \<lparr>copy_selector = copy_ptr a_string copy_shallow, copy_meta = copy_ptr a_string copy_shallow,
     copy_list_meta = copy_ptr a_string copy_shallow, copy_time = copy_shallow,
     is_selector = (\<lambda>h p v. ls_matchLabels v = None \<and> is_ptr a_string is_same h p (Some (ls_matchExpressions v))),
     is_meta = (\<lambda>h p v. snd v = (''ns'', ''u'') \<and> is_ptr a_string is_same h p (Some (fst v))),
     is_list_meta = (\<lambda>h p v. is_ptr a_string is_same h p (Some v)), is_time = (\<lambda>h a t. int a = t)\<rparr>"

lemma sample_foreign_ok: "foreign_ok sample_foreign"
proof -
  note string_ptr = deep_copier.ptr [OF copier_shallow kinds_ok(1)]
  have "deep_copier (is_selector sample_foreign) (copy_selector sample_foreign)"
    by (rule copier_struct [where refs = "\<lambda>m. m" and with_refs = "\<lambda>x m. x" and val = "\<lambda>v. Some (ls_matchExpressions v)"
          and flat = "\<lambda>m v. ls_matchLabels v = None", OF string_ptr]) (simp_all add: sample_foreign_def)
  moreover have "deep_copier (is_meta sample_foreign) (copy_meta sample_foreign)"
    by (rule copier_struct [where refs = "\<lambda>m. m" and with_refs = "\<lambda>x m. x" and val = "\<lambda>v. Some (fst v)"
          and flat = "\<lambda>m v. snd v = (''ns'', ''u'')", OF string_ptr]) (simp_all add: sample_foreign_def)
  moreover have "deep_copier (is_list_meta sample_foreign) (copy_list_meta sample_foreign)"
    by (rule copier_struct [where refs = "\<lambda>m. m" and with_refs = "\<lambda>x m. x" and val = Some
          and flat = "\<lambda>m v. True", OF string_ptr]) (simp_all add: sample_foreign_def)
  moreover have "deep_copier (is_time sample_foreign) (copy_time sample_foreign)"
    by unfold_locales (auto simp: sample_foreign_def copy_shallow_def owned_def)
  ultimately show ?thesis by (simp add: foreign_ok_def)
qed

definition sample_entry :: "int \<Rightarrow> hook_status_mem" where
  "sample_entry n = \<lparr>km_name = ''h'', km_namespace = ''ns'', km_checksum = ''c'', km_event = PreRestore, km_failed = 0,
     km_image = ''i'', km_mutable = False, km_restartPolicy = RestartPolicyNever, km_succeeded = n, km_configMapRef = None\<rparr>"

definition sample_resource :: "ptr resource_mem" where
  "sample_resource = \<lparr>em_typeMeta = (''v1'', ''R''), em_meta = Some 1, em_spec = \<lparr>xm_restorePlans = None\<rparr>,
     em_status = \<lparr>zm_phase = PhaseIdle, zm_activePlan = ''p'', zm_restorePlans = Some 2, zm_lastUpdated = Some 5\<rparr>\<rparr>"

definition sample_heap :: "ptr heap" where
  "sample_heap = [AResource sample_resource, AString ''r'',
     PlanStatusMap [(''p'', \<lparr>qm_snapshotRestoreTime = ''t'', qm_lock = True, qm_countScaleUp = 1, qm_clusters = None,
       qm_operators = None, qm_hooks = Some (3, 1)\<rparr>)],
     HookStatuses [sample_entry 0]]"

definition sample_copied :: "int \<Rightarrow> restore_status" where
  "sample_copied n = \<lparr>rs_phase = PhaseIdle, rs_activePlan = ''p'', rs_restorePlans = Some [(''p'', zero_plan_status\<lparr>
     rps_snapshotRestoreTime := ''t'', rps_lock := True, rps_countScaleUp := 1, rps_hooks := [\<lparr>rhs_name = ''h'',
       rhs_namespace = ''ns'', rhs_checksum = ''c'', rhs_event = PreRestore, rhs_failed = 0, rhs_image = ''i'',
       rhs_mutable = False, rhs_restartPolicy = RestartPolicyNever, rhs_succeeded = n, rhs_configMapRef = None\<rparr>]\<rparr>)],
     rs_lastUpdated = Some 5\<rparr>"

definition sample_value :: "(string \<times> string) \<times> ebs_snapshot_restore" where
  "sample_value = ((''v1'', ''R''), \<lparr>esr_name = ''r'', esr_namespace = ''ns'', esr_uid = ''u'',
     esr_spec = \<lparr>sp_restorePlans = None\<rparr>, esr_status = sample_copied 0\<rparr>)"

lemmas sample_defs = sample_foreign_def sample_entry_def sample_resource_def sample_heap_def sample_copied_def
  sample_value_def zero_plan_status_def

lemma patch_copies_isolated_witness:
  "case patch_copies sample_foreign 0 sample_resource sample_heap of (oldObj, beforePtr, was, now, h2, h3) \<Rightarrow>
     let g = h3[16 := HookStatuses [sample_entry 1]]
     in is_status sample_foreign g was (sample_copied 0) \<and> is_status sample_foreign g now (sample_copied 1)"
proof -
  obtain oldObj beforePtr was now h2 h3
    where run: "patch_copies sample_foreign 0 sample_resource sample_heap = (oldObj, beforePtr, was, now, h2, h3)"
    by (metis prod_cases6)
  let ?g = "h3[16 := HookStatuses [sample_entry 1]]"
  have obj: "is_resource_ptr sample_foreign sample_heap (Some 0) (Some sample_value)" by code_simp
  have r: "get a_resource (sample_heap ! 0) = Some sample_resource" by code_simp
  have "case patch_copies sample_foreign 0 sample_resource sample_heap of (oldObj, beforePtr, was, now, h2, h3) \<Rightarrow>
      length h2 = 13 \<and> length h2 \<le> length h3
      \<and> is_status sample_foreign (h3[16 := HookStatuses [sample_entry 1]]) now (sample_copied 1)" by code_simp
  with run have h2: "length h2 = 13" "length h2 \<le> length h3" and new: "is_status sample_foreign ?g now (sample_copied 1)"
    by simp_all
  then have "keeps_cells (length h2) h3 ?g" by (simp add: keeps_cells_def)
  from patch_copies_isolated [OF sample_foreign_ok obj r run this]
  have "is_status sample_foreign ?g was (sample_copied 0)" by (simp add: sample_value_def)
  with run new show ?thesis by (simp add: Let_def)
qed

end
