(* ===== verification/Startup.thy ===== *)
theory Startup
  imports Prelude
begin

text \<open>
  The start of the process: \<open>cmd/main.go\<close>, and \<open>SetupWithManager\<close> of \<open>internal/controller\<close>, which
  registers the controller. The flags decide the options of the manager; the calls that set it up come in a fixed
  order, and the first that fails ends the process. What is called (the flag package's parser,
  controller-runtime) is the record \<open>host\<close>.
\<close>

section \<open>Flags and options\<close>

record main_flags =
  fl_metricsAddr :: string
  fl_probeAddr :: string
  fl_enableLeaderElection :: bool
  fl_secureMetrics :: bool
  fl_metricsCertPath :: string
  fl_metricsCertName :: string
  fl_metricsCertKey :: string
  fl_enableHTTP2 :: bool
  fl_maxConcurrentReconciles :: int

definition default_flags :: main_flags where
  "default_flags = \<lparr>fl_metricsAddr = ''0'', fl_probeAddr = '':8081'', fl_enableLeaderElection = False,
     fl_secureMetrics = True, fl_metricsCertPath = '''', fl_metricsCertName = ''tls.crt'',
     fl_metricsCertKey = ''tls.key'', fl_enableHTTP2 = False, fl_maxConcurrentReconciles = 1\<rparr>"

text \<open>The one field of a TLS configuration that the program sets.\<close>

record tls_config =
  nextProtos :: "string list"

definition disable_http2 :: "tls_config \<Rightarrow> tls_config" where
  "disable_http2 c = c\<lparr>nextProtos := [''http/1.1'']\<rparr>"

definition tls_opts :: "main_flags \<Rightarrow> (tls_config \<Rightarrow> tls_config) list" where
  "tls_opts fl = (if \<not> fl_enableHTTP2 fl then [disable_http2] else [])"

text \<open>\<open>mo_filtered\<close>: requests for metrics are authenticated and authorised.\<close>

record metrics_options =
  mo_bindAddress :: string
  mo_secureServing :: bool
  mo_tlsOpts :: "(tls_config \<Rightarrow> tls_config) list"
  mo_filtered :: bool
  mo_certDir :: string
  mo_certName :: string
  mo_keyName :: string

definition metrics_server_options :: "main_flags \<Rightarrow> metrics_options" where
  "metrics_server_options fl =
     (let base = \<lparr>mo_bindAddress = fl_metricsAddr fl, mo_secureServing = fl_secureMetrics fl,
            mo_tlsOpts = tls_opts fl, mo_filtered = False, mo_certDir = '''', mo_certName = '''', mo_keyName = ''''\<rparr>;
          filtered = (if fl_secureMetrics fl then base\<lparr>mo_filtered := True\<rparr> else base)
      in if length (fl_metricsCertPath fl) > 0
         then filtered\<lparr>mo_certDir := fl_metricsCertPath fl, mo_certName := fl_metricsCertName fl,
                mo_keyName := fl_metricsCertKey fl\<rparr>
         else filtered)"

record manager_options =
  go_metrics :: metrics_options
  go_probeAddress :: string
  go_leaderElection :: bool
  go_leaderElectionID :: string

definition manager_options_of :: "main_flags \<Rightarrow> manager_options" where
  "manager_options_of fl = \<lparr>go_metrics = metrics_server_options fl, go_probeAddress = fl_probeAddr fl,
     go_leaderElection = fl_enableLeaderElection fl, go_leaderElectionID = ''1367ceda.aws.edenlab.io''\<rparr>"

text \<open>
  What \<open>SetupWithManager\<close> asks of the builder. With the event filter \<open>GenerationChangedPredicate\<close> an update
  that leaves the spec alone, as every status patch does, starts no reconcile.
\<close>

datatype event_filter = GenerationChanged | NoFilter

record controller_options =
  co_for :: string
  co_maxConcurrentReconciles :: int
  co_eventFilter :: event_filter
  co_named :: string

definition controller_options_of :: "int \<Rightarrow> controller_options" where
  "controller_options_of maxConcurrentReconciles = \<lparr>co_for = ''EBSSnapshotRestore'',
     co_maxConcurrentReconciles = maxConcurrentReconciles, co_eventFilter = GenerationChanged,
     co_named = ''ebssnapshotrestore''\<rparr>"

section \<open>The calls\<close>

datatype startup_call =
    AddToScheme string
  | GetConfig
  | NewManager manager_options
  | Complete controller_options
  | AddHealthzCheck string
  | AddReadyzCheck string
  | StartManager

text \<open>\<open>k_parse\<close> is \<open>flag.Parse\<close>: given the declared defaults, the values, or the status it exits with.\<close>

record 'w host =
  k_call :: "startup_call \<Rightarrow> 'w \<Rightarrow> (goerr + unit) \<times> 'w"
  k_parse :: "main_flags \<Rightarrow> 'w \<Rightarrow> (int + main_flags) \<times> 'w"

text \<open>The state: the outside, and which calls were made, with whether each succeeded.\<close>

record 'w startup =
  outside :: 'w
  made :: "(startup_call \<times> bool) list"

definition startup_call :: "'w host \<Rightarrow> startup_call \<Rightarrow> ('w startup, unit) go" where
  "startup_call host c = (\<lambda>s. case k_call host c (outside s) of
      (Inl e, w) \<Rightarrow> (Err e, s\<lparr>outside := w, made := made s @ [(c, False)]\<rparr>)
    | (Inr u, w) \<Rightarrow> (Ok (), s\<lparr>outside := w, made := made s @ [(c, True)]\<rparr>))"

text \<open>\<open>utilruntime.Must\<close> panics on an error.\<close>

definition must :: "('s, unit) go \<Rightarrow> ('s, unit) go" where
  "must m = gbind (attempt m) (\<lambda>res. case res of Inl err \<Rightarrow> gpanic ''Must'' | Inr u \<Rightarrow> gret ())"

definition init_scheme :: "'w host \<Rightarrow> ('w startup, unit) go" where
  "init_scheme host =
     gbind (must (startup_call host (AddToScheme ''client-go''))) (\<lambda>_.
     gbind (must (startup_call host (AddToScheme ''ebs.aws.edenlab.io/v1alpha1''))) (\<lambda>_.
     must (startup_call host (AddToScheme ''snapshot.storage.k8s.io/v1''))))"

definition setup_with_manager :: "'w host \<Rightarrow> int \<Rightarrow> ('w startup, unit) go" where
  "setup_with_manager host maxConcurrentReconciles =
     startup_call host (Complete (controller_options_of maxConcurrentReconciles))"

text \<open>\<open>if err := m; err != nil { setupLog.Error(...); os.Exit(1) }\<close>; the result is the exit status.\<close>

definition or_exit :: "('s, unit) go \<Rightarrow> ('s, int) go \<Rightarrow> ('s, int) go" where
  "or_exit m rest = gbind (attempt m) (\<lambda>res. case res of Inl err \<Rightarrow> gret 1 | Inr u \<Rightarrow> rest)"

definition run_manager :: "'w host \<Rightarrow> main_flags \<Rightarrow> ('w startup, int) go" where
  "run_manager host fl =
     or_exit (startup_call host GetConfig) (
     or_exit (startup_call host (NewManager (manager_options_of fl))) (
     or_exit (setup_with_manager host (fl_maxConcurrentReconciles fl)) (
     or_exit (startup_call host (AddHealthzCheck ''healthz'')) (
     or_exit (startup_call host (AddReadyzCheck ''readyz'')) (
     or_exit (startup_call host StartManager) (gret 0))))))"

definition parse_flags :: "'w host \<Rightarrow> ('w startup, int + main_flags) go" where
  "parse_flags host = (\<lambda>s. case k_parse host default_flags (outside s) of (r, w) \<Rightarrow> (Ok r, s\<lparr>outside := w\<rparr>))"

definition run_main :: "'w host \<Rightarrow> ('w startup, int) go" where
  "run_main host =
     gbind (init_scheme host) (\<lambda>_.
     gbind (parse_flags host) (\<lambda>parsed. case parsed of
         Inl status \<Rightarrow> gret status
       | Inr fl \<Rightarrow> run_manager host fl))"

section \<open>The order of the calls\<close>

text \<open>The calls of a start with the flags \<open>fl\<close>, in order: nothing runs before everything is registered.\<close>

definition startup_plan :: "main_flags \<Rightarrow> startup_call list" where
  "startup_plan fl = [GetConfig, NewManager (manager_options_of fl),
     Complete (controller_options_of (fl_maxConcurrentReconciles fl)),
     AddHealthzCheck ''healthz'', AddReadyzCheck ''readyz'', StartManager]"

text \<open>
  \<open>ends_at plan code es\<close>: the calls \<open>es\<close> are those of the plan, all of them and they succeeded, or up to the first
  that failed; the exit status says which.
\<close>

fun ends_at :: "startup_call list \<Rightarrow> int \<Rightarrow> (startup_call \<times> bool) list \<Rightarrow> bool" where
  "ends_at [] code es \<longleftrightarrow> code = 0 \<and> es = []"
| "ends_at (c # cs) code es \<longleftrightarrow>
     (case es of [] \<Rightarrow> False
      | (c', ok) # es' \<Rightarrow> c' = c \<and> (if ok then ends_at cs code es' else code = 1 \<and> es' = []))"

definition ended :: "startup_call list \<Rightarrow> ('w startup, int) go \<Rightarrow> bool" where
  "ended plan m \<longleftrightarrow> (\<forall>s res t. m s = (res, t) \<longrightarrow> (\<exists>code es. res = Ok code \<and> made t = made s @ es \<and> ends_at plan code es))"

lemma ended_gret: "ended [] (gret 0)"
  by (simp add: ended_def gret_apply)

lemma ended_or_exit:
  assumes "ended plan rest"
  shows "ended (c # plan) (or_exit (startup_call host c) rest)"
  unfolding ended_def
proof (intro allI impI)
  fix s res t assume run: "or_exit (startup_call host c) rest s = (res, t)"
  obtain r w where call: "k_call host c (outside s) = (r, w)" by force
  show "\<exists>code es. res = Ok code \<and> made t = made s @ es \<and> ends_at (c # plan) code es"
  proof (cases r)
    case (Inl e)
    with run call show ?thesis
      by (intro exI [of _ 1] exI [of _ "[(c, False)]"]) (auto simp: or_exit_def startup_call_def go_run)
  next
    case (Inr u)
    with run call have "rest (s\<lparr>outside := w, made := made s @ [(c, True)]\<rparr>) = (res, t)"
      by (simp add: or_exit_def startup_call_def go_run)
    with assms obtain code es where "res = Ok code" "made t = (made s @ [(c, True)]) @ es" "ends_at plan code es"
      unfolding ended_def by fastforce
    then show ?thesis by (intro exI [of _ code] exI [of _ "(c, True) # es"]) simp
  qed
qed

lemma ended_run_manager: "ended (startup_plan fl) (run_manager host fl)"
  unfolding startup_plan_def run_manager_def setup_with_manager_def
  by (intro ended_or_exit ended_gret)

lemma ends_at_zero: "ends_at plan 0 es \<Longrightarrow> es = map (\<lambda>c. (c, True)) plan"
  by (induction plan arbitrary: es) (auto split: list.splits prod.splits if_splits)

lemma ends_at_failed: "ends_at plan code es \<Longrightarrow> code \<noteq> 0 \<Longrightarrow>
    code = 1 \<and> (\<exists>n < length plan. es = map (\<lambda>c. (c, True)) (take n plan) @ [(plan ! n, False)])"
proof (induction plan arbitrary: es)
  case (Cons c plan)
  then obtain ok es' where es: "es = (c, ok) # es'" by (auto split: list.splits)
  show ?case
  proof (cases ok)
    case True
    with Cons es obtain n where "code = 1" "n < length plan" "es' = map (\<lambda>c. (c, True)) (take n plan) @ [(plan ! n, False)]"
      by auto
    with es True show ?thesis by (intro conjI exI [of _ "Suc n"]) simp_all
  qed (use Cons.prems es in auto)
qed simp

text \<open>The three registrations: the flags are read only when all of them succeeded.\<close>

definition schemes :: "startup_call list" where
  "schemes = [AddToScheme ''client-go'', AddToScheme ''ebs.aws.edenlab.io/v1alpha1'', AddToScheme ''snapshot.storage.k8s.io/v1'']"

lemma must_call:
  "must (startup_call host c) s = (case k_call host c (outside s) of
      (Inl e, w) \<Rightarrow> (Panic ''Must'', s\<lparr>outside := w, made := made s @ [(c, False)]\<rparr>)
    | (Inr u, w) \<Rightarrow> (Ok (), s\<lparr>outside := w, made := made s @ [(c, True)]\<rparr>))"
  by (auto simp: must_def startup_call_def go_run split: prod.splits sum.splits)

lemma must_call_Ok: "must (startup_call host c) s = (Ok u, t) \<Longrightarrow> made t = made s @ [(c, True)]"
  by (auto simp: must_call split: prod.splits sum.splits)

lemma init_scheme_Ok:
  assumes "init_scheme host s = (Ok u, t)"
  shows "made t = made s @ map (\<lambda>c. (c, True)) schemes"
  using assms unfolding init_scheme_def
  by (elim gbind_OkE) (simp add: must_call_Ok schemes_def)

text \<open>C40: The process starts the manager only when everything before it succeeded: the calls follow the plan, the
  exit status is 0 exactly when all of them succeeded and 1 when one failed, which is then the last; and the manager
  serves HTTP/2 and unauthenticated metrics only when the flags ask for it.\<close>

theorem startup_in_order:
  assumes "run_main host s = (Ok code, t)" and "made s = []"
    and "init_scheme host s = (Ok (), s1)" and "k_parse host default_flags (outside s1) = (Inr fl, w)"
  shows "(code = 0 \<and> made t = map (\<lambda>c. (c, True)) (schemes @ startup_plan fl)
      \<or> code = 1 \<and> (\<exists>n < length (startup_plan fl).
          made t = map (\<lambda>c. (c, True)) (schemes @ take n (startup_plan fl)) @ [(startup_plan fl ! n, False)]))
    \<and> (\<forall>c. fold (\<lambda>f. f) (mo_tlsOpts (go_metrics (manager_options_of fl))) c
          = (if fl_enableHTTP2 fl then c else c\<lparr>nextProtos := [''http/1.1'']\<rparr>))
    \<and> (mo_filtered (go_metrics (manager_options_of fl)) \<longleftrightarrow> fl_secureMetrics fl)"
proof (intro conjI allI)
  have "run_manager host fl (s1\<lparr>outside := w\<rparr>) = (Ok code, t)"
    using assms(1,3,4) by (simp add: run_main_def go_run parse_flags_def)
  with ended_run_manager [of fl host] obtain es where es: "made t = made s1 @ es" "ends_at (startup_plan fl) code es"
    unfolding ended_def by fastforce
  have s1: "made s1 = map (\<lambda>c. (c, True)) schemes" using init_scheme_Ok [OF assms(3)] assms(2) by simp
  show "code = 0 \<and> made t = map (\<lambda>c. (c, True)) (schemes @ startup_plan fl)
      \<or> code = 1 \<and> (\<exists>n < length (startup_plan fl).
          made t = map (\<lambda>c. (c, True)) (schemes @ take n (startup_plan fl)) @ [(startup_plan fl ! n, False)])"
  proof (cases "code = 0")
    case True
    with ends_at_zero es s1 show ?thesis by simp
  next
    case False
    with ends_at_failed [OF es(2)] es(1) s1 show ?thesis by auto
  qed
qed (simp_all add: manager_options_of_def metrics_server_options_def tls_opts_def disable_http2_def Let_def)

section \<open>A start that fails\<close>

definition sample_host :: "unit host" where
  "sample_host = \<lparr>k_call = (\<lambda>c w. (case c of AddReadyzCheck n \<Rightarrow> Inl (Errorf ''refused'') | _ \<Rightarrow> Inr (), w)),
     k_parse = (\<lambda>fl w. (Inr fl, w))\<rparr>"

definition sample_start :: "unit startup" where
  "sample_start = \<lparr>outside = (), made = []\<rparr>"

lemma startup_in_order_witness:
  "(StartManager, True) \<notin> set (made (snd (run_main sample_host sample_start)))
   \<and> mo_filtered (go_metrics (manager_options_of default_flags))"
proof -
  have "case run_main sample_host sample_start of (x, t) \<Rightarrow> x = Ok 1" by code_simp
  then have run: "run_main sample_host sample_start = (Ok 1, snd (run_main sample_host sample_start))"
    by (auto split: prod.splits)
  have "case init_scheme sample_host sample_start of (x, t) \<Rightarrow> x = Ok ()" by code_simp
  then have init: "init_scheme sample_host sample_start = (Ok (), snd (init_scheme sample_host sample_start))"
    by (auto split: prod.splits)
  have "made sample_start = []" by (simp add: sample_start_def)
  moreover have "k_parse sample_host default_flags (outside (snd (init_scheme sample_host sample_start))) = (Inr default_flags, ())"
    by (simp add: sample_host_def)
  ultimately have "\<exists>n < length (startup_plan default_flags). made (snd (run_main sample_host sample_start)) =
      map (\<lambda>c. (c, True)) (schemes @ take n (startup_plan default_flags)) @ [(startup_plan default_flags ! n, False)]"
    and "mo_filtered (go_metrics (manager_options_of default_flags))"
    using startup_in_order [OF run _ init] by (simp_all add: default_flags_def)
  then show ?thesis
    by (auto simp: startup_plan_def schemes_def take_Cons' less_Suc_eq nth_Cons')
qed

end
