(* ===== verification/Spec2Isabelle.thy ===== *)
theory Spec2Isabelle
  imports Witnesses Deep_Copy Startup
begin

text \<open>
  A verification development for the EBS snapshot restore operator: a Kubernetes controller
  that restores the volumes of stateful applications from volume snapshots.

  \<^bold>\<open>The program.\<close> A custom resource \<open>EBSSnapshotRestore\<close> (\<open>src/api/v1alpha1\<close>) names restore plans.
  A plan has clusters (stateful sets), operators (deployments that manage them), hooks (jobs to
  run before and after) and a snapshot time. \<open>Reconcile\<close> (\<open>src/internal/controller\<close>) reads the
  resource and goes through its life cycle: initialise the status, validate the snapshots of every
  plan (\<open>src/internal/validate\<close>), run the hooks before the restore (\<open>src/internal/hooks\<close>), scale the
  workloads down (\<open>src/internal/scale\<close>), delete the claims and create them again from the snapshots
  (\<open>src/internal/restore\<close>), scale up, run the hooks after the restore, report \<open>Completed\<close>. Every step
  records its progress in the status of the resource through \<open>src/internal/status\<close>, and the status is
  what the packages and successive reconciles share: the lock of a plan keeps it from being restored
  again, the scale-up count from being scaled up again, the entry of a hook from being run again.

  \<^bold>\<open>The theories.\<close>
  \<^item> \<open>Prelude\<close>: Go's errors, nil and non-nil maps, and a monad \<open>('s, 'a) go\<close> of functions that change a
    state and end in \<open>Ok\<close>, \<open>Err\<close> (a returned error) or \<open>Panic\<close>; loops, Hoare triples over it, and the
    locale \<open>frame\<close> of relations that every step of a function keeps.
  \<^item> \<open>Goroutines\<close>: functions that run in an errgroup are a \<open>proc\<close>, a tree of atomic steps;
    \<open>group_run\<close> is their interleaving, with what every interleaving keeps and ends in.
  \<^item> \<open>Api_Types\<close>: the structs of \<open>hooks_types.go\<close>, \<open>ebssnapshotrestore_types.go\<close> and \<open>status_type.go\<close>
    as records; the phases as a \<open>linorder\<close> by their place in the life cycle.
  \<^item> \<open>Kube\<close>: the outside. The record \<open>env\<close> has one field per library call the code makes (the API
    client, polling, errgroup, label selectors, JSON, SHA-256, the clock, the order in which a map is
    ranged over); the fields act on a world of any type. The record \<open>st\<close> is the state: the world, the
    ghost trace of API calls, the custom resource the functions share through a pointer, and the
    variables that polling closures capture (\<open>seen\<close>, \<open>pv_name\<close>).
  \<^item> \<open>Status_Manager\<close>: \<open>Patch\<close> and every setter of \<open>manage_status.go\<close>; the locale \<open>status_setter\<close> is the
    contract the other packages use (the status is changed as the setter says, nothing else is, at most
    one patch is sent), interpreted for each setter.
  \<^item> \<open>Hook_Names\<close>, \<open>Hooks\<close>, \<open>Hook_Facts\<close>: \<open>manage_hooks.go\<close>; names, checksums and prefixes, then the
    handlers, then what they do.
  \<^item> \<open>Validate\<close>, \<open>Restore\<close>, \<open>Scale\<close>: \<open>manage_validate.go\<close>, \<open>manage_restore.go\<close>, \<open>manage_scale.go\<close>,
    each with the triples of its operations. The locale \<open>target_scaler\<close> is the contract of the four
    functions that scale one workload, and the loop over targets is proved once inside it.
  \<^item> \<open>Operator\<close>: the locales \<open>step_frame\<close>, \<open>claim_frame\<close> and \<open>operator_frame\<close>, each extending the one before,
    which carry a relation between states through the packages.
  \<^item> \<open>Reconcile\<close>: the controller, and the properties of a whole reconcile.
  \<^item> \<open>Lifetime\<close>: the resource over many reconciles: \<open>history\<close> is the step relation of runs of the operator
    and edits of the spec by others. The locale \<open>guard\<close> is the interface of a fact that every step keeps and of the
    claims that may change where it holds; it is interpreted for one locked plan, and in \<open>Lock_Leak\<close> for a
    spec all of whose plans are locked.
  \<^item> \<open>Lock_Leak\<close>: what follows from the variable \<open>lock\<close> of the validation not being reset.
  \<^item> \<open>Status_Properties\<close>, \<open>Hook_Properties\<close>, \<open>Validate_Properties\<close>, \<open>Restore_Properties\<close>,
    \<open>Scale_Properties\<close>: the properties of each package.
  \<^item> \<open>Deep_Copy\<close>: \<open>zz_generated.deepcopy.go\<close> on an explicit heap. Everywhere else the resource is a value; this
    theory has its structs in memory, with addresses for slices, maps and pointers, and the locale
    \<open>deep_copier\<close> is what a copy promises: the same value, in memory nothing else refers to. It ends with
    the three copies that \<open>Patch\<close> takes, which is where the code relies on it. The copies of Kubernetes'
    own structs are parameters (\<open>foreign\<close>), assumed to keep the same promise (\<open>foreign_ok\<close>).
  \<^item> \<open>Startup\<close>: \<open>cmd/main.go\<close> and \<open>SetupWithManager\<close>: the flags, the options made of them and the calls that
    set up and start the manager; what they call is the record \<open>host\<close>.
  \<^item> \<open>Sample_Env\<close>: a small simulated cluster on which the hypotheses hold and everything computes;
    \<open>Scenarios\<close> and \<open>Witnesses\<close> run the operator on it.

  \<^bold>\<open>What is shown.\<close> Of a reconcile: its changes come in the order of the life cycle; \<open>Completed\<close> means
  that every plan is locked and marked as scaled up, which is not that it was restored (the lock leaks); it never panics; an error leaves the phase \<open>Failed\<close>; a
  completed restore is not repeated; a locked plan stays locked over any history of reconciles, failed
  ones included, and its claims are left alone; the spec is never changed; the next reconcile is scheduled. Of
  the packages: the stages of the restore of a claim, what the server said just before the creation and at the
  end, and which claims are restored; what the server said before a plan counts as scaled down or up, and the bounds of the replicas asked for; what a
  successful validation leaves in the status; that the setters refine the update of a map and their copies of the status are isolated; which hooks an
  event has, field by field, with which command and privileges they run, what they may change, and that the
  outcome recorded decides whether they run again.
  Some properties state behaviour that is unlikely to be intended: a lock that leaks from one plan
  to all later ones, which are then not restored, a plan removed from the spec that is restored again, a claim created without a name.

  \<^bold>\<open>Hypotheses on the outside.\<close> Nothing is assumed of the fields of \<open>env\<close> but these, each documented
  behaviour, and a property names those it needs:
  \<^item> \<open>status_env\<close>: \<open>cmp.Equal\<close> under the options of \<open>statusCmpOptions\<close> is equality up to them, and a
    status patch that succeeds returns the object as sent (no other writer between read and write).
  \<^item> \<open>poll_ok\<close>: \<open>wait.PollUntilContextTimeout\<close> evaluates its condition until it is true, fails, or the
    deadline ends the wait with an error. The relation has no bound on the number of evaluations.
  \<^item> \<open>group_ok\<close>: errgroup runs its functions in some interleaving of their atomic steps.
  \<^item> \<open>sha_ok\<close>: a digest printed in hexadecimal has 64 hexadecimal characters.
  \<^item> \<open>json_ok\<close>: the empty string is not JSON.
  \<^item> \<open>good_env\<close> is all of these. \<open>patches_succeed\<close> (no status patch is refused) is used only to say
    when an error cannot be that of a patch.
  \<^item> \<open>no_nil_hooks\<close>: no entry of the map of hooks is a nil pointer (the code dereferences it);
    \<open>history\<close> lets a reconcile read what was last stored (a read from a stale cache is left out);
    \<open>all_aligned\<close>: the status has an entry per target, which the validation is proved to leave.

  \<^bold>\<open>Bounds and fuel.\<close> The loops of the code run over lists and maps, so the model is structurally
  recursive and total. Waiting is left to \<open>k_poll\<close>, any function that satisfies \<open>poll_ok\<close>. Only the simulated
  cluster bounds it: three evaluations, enough because its objects change at the second. Replica counts
  and counters are \<open>int32\<close> in the code, which compares, copies and never adds them: they are \<open>int\<close>.

  \<^bold>\<open>Not modelled.\<close> Logging (\<open>logMutationStatus\<close>, the loggers), which changes nothing the code reads; how
  controller-runtime queues and filters events (a library; \<open>Startup\<close> has what is asked of it); the variables
  of the scheme registration; how the flag package reads the command line; tests and manifests.
\<close>

end
